(* ===== verification/Prelude.thy ===== *)
theory Prelude
  imports Main "HOL-Library.Word" "HOL-Library.Signed_Division"
begin

text \<open>
  Shared vocabulary of the development: Go's byte slices and machine integers, the result type of
  code that can panic or loop, the contracts of an addressable store of cells and of a transition system, and list lemmas the
  components use.
\<close>

section \<open>Types\<close>

text \<open>
  A Go byte slice or string is a list of characters, each one a byte. Where the code distinguishes
  a nil slice from an empty one the model has \<open>bytes option\<close>, with \<^term>\<open>None\<close> for nil;
  \<open>len\<close>, \<open>range\<close> and \<open>bytes.Equal\<close> treat nil as empty, which is \<open>bytes_of\<close>.
  Go's \<open>int\<close> and \<open>int64\<close> are 64-bit words read by \<^const>\<open>sint\<close>, \<open>int32\<close> is a 32-bit word.
  A pointer is an address, \<open>addr option\<close> where it may be nil. A physical instant
  (\<open>time.Time\<close>) is its number of nanoseconds since the epoch.
\<close>

type_synonym bytes = string
type_synonym addr = nat
type_synonym int64 = "64 word"
type_synonym int32 = "32 word"
type_synonym Time = int

definition bytes_of :: "bytes option \<Rightarrow> bytes" where
  "bytes_of b = (case b of None \<Rightarrow> [] | Some x \<Rightarrow> x)"

lemma bytes_of_simps [simp]:
  "bytes_of None = []" "bytes_of (Some x) = x"
  by (simp_all add: bytes_of_def)

section \<open>Results of code that can fail at run time\<close>

text \<open>
  A run-time failure is a value: a nil dereference, an index out of range, an integer division by
  zero, an explicit \<open>panic\<close> (with its reason), or a loop that did not finish within the fuel
  its model was given.
\<close>

datatype fault = NilDeref | BadIndex | DivByZero | Panic string | NoFuel

type_synonym 'a res = "fault + 'a"

definition rbind :: "'e + 'a \<Rightarrow> ('a \<Rightarrow> 'e + 'b) \<Rightarrow> 'e + 'b" where
  "rbind m f = (case m of Inl e \<Rightarrow> Inl e | Inr x \<Rightarrow> f x)"

lemma rbind_simps [simp]:
  "rbind (Inl e) f = Inl e" "rbind (Inr x) f = f x"
  by (simp_all add: rbind_def)

lemma rbind_Inr_iff [simp]: "rbind m f = Inr y \<longleftrightarrow> (\<exists>x. m = Inr x \<and> f x = Inr y)"
  by (cases m) auto

lemma rbind_Inl_iff: "rbind m f = Inl e \<longleftrightarrow> m = Inl e \<or> (\<exists>x. m = Inr x \<and> f x = Inl e)"
  by (cases m) auto

text \<open>Dereferencing a pointer that may be nil.\<close>

definition deref :: "'a option \<Rightarrow> 'a res" where
  "deref p = (case p of None \<Rightarrow> Inl NilDeref | Some x \<Rightarrow> Inr x)"

lemma deref_simps [simp]: "deref None = Inl NilDeref" "deref (Some x) = Inr x"
  by (simp_all add: deref_def)

lemma deref_Inr_iff [simp]: "deref p = Inr x \<longleftrightarrow> p = Some x"
  by (cases p) auto

text \<open>
  Go's slice indexing \<open>s[i]\<close>, with a signed index, panics out of range.
\<close>

definition index :: "'a list \<Rightarrow> int \<Rightarrow> 'a res" where
  "index xs i = (if 0 \<le> i \<and> i < int (length xs) then Inr (xs ! nat i) else Inl BadIndex)"

lemma index_Inr_iff: "index xs i = Inr x \<longleftrightarrow> 0 \<le> i \<and> i < int (length xs) \<and> x = xs ! nat i"
  by (auto simp: index_def)

section \<open>Stores\<close>

text \<open>
  The contract of an addressable store: what a read returns after a write at the same and at another
  address. The shared mutable objects of the program (blocks, quorums, block trees, block
  sets) live in such stores.
\<close>

locale cell_store =
  fixes get :: "'h \<Rightarrow> addr \<Rightarrow> 'v"
    and put :: "addr \<Rightarrow> 'v \<Rightarrow> 'h \<Rightarrow> 'h"
  assumes get_put_same: "get (put a v h) a = v"
    and get_put_other: "a \<noteq> b \<Longrightarrow> get (put a v h) b = get h b"
    and put_put: "put a v (put a w h) = put a v h"
begin

text \<open>Updating the cell in place: \<open>p.f = g(p.f)\<close>.\<close>

lemma get_put_if: "get (put a v h) b = (if a = b then v else get h b)"
  by (simp add: get_put_same get_put_other)

lemma read_preserved:
  assumes "f v = f (get h a)"
  shows "f (get (put a v h) b) = f (get h b)"
  using assms by (simp add: get_put_if)

lemma update_twice: "put a (g (get (put a (f (get h a)) h) a)) (put a (f (get h a)) h) = put a (g (f (get h a))) h"
  by (simp add: get_put_same put_put)

end

section \<open>Transition systems\<close>

text \<open>
  The contract of a step relation and of what it reaches: every run starts where it is, is extended by a step, and nothing else is
  reached. What a step keeps, every run keeps; what a step can only increase, every run only increases.
\<close>

locale transition_system =
  fixes one :: "'s \<Rightarrow> 's \<Rightarrow> bool"
    and run :: "'s \<Rightarrow> 's \<Rightarrow> bool"
  assumes run_refl: "run s s"
    and run_step: "run s t \<Longrightarrow> one t u \<Longrightarrow> run s u"
    and run_induct: "run s t \<Longrightarrow> P s \<Longrightarrow> (\<And>t u. P t \<Longrightarrow> one t u \<Longrightarrow> P u) \<Longrightarrow> P t"
begin

lemma run_one: "one s t \<Longrightarrow> run s t"
  using run_step [OF run_refl] .

lemma run_trans: "run s t \<Longrightarrow> run t u \<Longrightarrow> run s u"
  using run_induct [of t u "run s"] run_step by blast

lemma run_invar:
  assumes "run s t" "I s" "\<And>t u. one t u \<Longrightarrow> I t \<Longrightarrow> I u"
  shows "I t"
  using run_induct [of s t I] assms by blast

text \<open>A relation between the ends of a run, from one between the ends of a step that holds under an invariant.\<close>

lemma run_relates:
  assumes "run s t" "I s" "\<And>t u. one t u \<Longrightarrow> I t \<Longrightarrow> I u \<and> R t u" "R s s" "\<And>t u. R s t \<Longrightarrow> R t u \<Longrightarrow> R s u"
  shows "I t \<and> R s t"
  using run_invar [of s t "\<lambda>t. I t \<and> R s t"] assms by blast

text \<open>What can be reached from a successor can be reached.\<close>

lemma run_ahead: "one s t \<Longrightarrow> \<exists>u. run t u \<and> Q u \<Longrightarrow> \<exists>u. run s u \<and> Q u"
  using run_trans run_one by blast

end

section \<open>Sequences of operations\<close>

text \<open>A sequence of operations, with what they answer.\<close>

fun run_ops :: "('o \<Rightarrow> 'm \<Rightarrow> 'm \<times> 'r) \<Rightarrow> 'o list \<Rightarrow> 'm \<Rightarrow> 'm \<times> 'r list" where
  "run_ops f [] m = (m, [])"
| "run_ops f (o' # os) m = (let (m1, r) = f o' m; (m2, rs) = run_ops f os m1 in (m2, r # rs))"

text \<open>An implementation that answers like its specification and keeps the abstraction, on every operation that is allowed.\<close>

locale simulation =
  fixes exec :: "'o \<Rightarrow> 'm \<Rightarrow> 'm \<times> 'r" and spec :: "'o \<Rightarrow> 'a \<Rightarrow> 'a \<times> 'r" and abs :: "'m \<Rightarrow> 'a" and inv :: "'m \<Rightarrow> bool" and ok :: "'o \<Rightarrow> bool"
  assumes sim: "inv m \<Longrightarrow> ok o' \<Longrightarrow> exec o' m = (m', r) \<Longrightarrow> inv m' \<and> spec o' (abs m) = (abs m', r)"
begin

lemma runs:
  "inv m \<Longrightarrow> \<forall>o' \<in> set os. ok o' \<Longrightarrow> run_ops exec os m = (m', rs) \<Longrightarrow> inv m' \<and> run_ops spec os (abs m) = (abs m', rs)"
proof (induction os arbitrary: m rs)
  case (Cons o' os)
  obtain m1 r where m1: "exec o' m = (m1, r)" by (cases "exec o' m")
  obtain m2 rs' where m2: "run_ops exec os m1 = (m2, rs')" by (cases "run_ops exec os m1")
  have eq: "m2 = m'" "rs = r # rs'" using Cons.prems(3) m1 m2 by simp_all
  note m2 = m2 [unfolded eq(1)]
  show ?case using sim [OF Cons.prems(1) _ m1] Cons.IH [OF _ _ m2] Cons.prems(2) m1 m2 eq(2) by auto
qed simp

end

section \<open>Lists\<close>

named_theorems go_defs \<open>definitions of straight-line helpers, unfolded together\<close>

lemma member_length: "x \<in> set xs \<Longrightarrow> 1 \<le> length xs"
  by (cases xs) simp_all

lemma find_SomeD: "List.find P xs = Some x \<Longrightarrow> x \<in> set xs \<and> P x"
  by (auto simp: find_Some_iff)

lemma find_unique:
  assumes "x \<in> set xs" "P x" "\<And>y. y \<in> set xs \<Longrightarrow> P y \<Longrightarrow> y = x"
  shows "List.find P xs = Some x"
proof (cases "List.find P xs")
  case None
  then show ?thesis using assms(1,2) by (auto simp: find_None_iff)
next
  case (Some y)
  then have "y \<in> set xs" "P y" using find_SomeD [OF Some] by blast+
  with assms(3) Some show ?thesis by simp
qed

lemma length_distinct_le:
  assumes "distinct xs" "set xs \<subseteq> {..<n}"
  shows "length xs \<le> n"
  using assms card_mono [of "{..<n}" "set xs"] by (simp add: distinct_card)

section \<open>Lengths as machine integers\<close>

lemma sint_of_nat_32: "n < 2 ^ 31 \<Longrightarrow> sint (of_nat n :: int32) = int n"
proof -
  assume "n < 2 ^ 31"
  then have "int n < 2 ^ 31" by simp
  then show ?thesis using int_word_sint [where 'a = 32 and x = "int n"] by simp
qed

lemma sint_of_nat_64: "n < 2 ^ 63 \<Longrightarrow> sint (of_nat n :: int64) = int n"
proof -
  assume "n < 2 ^ 63"
  then have "int n < 2 ^ 63" by simp
  then show ?thesis using int_word_sint [where 'a = 64 and x = "int n"] by simp
qed

end
