(* ===== verification/Strconv.thy ===== *)
theory Strconv
  imports Prelude
begin

text \<open>
  The two conversions of Go's package \<open>strconv\<close> the program relies on, for base 10 and 64-bit
  integers: \<open>Itoa\<close> (also \<open>AppendInt\<close> with base 10) and \<open>Atoi\<close>, which
  accepts an optional sign and at least one digit, returns 0 with an error for anything else and
  the nearest bound with an error when the value does not fit.
\<close>

section \<open>Decimal digits\<close>

definition digit_char :: "nat \<Rightarrow> char" where
  "digit_char d = char_of (48 + d)"

definition is_digit :: "char \<Rightarrow> bool" where
  "is_digit c \<longleftrightarrow> 48 \<le> (of_char c :: nat) \<and> (of_char c :: nat) \<le> 57"

definition digit_val :: "char \<Rightarrow> nat" where
  "digit_val c = of_char c - 48"

fun decimal :: "nat \<Rightarrow> string" where
  "decimal n = (if n < 10 then [digit_char n] else decimal (n div 10) @ [digit_char (n mod 10)])"

declare decimal.simps [simp del]

definition decimal_value :: "string \<Rightarrow> nat" where
  "decimal_value s = foldl (\<lambda>v c. 10 * v + digit_val c) 0 s"

definition Itoa :: "int64 \<Rightarrow> string" where
  "Itoa w = (if sint w < 0 then CHR ''-'' # decimal (nat (- sint w)) else decimal (nat (sint w)))"

datatype atoi_error = ErrSyntax | ErrRange

definition unsigned_part :: "string \<Rightarrow> string" where
  "unsigned_part s = (case s of [] \<Rightarrow> [] | c # cs \<Rightarrow> if c = CHR ''-'' \<or> c = CHR ''+'' then cs else s)"

definition signed_value :: "string \<Rightarrow> int" where
  "signed_value s = (let v = int (decimal_value (unsigned_part s)) in
     case s of [] \<Rightarrow> v | c # cs \<Rightarrow> if c = CHR ''-'' then - v else v)"

definition max_int64 :: int where "max_int64 = 2 ^ 63 - 1"
definition min_int64 :: int where "min_int64 = - (2 ^ 63)"

definition Atoi :: "string \<Rightarrow> int64 \<times> atoi_error option" where
  "Atoi s =
    (if unsigned_part s = [] \<or> \<not> list_all is_digit (unsigned_part s) then (0, Some ErrSyntax)
     else let v = signed_value s in
       if v > max_int64 then (word_of_int max_int64, Some ErrRange)
       else if v < min_int64 then (word_of_int min_int64, Some ErrRange)
       else (word_of_int v, None))"

section \<open>Digits\<close>

lemma of_char_digit_char [simp]: "d < 10 \<Longrightarrow> (of_char (digit_char d) :: nat) = 48 + d"
  by (simp add: digit_char_def)

lemma is_digit_digit_char [simp]: "d < 10 \<Longrightarrow> is_digit (digit_char d)"
  by (simp add: is_digit_def)

lemma digit_val_digit_char [simp]: "d < 10 \<Longrightarrow> digit_val (digit_char d) = d"
  by (simp add: digit_val_def)

lemma decimal_digits: "list_all is_digit (decimal n)"
proof (induction n rule: decimal.induct)
  case (1 n)
  then show ?case by (cases "n < 10") (simp_all add: decimal.simps [of n])
qed

lemma decimal_nonempty [simp]: "decimal n \<noteq> []"
  by (subst decimal.simps) simp

lemma decimal_value_snoc: "decimal_value (s @ [c]) = 10 * decimal_value s + digit_val c"
  by (simp add: decimal_value_def)

lemma decimal_value_decimal [simp]: "decimal_value (decimal n) = n"
proof (induction n rule: decimal.induct)
  case (1 n)
  show ?case
  proof (cases "n < 10")
    case True
    then show ?thesis by (simp add: decimal.simps [of n] decimal_value_def)
  next
    case False
    then show ?thesis using 1 by (simp add: decimal.simps [of n] decimal_value_snoc)
  qed
qed

lemma decimal_inject [simp]: "decimal m = decimal n \<longleftrightarrow> m = n"
  by (metis decimal_value_decimal)

lemma decimal_unsigned_part [simp]: "unsigned_part (decimal n) = decimal n"
proof (cases "decimal n")
  case (Cons c cs)
  then have "is_digit c" using decimal_digits [of n] by simp
  then have "c \<noteq> CHR ''-'' \<and> c \<noteq> CHR ''+''" by (auto simp: is_digit_def)
  with Cons show ?thesis by (simp add: unsigned_part_def)
qed simp

lemma signed_value_decimal [simp]: "signed_value (decimal n) = int n"
proof (cases "decimal n")
  case (Cons c cs)
  then have "is_digit c" using decimal_digits [of n] by simp
  then have "c \<noteq> CHR ''-''" by (auto simp: is_digit_def)
  with Cons have "signed_value (decimal n) = int (decimal_value (unsigned_part (decimal n)))"
    by (simp add: signed_value_def)
  then show ?thesis by simp
qed simp

section \<open>Round trip\<close>

lemma sint_int64_bounds: "min_int64 \<le> sint (w :: int64)" "sint (w :: int64) \<le> max_int64"
  using sint_greater_eq [of w] sint_less [of w] by (simp_all add: min_int64_def max_int64_def)

lemma unsigned_part_Itoa [simp]: "unsigned_part (Itoa w) = decimal (nat \<bar>sint w\<bar>)"
  by (simp add: Itoa_def unsigned_part_def [of "_ # _"])

lemma signed_value_Itoa [simp]: "signed_value (Itoa w) = sint w"
proof (cases "sint w < 0")
  case True
  then have "signed_value (Itoa w) = - int (decimal_value (unsigned_part (Itoa w)))"
    by (simp add: Itoa_def signed_value_def)
  with True show ?thesis by simp
qed (simp add: Itoa_def)

theorem Atoi_Itoa [simp]: "Atoi (Itoa w) = (w, None)"
  using sint_int64_bounds [of w] by (simp add: Atoi_def decimal_digits)

lemma Itoa_inject [simp]: "Itoa v = Itoa w \<longleftrightarrow> v = w"
  by (metis Atoi_Itoa prod.inject)

end
