(* ===== verification/LogicTime.thy ===== *)
theory LogicTime
  imports Strconv
begin

text \<open>
  The logical clock type \<open>LTime\<close> of types/logic\_time.go: a signed 64-bit slot number. Addition and
  subtraction wrap; comparison is signed; \<open>Mod\<close> is Go's truncated remainder, which panics on a
  zero divisor. \<open>Greater\<close> is the code's comparison and holds for equal times.
\<close>

type_synonym LTime = int64

definition LtimeZero :: LTime where
  "LtimeZero = 0"

definition Update :: "LTime \<Rightarrow> int64 \<Rightarrow> LTime" where
  "Update t delta = t + delta"

definition LTime_Hash :: "LTime \<Rightarrow> bytes" where
  "LTime_Hash t = Itoa t"

definition Equal :: "LTime \<Rightarrow> LTime \<Rightarrow> bool" where
  "Equal t other \<longleftrightarrow> t = other"

definition Greater :: "LTime \<Rightarrow> LTime \<Rightarrow> bool" where
  "Greater t other \<longleftrightarrow> sint t \<ge> sint other"

definition Mod :: "LTime \<Rightarrow> int64 \<Rightarrow> int64 res" where
  "Mod t val = (if val = 0 then Inl DivByZero else Inr (word_of_int (sint t smod sint val)))"

definition Sub :: "LTime \<Rightarrow> LTime \<Rightarrow> int64" where
  "Sub x y = x - y"

definition Int64 :: "LTime \<Rightarrow> int64" where
  "Int64 x = x"

section \<open>Order\<close>

lemma Equal_iff [simp]: "Equal t u \<longleftrightarrow> t = u"
  by (simp add: Equal_def)

lemma Greater_refl [simp]: "Greater t t"
  by (simp add: Greater_def)

lemma Greater_trans: "Greater t u \<Longrightarrow> Greater u v \<Longrightarrow> Greater t v"
  by (simp add: Greater_def)

lemma Greater_total: "Greater t u \<or> Greater u t"
  by (auto simp: Greater_def)

lemma Greater_antisym: "Greater t u \<Longrightarrow> Greater u t \<Longrightarrow> t = u"
  by (auto simp: Greater_def intro: signed_word_eqI)

lemma not_Greater_iff: "\<not> Greater t u \<longleftrightarrow> sint t < sint u"
  by (auto simp: Greater_def)

section \<open>Arithmetic\<close>

lemma Sub_Update [simp]: "Sub (Update t d) t = d"
  by (simp add: Sub_def Update_def)

lemma sint_word_of_int_64: "- (2 ^ 63) \<le> k \<Longrightarrow> k < 2 ^ 63 \<Longrightarrow> sint (word_of_int k :: int64) = k"
  by (simp add: int_word_sint)

lemma sint_Update_one:
  assumes "sint t < 2 ^ 63 - 1"
  shows "sint (Update t 1) = sint t + 1"
proof -
  have "Update t 1 = word_of_int (sint t + 1)" by (simp add: Update_def)
  moreover have "- (2 ^ 63) \<le> sint t" using sint_greater_eq [of t] by simp
  ultimately show ?thesis using assms sint_word_of_int_64 [of "sint t + 1"] by simp
qed

lemma Update_wraps: "sint (Update (word_of_int (2 ^ 63 - 1)) 1) = - (2 ^ 63)"
  by (simp add: Update_def)

lemma smod_nonneg: "0 \<le> (a :: int) \<Longrightarrow> 0 < b \<Longrightarrow> a smod b = a mod b"
  by (cases "a = 0") (simp_all add: signed_modulo_int_def signed_divide_int_def minus_div_mult_eq_mod)

lemma Mod_nonneg:
  assumes "0 \<le> sint t" "0 < n" "n < 2 ^ 63"
  shows "Mod t (word_of_int n) = Inr (word_of_int (sint t mod n))"
proof -
  have "sint (word_of_int n :: int64) = n" using assms sint_word_of_int_64 [of n] by simp
  moreover have "(word_of_int n :: int64) \<noteq> 0" using calculation assms(2) by (metis sint_0 less_irrefl)
  ultimately show ?thesis using assms by (simp add: Mod_def smod_nonneg)
qed

lemma LTime_Hash_inject [simp]: "LTime_Hash t = LTime_Hash u \<longleftrightarrow> t = u"
  by (simp add: LTime_Hash_def)

end
