(* ===== verification/Env.thy ===== *)
theory Env
  imports LogicTime
begin

text \<open>
  What the program takes from packages outside this repository, as parameters of the model: the
  Merkle root of tendermint's \<open>crypto/merkle\<close>, the digest of \<open>crypto/tmhash\<close>, signature
  verification and address of a \<open>crypto.PubKey\<close>, signing and the public key of a \<open>crypto.PrivKey\<close>, the Ed25519 and JSON primitives, and the
  scalar and point operations of kyber's bn256 suite. Every definition that needs one takes
  the record as an argument.
\<close>

type_synonym PubKey = bytes
type_synonym PrivKey = bytes
type_synonym Address = bytes

text \<open>
  The scalars \<open>'s\<close> and the points \<open>'g\<close> of the group \<open>G1\<close> of kyber's bn256 suite.
  \<open>scSetInt64\<close>, \<open>scMul\<close>, \<open>scAdd\<close> and \<open>scDiv\<close> are the scalar operations, \<open>ptNew\<close> the
  value of a fresh \<open>G1().Point()\<close>, \<open>ptMul\<close> scalar multiplication, and the
  (un)marshalling functions report failure with \<^const>\<open>None\<close>.
\<close>

record ('s, 'g) Suite =
  scOne :: 's
  scSetInt64 :: "int64 \<Rightarrow> 's"
  scMul :: "'s \<Rightarrow> 's \<Rightarrow> 's"
  scAdd :: "'s \<Rightarrow> 's \<Rightarrow> 's"
  scDiv :: "'s \<Rightarrow> 's \<Rightarrow> 's"
  scUnmarshal :: "bytes \<Rightarrow> 's option"
  scMarshal :: "'s \<Rightarrow> bytes"
  ptNew :: 'g
  ptAdd :: "'g \<Rightarrow> 'g \<Rightarrow> 'g"
  ptMul :: "'s \<Rightarrow> 'g \<Rightarrow> 'g"
  ptUnmarshal :: "bytes \<Rightarrow> 'g option"
  ptMarshal :: "'g \<Rightarrow> bytes option"

record ('s, 'g) Crypto =
  suite :: "('s, 'g) Suite"
  merkleRoot :: "bytes list \<Rightarrow> bytes"
  tmhashSum :: "bytes \<Rightarrow> bytes"
  ed25519Verify :: "bytes \<Rightarrow> bytes \<Rightarrow> bytes \<Rightarrow> bool"
  pkVerify :: "PubKey \<Rightarrow> bytes \<Rightarrow> bytes \<Rightarrow> bool"
  pkAddress :: "PubKey \<Rightarrow> Address"
  pkJSON :: "PubKey \<Rightarrow> bytes"
  privSign :: "PrivKey \<Rightarrow> bytes \<Rightarrow> string + bytes"
  privPubKey :: "PrivKey \<Rightarrow> PubKey option"

text \<open>
  What the standard library documents of Ed25519: public keys have 32 bytes, and a signature verifies under the public key of the
  key that made it. For \<open>crypto.PrivKey\<close> the same holds of its own verification.
\<close>

definition ed25519_laws :: "('s, 'g) Crypto \<Rightarrow> bool" where
  "ed25519_laws e \<longleftrightarrow> (\<forall>k m sig pub. privSign e k m = Inr sig \<longrightarrow> privPubKey e k = Some pub \<longrightarrow> length pub = 32 \<and> ed25519Verify e pub m sig)"

definition sign_laws :: "('s, 'g) Crypto \<Rightarrow> bool" where
  "sign_laws e \<longleftrightarrow> (\<forall>k m sig pub. privSign e k m = Inr sig \<longrightarrow> privPubKey e k = Some pub \<longrightarrow> pkVerify e pub m sig)"

end
