(* ===== verification/Transactions.thy ===== *)
theory Transactions
  imports Env
begin

text \<open>
  Transactions of types/tx.go: the SmallBank transaction record, its digest and signature check,
  its size and the Merkle root of a list of them.
\<close>

section \<open>Model\<close>

type_synonym SmallBankTxType = string

definition SBBalanceTx :: SmallBankTxType where "SBBalanceTx = ''balance''"
definition SBDepositCheckingTx :: SmallBankTxType where "SBDepositCheckingTx = ''deposit_checking''"
definition SBTransactionSavingTx :: SmallBankTxType where "SBTransactionSavingTx = ''transaction_saving''"
definition SBAmalgamateTx :: SmallBankTxType where "SBAmalgamateTx = ''amalgamate''"
definition SBWriteCheckingTx :: SmallBankTxType where "SBWriteCheckingTx = ''write_checking''"

lemmas SmallBankTxTypes =
  SBBalanceTx_def SBDepositCheckingTx_def SBTransactionSavingTx_def SBAmalgamateTx_def SBWriteCheckingTx_def

record Tx =
  TxType :: SmallBankTxType
  Args :: "string list"
  TxSendTimestamp :: int64
  tx_Signature :: bytes
  PublicKey :: "bytes option"

definition NewTx :: Tx where
  "NewTx = \<lparr>TxType = [], Args = [], TxSendTimestamp = 0, tx_Signature = [], PublicKey = None\<rparr>"

text \<open>The digest of everything written to the hasher, in order: the type and every argument.\<close>

definition Tx_Hash :: "('s, 'g) Crypto \<Rightarrow> Tx \<Rightarrow> bytes" where
  "Tx_Hash e tx = tmhashSum e (TxType tx @ concat (Args tx))"

text \<open>
  \<open>ed25519.Verify\<close> of Go's standard library panics when the public key is not 32 bytes long.
\<close>

definition ed25519_PublicKeySize :: nat where
  "ed25519_PublicKeySize = 32"

definition ed25519_Verify :: "('s, 'g) Crypto \<Rightarrow> bytes \<Rightarrow> bytes \<Rightarrow> bytes \<Rightarrow> bool res" where
  "ed25519_Verify e pubkey msg sig =
    (if length pubkey \<noteq> ed25519_PublicKeySize then Inl (Panic ''ed25519: bad public key length'')
     else Inr (ed25519Verify e pubkey msg sig))"

definition Valid :: "('s, 'g) Crypto \<Rightarrow> Tx \<Rightarrow> bool res" where
  "Valid e tx = (case PublicKey tx of
      None \<Rightarrow> Inr False
    | Some pubkey \<Rightarrow> ed25519_Verify e pubkey (Tx_Hash e tx) (tx_Signature tx))"

text \<open>\<open>ComputeSize\<close> adds the lengths of the arguments one by one.\<close>

definition ComputeSize :: "Tx \<Rightarrow> int64" where
  "ComputeSize tx =
    (let s = of_nat (length (TxType tx)) + of_nat (length (tx_Signature tx))
             + of_nat (length (bytes_of (PublicKey tx)))
     in foldl (\<lambda>s arg. s + of_nat (length arg)) s (Args tx) + 9 * 8)"

definition CaputeSizeForTxs :: "Tx list \<Rightarrow> int64" where
  "CaputeSizeForTxs txs = foldl (\<lambda>dataSize tx. dataSize + ComputeSize tx) 0 txs"

definition Txs_Append :: "Tx list \<Rightarrow> Tx list \<Rightarrow> Tx list" where
  "Txs_Append txs tx = txs @ tx"

definition Txs_Hash :: "('s, 'g) Crypto \<Rightarrow> Tx list \<Rightarrow> bytes" where
  "Txs_Hash e txs = merkleRoot e (map (Tx_Hash e) txs)"

section \<open>Sizes\<close>

lemma foldl_plus_start: "foldl (\<lambda>s x. s + f x) (a :: 'a :: comm_monoid_add) xs = a + sum_list (map f xs)"
  by (induction xs arbitrary: a) (simp_all add: add.assoc)

lemma CaputeSizeForTxs_sum: "CaputeSizeForTxs txs = sum_list (map ComputeSize txs)"
  by (simp add: CaputeSizeForTxs_def foldl_plus_start)

lemma CaputeSizeForTxs_append:
  "CaputeSizeForTxs (Txs_Append xs ys) = CaputeSizeForTxs xs + CaputeSizeForTxs ys"
  by (simp add: CaputeSizeForTxs_sum Txs_Append_def)

section \<open>What a transaction signature covers\<close>

text \<open>
  The digest is taken over the concatenation of the arguments with nothing between them, so moving
  the boundary between two arguments changes neither the digest nor the outcome of the
  signature check. It also leaves out the send time.
\<close>

lemma Tx_Hash_boundary:
  "TxType t = TxType u \<Longrightarrow> concat (Args t) = concat (Args u) \<Longrightarrow> Tx_Hash e t = Tx_Hash e u"
  by (simp add: Tx_Hash_def)

lemma Valid_boundary:
  assumes "concat args = concat (Args t)"
  shows "Valid e (t\<lparr>Args := args, TxSendTimestamp := ts\<rparr>) = Valid e t"
  using assms by (auto simp: Valid_def Tx_Hash_def split: option.split)

lemma Valid_panics_iff:
  "(\<exists>f. Valid e tx = Inl f) \<longleftrightarrow> (\<exists>pk. PublicKey tx = Some pk \<and> length pk \<noteq> 32)"
  by (auto simp: Valid_def ed25519_Verify_def ed25519_PublicKeySize_def split: option.split if_splits)

end
