(* ===== verification/Blocks.thy ===== *)
theory Blocks
  imports Transactions
begin

text \<open>
  The data model of package types: quorums (quorum.go), votes (vote.go), block headers and blocks
  (block.go, utils.go), proposals (proposal.go) and commit evidence (commit.go), together with the
  heap in which the blocks, quorums, block trees and block sets live that the components
  share by pointer.
\<close>

section \<open>Quorums and votes\<close>

datatype QuorumType = EmptyQuorum | SupportQuorum | AgainstQuorum | UnknownQuorum "8 word"

fun QuorumType_String :: "QuorumType \<Rightarrow> string" where
  "QuorumType_String EmptyQuorum = ''EmptyQuorum''"
| "QuorumType_String SupportQuorum = ''SupportQuorum''"
| "QuorumType_String AgainstQuorum = ''AgainstQuorum''"
| "QuorumType_String (UnknownQuorum _) = ''UnkownQuorum''"

record Quorum =
  q_SLot :: LTime
  q_BlockHash :: bytes
  q_Type :: QuorumType
  q_Signature :: bytes

definition NewQuorum :: Quorum where
  "NewQuorum = \<lparr>q_SLot = 0, q_BlockHash = [], q_Type = EmptyQuorum, q_Signature = []\<rparr>"

definition Quorum_IsEmpty :: "Quorum \<Rightarrow> bool" where
  "Quorum_IsEmpty q \<longleftrightarrow> q_Type q = EmptyQuorum"

text \<open>The copy has fresh byte slices of the same content.\<close>

definition Quorum_Copy :: "Quorum \<Rightarrow> Quorum" where
  "Quorum_Copy q = \<lparr>q_SLot = q_SLot q, q_BlockHash = q_BlockHash q, q_Type = q_Type q, q_Signature = q_Signature q\<rparr>"

datatype VoteType = SupportVote | AgainstVote | UnknownVote "8 word"

fun VoteType_String :: "VoteType \<Rightarrow> string" where
  "VoteType_String SupportVote = ''SupportVote''"
| "VoteType_String AgainstVote = ''AgainstVote''"
| "VoteType_String (UnknownVote _) = ''UnkownVote''"

text \<open>The size field of a vote and of a proposal, a float kept for logging only, is left out.\<close>

record Vote =
  v_Slot :: LTime
  v_BlockHash :: bytes
  v_Type :: VoteType
  v_Timestamp :: Time
  ValidatorAddress :: Address
  ValidatorIndex :: int32
  v_Signature :: bytes
  v_SendTime :: Time
  v_Round :: int64
  v_From :: int64
  v_ReceiveTime :: Time

text \<open>\<open>Equal\<close> on two vote pointers, either of which may be nil.\<close>

definition Vote_Equal :: "Vote option \<Rightarrow> Vote option \<Rightarrow> bool" where
  "Vote_Equal v other = (case (v, other) of
      (Some v, Some other) \<Rightarrow> Equal (v_Slot v) (v_Slot other) \<and> ValidatorAddress v = ValidatorAddress other
    | _ \<Rightarrow> False)"

definition VoteSignBytes :: "('s, 'g) Crypto \<Rightarrow> string \<Rightarrow> Vote \<Rightarrow> bytes" where
  "VoteSignBytes e chainID vote = merkleRoot e
     [chainID, LTime_Hash (v_Slot vote), VoteType_String (v_Type vote), ValidatorAddress vote, v_BlockHash vote]"

section \<open>Blocks\<close>

datatype BlockState = DefaultBlock | ProposalBlock | ErrorBlock | SuspectBlock | PrecommitBlock
  | CommittedBlock | UnknownBlock "8 word"

fun BlockState_String :: "BlockState \<Rightarrow> string" where
  "BlockState_String DefaultBlock = ''DefaultBlock''"
| "BlockState_String ProposalBlock = ''ProposalBlock''"
| "BlockState_String ErrorBlock = ''ErrorBlock''"
| "BlockState_String SuspectBlock = ''SuspectBlock''"
| "BlockState_String PrecommitBlock = ''PrecommitBlock''"
| "BlockState_String CommittedBlock = ''CommittedBlock''"
| "BlockState_String (UnknownBlock _) = ''UnkownTypeBlock''"

text \<open>
  The evidence that lets a block commit. The quorum and the witness are pointers; \<open>Commit\<close>
  values themselves are reached through one block only.
\<close>

datatype Commit = Commit (ParentCommit: "Commit option") (LocalQuorum: "addr option") (Witness: "addr option")

record Header =
  ChainID :: string
  Slot :: LTime
  SlotStartTime :: Time
  BlockState :: BlockState
  ProposalTime :: Time
  LastBlockHash :: bytes
  TxsHash :: "bytes option"
  ValidatorAddr :: Address
  ValidatorsHash :: bytes
  ResultHash :: bytes
  BlockHash :: "bytes option"
  Signature :: "bytes option"
  BlockPrecommitTime :: int64
  BlockCommitTime :: int64
  TimePrecommit :: int64
  TimeCommit :: int64
  TimeConsensus :: int64

text \<open>
  A block embeds its header and its data (\<open>Txs\<close> and the cached \<open>data_hash\<close>); the record
  extends the header's, as the Go struct does. A nil list of evidences is the empty list: the
  code only ranges over it.
\<close>

record Block = Header +
  Txs :: "Tx list"
  data_hash :: "bytes option"
  VoteQuorum :: Quorum
  Evidences :: "Quorum list"
  Block_Commit :: "Commit option"

definition UnixNano :: "Time \<Rightarrow> int64" where
  "UnixNano t = word_of_int t"

definition ValidteBasic :: "Block \<Rightarrow> string option" where
  "ValidteBasic block =
    (if BlockState block = ErrorBlock then Some ''block state is error''
     else if bytes_of (BlockHash block) = [] then Some ''block had no blockhash''
     else if bytes_of (Signature block) = [] then Some ''block had no signature''
     else None)"

definition Data_Hash :: "('s, 'g) Crypto \<Rightarrow> Block \<Rightarrow> Block \<times> bytes" where
  "Data_Hash e b = (case data_hash b of
      Some x \<Rightarrow> (b, x)
    | None \<Rightarrow> let x = Txs_Hash e (Txs b) in (b\<lparr>data_hash := Some x\<rparr>, x))"

definition fillHeader :: "('s, 'g) Crypto \<Rightarrow> Block \<Rightarrow> Block" where
  "fillHeader e b = (case TxsHash b of
      Some _ \<Rightarrow> b
    | None \<Rightarrow> let (b', x) = Data_Hash e b in b'\<lparr>TxsHash := Some x\<rparr>)"

definition Header_Hash :: "('s, 'g) Crypto \<Rightarrow> ('x Header_scheme) \<Rightarrow> ('x Header_scheme) \<times> bytes" where
  "Header_Hash e h = (case BlockHash h of
      Some x \<Rightarrow> (h, x)
    | None \<Rightarrow> let x = merkleRoot e [ChainID h, LTime_Hash (Slot h), LastBlockHash h,
                                    bytes_of (TxsHash h), ValidatorsHash h]
              in (h\<lparr>BlockHash := Some x\<rparr>, x))"

definition Block_Hash :: "('s, 'g) Crypto \<Rightarrow> Block \<Rightarrow> Block \<times> bytes" where
  "Block_Hash e b = Header_Hash e (fillHeader e b)"

definition Fill :: "string \<Rightarrow> LTime \<Rightarrow> BlockState \<Rightarrow> bytes \<Rightarrow> bytes \<Rightarrow> bytes \<Rightarrow> Time
    \<Rightarrow> ('x Header_scheme) \<Rightarrow> ('x Header_scheme)" where
  "Fill chainID slot state lastBlockHash validatorAddr validatorsHash slotStartTime h =
     h\<lparr>ChainID := chainID, Slot := slot, BlockState := state, LastBlockHash := lastBlockHash,
       ValidatorAddr := validatorAddr, ValidatorsHash := validatorsHash, SlotStartTime := slotStartTime\<rparr>"

definition CalculateTime :: "('x Header_scheme) \<Rightarrow> ('x Header_scheme)" where
  "CalculateTime h = h\<lparr>TimePrecommit := BlockPrecommitTime h - UnixNano (ProposalTime h),
     TimeCommit := BlockCommitTime h - BlockPrecommitTime h,
     TimeConsensus := BlockCommitTime h - UnixNano (ProposalTime h)\<rparr>"

definition BlockProposalTime_label :: string where "BlockProposalTime_label = ''proposal_time''"
definition BlockPrecommitTime_label :: string where "BlockPrecommitTime_label = ''precommit_time''"
definition BlockCommitTime_label :: string where "BlockCommitTime_label = ''commit_time''"

definition MarkTime :: "string \<Rightarrow> int64 \<Rightarrow> ('x Header_scheme) \<Rightarrow> ('x Header_scheme)" where
  "MarkTime s t h = (if s = BlockCommitTime_label then h\<lparr>BlockCommitTime := t\<rparr>
     else if s = BlockPrecommitTime_label then h\<lparr>BlockPrecommitTime := t\<rparr> else h)"

section \<open>Constructors\<close>

text \<open>The zero value of \<open>Block\<close>; \<open>zeroTime\<close> is the zero \<open>time.Time\<close>, January 1 of year 1.\<close>

definition zeroTime :: Time where
  "zeroTime = -62135596800000000000"

definition zeroBlock :: Block where
  "zeroBlock = \<lparr>ChainID = [], Slot = 0, SlotStartTime = zeroTime, BlockState = DefaultBlock,
     ProposalTime = zeroTime, LastBlockHash = [], TxsHash = None, ValidatorAddr = [], ValidatorsHash = [],
     ResultHash = [], BlockHash = None, Signature = None, BlockPrecommitTime = 0, BlockCommitTime = 0,
     TimePrecommit = 0, TimeCommit = 0, TimeConsensus = 0,
     Txs = [], data_hash = None, VoteQuorum = NewQuorum, Evidences = [], Block_Commit = None\<rparr>"

definition MakeGenesisBlock :: "string \<Rightarrow> Time \<Rightarrow> Block" where
  "MakeGenesisBlock chainID genesisTime = zeroBlock\<lparr>ChainID := chainID, Slot := LtimeZero,
     ProposalTime := genesisTime, BlockState := CommittedBlock\<rparr>"

definition MakeBlock :: "Tx list \<Rightarrow> Time \<Rightarrow> Block" where
  "MakeBlock txs now = zeroBlock\<lparr>ProposalTime := now, Txs := txs\<rparr>"

text \<open>A proposal points to its block.\<close>

record Proposal =
  p_Block :: addr
  p_SendTime :: Time
  p_Round :: int64
  p_From :: int64
  p_ReceiveTime :: Time

definition zeroProposal :: "addr \<Rightarrow> Proposal" where
  "zeroProposal a = \<lparr>p_Block = a, p_SendTime = zeroTime, p_Round = 0, p_From = 0, p_ReceiveTime = zeroTime\<rparr>"

section \<open>The heap\<close>

text \<open>
  Tree nodes are numbered in the order \<open>AddBlocks\<close> creates them; a number is a \<open>*treeNode\<close>.
  \<open>bt_root\<close> may be nil in a zero \<open>BlockTree\<close>.
\<close>

record treeNode =
  tn_parent :: "nat option"
  tn_children :: "nat list"
  tn_data :: addr

record BlockTree =
  bt_nodes :: "treeNode list"
  bt_size :: int64
  bt_root :: "nat option"
  bt_lastNode :: nat

record BlockSet =
  bs_blocks :: "addr list"

text \<open>
  One store per type of shared object. The counters give the next free address of each.
\<close>

record Heap =
  blocks :: "addr \<Rightarrow> Block"
  blocksNext :: addr
  quorums :: "addr \<Rightarrow> Quorum"
  quorumsNext :: addr
  trees :: "addr \<Rightarrow> BlockTree"
  treesNext :: addr
  sets :: "addr \<Rightarrow> BlockSet"
  setsNext :: addr

definition putBlock :: "addr \<Rightarrow> Block \<Rightarrow> Heap \<Rightarrow> Heap" where
  "putBlock a b h = h\<lparr>blocks := (blocks h)(a := b)\<rparr>"

definition putQuorum :: "addr \<Rightarrow> Quorum \<Rightarrow> Heap \<Rightarrow> Heap" where
  "putQuorum a q h = h\<lparr>quorums := (quorums h)(a := q)\<rparr>"

definition putTree :: "addr \<Rightarrow> BlockTree \<Rightarrow> Heap \<Rightarrow> Heap" where
  "putTree a t h = h\<lparr>trees := (trees h)(a := t)\<rparr>"

definition putSet :: "addr \<Rightarrow> BlockSet \<Rightarrow> Heap \<Rightarrow> Heap" where
  "putSet a s h = h\<lparr>sets := (sets h)(a := s)\<rparr>"

text \<open>In-place update of the block a pointer refers to.\<close>

definition updBlock :: "addr \<Rightarrow> (Block \<Rightarrow> Block) \<Rightarrow> Heap \<Rightarrow> Heap" where
  "updBlock a f h = putBlock a (f (blocks h a)) h"

definition newBlock :: "Block \<Rightarrow> Heap \<Rightarrow> addr \<times> Heap" where
  "newBlock b h = (blocksNext h, (putBlock (blocksNext h) b h)\<lparr>blocksNext := Suc (blocksNext h)\<rparr>)"

definition newQuorum :: "Quorum \<Rightarrow> Heap \<Rightarrow> addr \<times> Heap" where
  "newQuorum q h = (quorumsNext h, (putQuorum (quorumsNext h) q h)\<lparr>quorumsNext := Suc (quorumsNext h)\<rparr>)"

definition newTree :: "BlockTree \<Rightarrow> Heap \<Rightarrow> addr \<times> Heap" where
  "newTree t h = (treesNext h, (putTree (treesNext h) t h)\<lparr>treesNext := Suc (treesNext h)\<rparr>)"

definition newSet :: "BlockSet \<Rightarrow> Heap \<Rightarrow> addr \<times> Heap" where
  "newSet s h = (setsNext h, (putSet (setsNext h) s h)\<lparr>setsNext := Suc (setsNext h)\<rparr>)"

definition emptyHeap :: Heap where
  "emptyHeap = \<lparr>blocks = (\<lambda>_. zeroBlock), blocksNext = 0, quorums = (\<lambda>_. NewQuorum), quorumsNext = 0,
     trees = (\<lambda>_. \<lparr>bt_nodes = [], bt_size = 0, bt_root = None, bt_lastNode = 0\<rparr>), treesNext = 0,
     sets = (\<lambda>_. \<lparr>bs_blocks = []\<rparr>), setsNext = 0\<rparr>"

text \<open>\<open>Hash\<close> called on a block in the heap fills in the cached hashes.\<close>

definition hashBlock :: "('s, 'g) Crypto \<Rightarrow> addr \<Rightarrow> Heap \<Rightarrow> Heap \<times> bytes" where
  "hashBlock e a h = (let (b, x) = Block_Hash e (blocks h a) in (putBlock a b h, x))"

definition ProposalSignBytes :: "('s, 'g) Crypto \<Rightarrow> string \<Rightarrow> Proposal \<Rightarrow> Heap \<Rightarrow> Heap \<times> bytes" where
  "ProposalSignBytes e chainID p h = hashBlock e (p_Block p) h"

definition MakeEmptyProposal :: "Heap \<Rightarrow> Proposal \<times> Heap" where
  "MakeEmptyProposal h = (let (a, h') = newBlock zeroBlock h in (zeroProposal a, h'))"

section \<open>Commit evidence\<close>

definition SetParentCommit :: "Commit option \<Rightarrow> Commit \<Rightarrow> Commit" where
  "SetParentCommit pc c = Commit pc (LocalQuorum c) (Witness c)"

definition SetQuorum :: "addr option \<Rightarrow> Commit \<Rightarrow> Commit" where
  "SetQuorum q c = Commit (ParentCommit c) q (Witness c)"

definition SetWitness :: "addr option \<Rightarrow> Commit \<Rightarrow> Commit" where
  "SetWitness w c = Commit (ParentCommit c) (LocalQuorum c) w"

definition IsReady :: "Heap \<Rightarrow> Commit \<Rightarrow> bool res" where
  "IsReady h c =
    (let root = (case ParentCommit c of Some p \<Rightarrow> p | None \<Rightarrow> c) in
     if LocalQuorum root = None \<and> Witness root = None then Inr False
     else rbind (deref (LocalQuorum root)) (\<lambda>q.
       if q_Type (quorums h q) \<noteq> SupportQuorum then Inr False
       else rbind (deref (Witness root)) (\<lambda>w.
         Inr (BlockState (blocks h w) = PrecommitBlock \<or> BlockState (blocks h w) = CommittedBlock))))"

section \<open>Lemmas\<close>

interpretation block_cells: cell_store blocks putBlock
  by unfold_locales (simp_all add: putBlock_def)

interpretation quorum_cells: cell_store quorums putQuorum
  by unfold_locales (simp_all add: putQuorum_def)

interpretation tree_cells: cell_store trees putTree
  by unfold_locales (simp_all add: putTree_def)

interpretation set_cells: cell_store sets putSet
  by unfold_locales (simp_all add: putSet_def)

lemmas cells [simp] =
  block_cells.get_put_if quorum_cells.get_put_if tree_cells.get_put_if set_cells.get_put_if

text \<open>A write to one store leaves the others alone.\<close>

lemma put_frame [simp]:
  "quorums (putBlock a b h) = quorums h" "trees (putBlock a b h) = trees h" "sets (putBlock a b h) = sets h"
  "blocks (putQuorum a q h) = blocks h" "trees (putQuorum a q h) = trees h" "sets (putQuorum a q h) = sets h"
  "blocks (putTree a t h) = blocks h" "quorums (putTree a t h) = quorums h" "sets (putTree a t h) = sets h"
  "blocks (putSet a s h) = blocks h" "quorums (putSet a s h) = quorums h" "trees (putSet a s h) = trees h"
  by (simp_all add: putBlock_def putQuorum_def putTree_def putSet_def)

lemma put_next [simp]:
  "blocksNext (putBlock a b h) = blocksNext h" "quorumsNext (putBlock a b h) = quorumsNext h"
  "blocksNext (putQuorum a q h) = blocksNext h" "quorumsNext (putQuorum a q h) = quorumsNext h"
  "blocksNext (putTree a t h) = blocksNext h" "quorumsNext (putTree a t h) = quorumsNext h"
  "blocksNext (putSet a s h) = blocksNext h" "quorumsNext (putSet a s h) = quorumsNext h"
  by (simp_all add: putBlock_def putQuorum_def putTree_def putSet_def)

lemma updBlock_frame [simp]:
  "quorums (updBlock a f h) = quorums h" "trees (updBlock a f h) = trees h" "sets (updBlock a f h) = sets h"
  "blocksNext (updBlock a f h) = blocksNext h" "quorumsNext (updBlock a f h) = quorumsNext h"
  by (simp_all add: updBlock_def)

lemma blocks_updBlock [simp]: "blocks (updBlock a f h) b = (if a = b then f (blocks h a) else blocks h b)"
  by (simp add: updBlock_def)

text \<open>\<open>Hash\<close> is idempotent: it fills the caches once and answers the same from then on.\<close>

lemma Block_Hash_idem: "Block_Hash e b = (b', x) \<Longrightarrow> Block_Hash e b' = (b', x)"
  by (auto simp: Block_Hash_def Header_Hash_def fillHeader_def Data_Hash_def Let_def
      split: option.splits prod.splits)

lemma Block_Hash_cached: "BlockHash b = Some x \<Longrightarrow> snd (Block_Hash e b) = x"
  by (auto simp: Block_Hash_def Header_Hash_def fillHeader_def Data_Hash_def Let_def split: option.split)

text \<open>What \<open>Hash\<close> never touches.\<close>

lemma Block_Hash_frame [simp]:
  "Slot (fst (Block_Hash e b)) = Slot b"
  "BlockState (fst (Block_Hash e b)) = BlockState b"
  "LastBlockHash (fst (Block_Hash e b)) = LastBlockHash b"
  "Block_Commit (fst (Block_Hash e b)) = Block_Commit b"
  "Evidences (fst (Block_Hash e b)) = Evidences b"
  "Txs (fst (Block_Hash e b)) = Txs b"
  "VoteQuorum (fst (Block_Hash e b)) = VoteQuorum b"
  "ValidatorAddr (fst (Block_Hash e b)) = ValidatorAddr b"
  "ValidatorsHash (fst (Block_Hash e b)) = ValidatorsHash b"
  "Signature (fst (Block_Hash e b)) = Signature b"
  by (auto simp: Block_Hash_def Header_Hash_def fillHeader_def Data_Hash_def Let_def split: option.split)

lemma BlockHash_Block_Hash: "BlockHash (fst (Block_Hash e b)) = Some (snd (Block_Hash e b))"
  by (auto simp: Block_Hash_def Header_Hash_def Let_def split: option.split)

lemma hashBlock_frame [simp]:
  "trees (fst (hashBlock e a h)) = trees h" "sets (fst (hashBlock e a h)) = sets h"
  "quorums (fst (hashBlock e a h)) = quorums h" "blocksNext (fst (hashBlock e a h)) = blocksNext h"
  "quorumsNext (fst (hashBlock e a h)) = quorumsNext h"
  by (simp_all add: hashBlock_def split: prod.split)

lemma blocks_hashBlock:
  "blocks (fst (hashBlock e a h)) b = (if a = b then fst (Block_Hash e (blocks h a)) else blocks h b)"
  by (simp add: hashBlock_def split: prod.split)

lemma snd_hashBlock [simp]: "snd (hashBlock e a h) = snd (Block_Hash e (blocks h a))"
  by (simp add: hashBlock_def split: prod.split)

lemma hashBlock_keeps [simp]:
  "Slot (blocks (fst (hashBlock e a h)) b) = Slot (blocks h b)"
  "BlockState (blocks (fst (hashBlock e a h)) b) = BlockState (blocks h b)"
  "LastBlockHash (blocks (fst (hashBlock e a h)) b) = LastBlockHash (blocks h b)"
  "Block_Commit (blocks (fst (hashBlock e a h)) b) = Block_Commit (blocks h b)"
  "Evidences (blocks (fst (hashBlock e a h)) b) = Evidences (blocks h b)"
  by (simp_all add: blocks_hashBlock)

lemma Quorum_Copy_id [simp]: "Quorum_Copy q = q"
  by (simp add: Quorum_Copy_def)

lemma IsReady_total: "(LocalQuorum c = None \<longleftrightarrow> Witness c = None) \<Longrightarrow> ParentCommit c = None \<Longrightarrow> \<exists>b. IsReady h c = Inr b"
  by (cases c) (auto simp: IsReady_def Let_def)

end
