(* ===== verification/Bls.thy ===== *)
theory Bls
  imports Env
begin

text \<open>
  The BLS keys of crypto/bls/bls.go, over the pairing suite and the signature scheme of kyber, which are
  parameters.
\<close>

section \<open>Model\<close>

text \<open>
  What bls.go uses of kyber beyond the scalars and \<open>G1\<close>: \<open>p2Mul\<close> multiplies the base point of
  \<open>G2\<close>, \<open>blsSign\<close> and \<open>blsVerify\<close> are \<open>bls.Sign\<close> and \<open>bls.Verify\<close>, \<open>sumTruncated\<close> is
  tendermint's 20-byte digest. \<open>keyStream seed i\<close> is the private key that the \<open>i\<close>-th call of
  \<open>bls.NewKeyPair\<close> draws from a stream started by \<open>random.New(rand.New(rand.NewSource(seed)))\<close>:
  such a stream is a function of its seed.
\<close>

record ('s, 'g, 'p) Kyber = "('s, 'g) Suite" +
  keyStream :: "int64 \<Rightarrow> nat \<Rightarrow> 's"
  blsSign :: "'s \<Rightarrow> bytes \<Rightarrow> bytes option"
  blsVerify :: "'p \<Rightarrow> bytes \<Rightarrow> bytes \<Rightarrow> bool"
  p2Mul :: "'s \<Rightarrow> 'p"
  p2Marshal :: "'p \<Rightarrow> bytes option"
  p2Unmarshal :: "bytes \<Rightarrow> 'p option"
  sumTruncated :: "bytes \<Rightarrow> bytes"

datatype blsErr = ErrWrongBLSPriv | ErrSignFailed

definition PrivKey_Sign :: "('s, 'g, 'p) Kyber \<Rightarrow> PrivKey \<Rightarrow> bytes \<Rightarrow> blsErr + bytes" where
  "PrivKey_Sign K privKey msg = (case scUnmarshal K privKey of
      None \<Rightarrow> Inl ErrWrongBLSPriv
    | Some priv \<Rightarrow> (case blsSign K priv msg of None \<Rightarrow> Inl ErrSignFailed | Some sig \<Rightarrow> Inr sig))"

text \<open>The result is an interface value, nil when the key does not decode.\<close>

definition PrivKey_PubKey :: "('s, 'g, 'p) Kyber \<Rightarrow> PrivKey \<Rightarrow> PubKey option" where
  "PrivKey_PubKey K privKey = (case scUnmarshal K privKey of
      None \<Rightarrow> None
    | Some priv \<Rightarrow> Some (bytes_of (p2Marshal K (p2Mul K priv))))"

definition ToKyber :: "('s, 'g, 'p) Kyber \<Rightarrow> PrivKey \<Rightarrow> 's option" where
  "ToKyber K privKey = scUnmarshal K privKey"

definition Kyber2PrivKey :: "('s, 'g, 'p) Kyber \<Rightarrow> 's \<Rightarrow> PrivKey" where
  "Kyber2PrivKey K x = scMarshal K x"

definition GenPrivKeyWithSeed :: "('s, 'g, 'p) Kyber \<Rightarrow> int64 \<Rightarrow> PrivKey" where
  "GenPrivKeyWithSeed K seed = scMarshal K (keyStream K seed 0)"

definition PubKey_Address :: "('s, 'g, 'p) Kyber \<Rightarrow> PubKey \<Rightarrow> Address" where
  "PubKey_Address K pubKey = sumTruncated K pubKey"

definition VerifySignature :: "('s, 'g, 'p) Kyber \<Rightarrow> PubKey \<Rightarrow> bytes \<Rightarrow> bytes \<Rightarrow> bool" where
  "VerifySignature K pubKey msg sig =
     (if length sig = 0 then False
      else (case p2Unmarshal K pubKey of None \<Rightarrow> False | Some pub \<Rightarrow> blsVerify K pub msg sig))"

definition PubKey_Equals :: "PubKey \<Rightarrow> PubKey \<Rightarrow> bool" where
  "PubKey_Equals pubKey other \<longleftrightarrow> pubKey = other"

definition GenPrimaryKeyWithSeed :: "('s, 'g, 'p) Kyber \<Rightarrow> int64 \<Rightarrow> PubKey option" where
  "GenPrimaryKeyWithSeed K seed = PrivKey_PubKey K (GenPrivKeyWithSeed K seed)"

section \<open>Signatures verify\<close>

text \<open>
  What kyber documents: encoding and decoding are inverse, encoded signatures are not empty, and a
  signature made with a private key verifies under its public key.
\<close>

definition bls_laws :: "('s, 'g, 'p) Kyber \<Rightarrow> bool" where
  "bls_laws K \<longleftrightarrow> (\<forall>s. scUnmarshal K (scMarshal K s) = Some s)
     \<and> (\<forall>p. \<exists>b. p2Marshal K p = Some b \<and> p2Unmarshal K b = Some p)
     \<and> (\<forall>s m sig. blsSign K s m = Some sig \<longrightarrow> sig \<noteq> [] \<and> blsVerify K (p2Mul K s) m sig)"

lemma sign_verify:
  assumes "bls_laws K" "PrivKey_Sign K priv msg = Inr sig" "PrivKey_PubKey K priv = Some pub"
  shows "VerifySignature K pub msg sig"
proof -
  obtain s where s: "scUnmarshal K priv = Some s" "blsSign K s msg = Some sig" "pub = bytes_of (p2Marshal K (p2Mul K s))"
    using assms(2,3) by (auto simp: PrivKey_Sign_def PrivKey_PubKey_def split: option.splits)
  moreover obtain b where "p2Marshal K (p2Mul K s) = Some b" "p2Unmarshal K b = Some (p2Mul K s)"
    using assms(1) unfolding bls_laws_def by blast
  ultimately show ?thesis using assms(1) by (auto simp: VerifySignature_def bls_laws_def)
qed

end
