(* ===== verification/Lagrange.thy ===== *)
theory Lagrange
  imports Main
begin

text \<open>
  Interpolation at zero over an arbitrary field: the weights \<open>a / b\<^sub>i\<close> of the signature recovery
  reproduce the value at zero of every polynomial with fewer coefficients than there are points.
\<close>

section \<open>Divided differences of powers\<close>

definition ddiff :: "nat \<Rightarrow> 'a :: field set \<Rightarrow> 'a" where
  "ddiff k X = (\<Sum>x\<in>X. x ^ k / (\<Prod>y\<in>X - {x}. y - x))"

lemma cancel_factor: "d \<noteq> 0 \<Longrightarrow> c * - d / (d * p) = - (c / p :: 'a :: field)"
  by simp

lemma ddiff_step:
  assumes X: "finite X" and v: "v \<in> X"
  shows "ddiff (Suc k) X = v * ddiff k X - ddiff k (X - {v})"
proof -
  have drop: "x ^ k * (x - v) / (\<Prod>y\<in>X - {x}. y - x) = - (x ^ k / (\<Prod>y\<in>X - {v} - {x}. y - x))" if x: "x \<in> X - {v}" for x
  proof -
    have "(\<Prod>y\<in>X - {x}. y - x) = (v - x) * (\<Prod>y\<in>X - {x} - {v}. y - x)"
      using x v X by (intro prod.remove) auto
    moreover have "X - {x} - {v} = X - {v} - {x}" by blast
    moreover have "v - x \<noteq> 0" "x - v = - (v - x)" using x by auto
    ultimately show ?thesis using cancel_factor by metis
  qed
  have "ddiff (Suc k) X - v * ddiff k X = (\<Sum>x\<in>X. x ^ k * (x - v) / (\<Prod>y\<in>X - {x}. y - x))"
    by (simp add: ddiff_def sum_distrib_left flip: sum_subtractf) (rule sum.cong, simp_all add: field_simps diff_divide_distrib)
  also have "\<dots> = (\<Sum>x\<in>X - {v}. x ^ k * (x - v) / (\<Prod>y\<in>X - {x}. y - x))"
    using X v by (simp add: sum.remove [of X v])
  also have "\<dots> = (\<Sum>x\<in>X - {v}. - (x ^ k / (\<Prod>y\<in>X - {v} - {x}. y - x)))"
    by (rule sum.cong) (simp_all only: drop)
  also have "\<dots> = - ddiff k (X - {v})" by (simp only: ddiff_def sum_negf)
  finally show ?thesis by (simp add: algebra_simps)
qed

text \<open>Below the number of points minus one they vanish; there they are one up to sign.\<close>

lemma ddiff_powers:
  assumes "finite X" "card X = Suc m"
  shows "(\<forall>k < m. ddiff k X = 0) \<and> ddiff m X = (-1) ^ m"
  using assms
proof (induction m arbitrary: X)
  case 0
  then obtain x where "X = {x}" by (auto simp: card_1_singleton_iff)
  then show ?case by (simp add: ddiff_def)
next
  case (Suc m)
  then obtain u v where uv: "u \<in> X" "v \<in> X" "u \<noteq> v"
    by (metis card_le_Suc0_iff_eq Suc_le_mono le_zero_eq nat.simps(3) order_refl)
  have IH: "w \<in> X \<Longrightarrow> (\<forall>k < m. ddiff k (X - {w}) = 0) \<and> ddiff m (X - {w}) = (-1) ^ m" for w
    using Suc.IH [of "X - {w}"] Suc.prems by simp
  have zero: "ddiff k X = 0" if "k \<le> m" for k
  proof -
    have "ddiff k (X - {u}) = ddiff k (X - {v})" using IH uv that by (metis le_neq_implies_less)
    moreover have "v * ddiff k X - ddiff k (X - {v}) = u * ddiff k X - ddiff k (X - {u})"
      using ddiff_step [OF Suc.prems(1)] uv by metis
    ultimately show ?thesis using uv(3) by (simp add: algebra_simps)
  qed
  have "ddiff (Suc m) X = (-1) ^ Suc m" using ddiff_step [OF Suc.prems(1) uv(2), of m] zero [of m] IH [OF uv(2)] by simp
  then show ?case using zero by (simp add: less_Suc_eq_le)
qed

section \<open>Weights\<close>

definition weight :: "'a :: field set \<Rightarrow> 'a \<Rightarrow> 'a" where
  "weight X x = (\<Prod>y\<in>X. y) / (x * (\<Prod>y\<in>X - {x}. y - x))"

lemma weight_sum_power:
  assumes X: "finite X" "0 \<notin> X" and k: "0 < k" "k < card X"
  shows "(\<Sum>x\<in>X. x ^ k * weight X x) = 0"
proof -
  obtain j where j: "k = Suc j" using k(1) by (cases k) auto
  obtain m where m: "card X = Suc m" "j < m" using j k(2) by (cases "card X") auto
  have "(\<Sum>x\<in>X. x ^ k * weight X x) = (\<Sum>x\<in>X. (\<Prod>y\<in>X. y) * (x ^ j / (\<Prod>y\<in>X - {x}. y - x)))"
    using X(2) by (intro sum.cong) (auto simp: weight_def j)
  also have "\<dots> = (\<Prod>y\<in>X. y) * ddiff j X" by (simp only: ddiff_def sum_distrib_left)
  finally show ?thesis using ddiff_powers [OF X(1) m(1)] m(2) by simp
qed

lemma weight_sum_one:
  assumes X: "finite X" "0 \<notin> X" "X \<noteq> {}"
  shows "(\<Sum>x\<in>X. weight X x) = 1"
proof -
  let ?p = "\<Prod>y\<in>X. y"
  have p: "?p \<noteq> 0" using X by simp
  obtain m where m: "card (insert 0 X) = Suc m" "0 < m" using X by (metis card_gt_0_iff card_insert_disjoint)
  have summand: "1 / (\<Prod>y\<in>insert 0 X - {x}. y - x) = - (weight X x / ?p)" if x: "x \<in> X" for x
  proof -
    have "x \<noteq> 0" using x X by auto
    then have "insert 0 X - {x} = insert 0 (X - {x})" by auto
    then have "(\<Prod>y\<in>insert 0 X - {x}. y - x) = - (x * (\<Prod>y\<in>X - {x}. y - x))" using X by simp
    then show ?thesis using p by (simp add: weight_def)
  qed
  have "ddiff 0 (insert 0 X) = 1 / ?p - (\<Sum>x\<in>X. weight X x / ?p)"
  proof -
    have "ddiff 0 (insert 0 X) = 1 / (\<Prod>y\<in>insert 0 X - {0}. y - 0) + (\<Sum>x\<in>X. 1 / (\<Prod>y\<in>insert 0 X - {x}. y - x))"
      using X by (simp add: ddiff_def)
    also have "(\<Sum>x\<in>X. 1 / (\<Prod>y\<in>insert 0 X - {x}. y - x)) = (\<Sum>x\<in>X. - (weight X x / ?p))"
      by (rule sum.cong) (simp_all only: summand)
    also have "insert 0 X - {0} = X" using X by auto
    finally show ?thesis by (simp add: sum_negf)
  qed
  moreover have "ddiff 0 (insert 0 X) = 0" using ddiff_powers [of "insert 0 X" m] m X(1) by simp
  ultimately have "(\<Sum>x\<in>X. weight X x / ?p) = 1 / ?p" by simp
  then show ?thesis using p by (simp add: sum_divide_distrib [symmetric])
qed

text \<open>Interpolation at zero.\<close>

lemma interpolate_zero:
  fixes a :: "nat \<Rightarrow> 'a :: field"
  assumes X: "finite X" "0 \<notin> X" and n: "0 < n" "n \<le> card X"
  shows "(\<Sum>x\<in>X. weight X x * (\<Sum>k<n. a k * x ^ k)) = a 0"
proof -
  have "(\<Sum>x\<in>X. weight X x * (\<Sum>k<n. a k * x ^ k)) = (\<Sum>k<n. a k * (\<Sum>x\<in>X. x ^ k * weight X x))"
    by (simp add: sum_distrib_left mult_ac sum.swap [of _ X])
  also have "\<dots> = (\<Sum>k<n. if k = 0 then a 0 else 0)"
  proof (rule sum.cong)
    fix k assume "k \<in> {..<n}"
    moreover have "X \<noteq> {}" using n by auto
    ultimately show "a k * (\<Sum>x\<in>X. x ^ k * weight X x) = (if k = 0 then a 0 else 0)"
      using weight_sum_power [OF X, of k] weight_sum_one [OF X] n by auto
  qed simp
  also have "\<dots> = a 0" using n by simp
  finally show ?thesis .
qed

end
