(* ===== verification/Threshold.thy ===== *)
theory Threshold
  imports Complex_Main Bls Lagrange
begin

text \<open>
  Shamir sharing of the cluster key and recovery of the cluster's signature from the validators'
  signatures: crypto/threshold/threshol\_signature.go.
\<close>

section \<open>Model\<close>

record 's Polynome =
  polys :: "'s list"
  poly_seed :: int64

text \<open>
  \<open>Master\<close> returns nil when the key does not decode. \<open>make\<close> panics for a negative length.
\<close>

definition Master :: "('s, 'g, 'p) Kyber \<Rightarrow> PrivKey \<Rightarrow> int64 \<Rightarrow> int64 \<Rightarrow> 's Polynome option res" where
  "Master K priv d seed = (case ToKyber K priv of
      None \<Rightarrow> Inr None
    | Some x \<Rightarrow>
        if sint (d + 1) < 0 then Inl (Panic ''makeslice: len out of range'')
        else if d + 1 = 0 then Inl BadIndex
        else Inr (Some \<lparr>polys = x # map (keyStream K seed) [0..<nat (sint d)], poly_seed = seed\<rparr>))"

fun getValue_loop :: "('s, 'g, 'x) Suite_scheme \<Rightarrow> 's \<Rightarrow> 's list \<Rightarrow> 's \<Rightarrow> 's \<Rightarrow> 's" where
  "getValue_loop S idxScalar [] base res = res"
| "getValue_loop S idxScalar (a # ps) base res =
     (let base' = scMul S base idxScalar;
          tmp = scMul S a base'
      in getValue_loop S idxScalar ps base' (scAdd S res tmp))"

datatype thrErr = ErrZeroIdx | ErrLengthMismatch | ErrNoSignature | ErrTooFew | ErrBadSignature nat
  | ErrSameId int64 int64 | ErrMarshal

definition getValue :: "('s, 'g, 'p) Kyber \<Rightarrow> 's Polynome \<Rightarrow> int64 \<Rightarrow> PrivKey res" where
  "getValue K p idx = rbind (index (polys p) 0) (\<lambda>p0.
     Inr (Kyber2PrivKey K (getValue_loop K (scSetInt64 K idx) (drop 1 (polys p)) (scOne K) p0)))"

definition GetValue :: "('s, 'g, 'p) Kyber \<Rightarrow> 's Polynome \<Rightarrow> int64 \<Rightarrow> (thrErr + PrivKey) res" where
  "GetValue K p idx = (if idx = 0 then Inr (Inl ErrZeroIdx) else rbind (getValue K p idx) (\<lambda>v. Inr (Inr v)))"

text \<open>The product \<open>b\<^sub>i\<close>, over the indices \<open>js\<close> still to visit.\<close>

fun b_loop :: "('s, 'g, 'x) Suite_scheme \<Rightarrow> int64 list \<Rightarrow> nat \<Rightarrow> nat list \<Rightarrow> 's \<Rightarrow> thrErr + 's" where
  "b_loop S xs i [] b = Inr b"
| "b_loop S xs i (j # js) b =
     (if i = j then b_loop S xs i js b
      else if xs ! j = xs ! i then Inl (ErrSameId (xs ! i) (xs ! j))
      else b_loop S xs i js (scMul S b (scSetInt64 S (xs ! j - xs ! i))))"

fun recovery_loop :: "('s, 'g, 'x) Suite_scheme \<Rightarrow> int64 list \<Rightarrow> nat \<Rightarrow> 's \<Rightarrow> nat \<Rightarrow> bytes list \<Rightarrow> 'g \<Rightarrow> thrErr + 'g" where
  "recovery_loop S xs lens a i [] res = Inr res"
| "recovery_loop S xs lens a i (y # ys) res = (case ptUnmarshal S y of
      None \<Rightarrow> Inl (ErrBadSignature (Suc i))
    | Some tmpRes \<Rightarrow>
        rbind (b_loop S xs i [0..<lens] (scSetInt64 S (xs ! i))) (\<lambda>b.
        recovery_loop S xs lens a (Suc i) ys (ptAdd S res (ptMul S (scDiv S a b) tmpRes))))"

text \<open>
  \<open>recovery\<close> is called with as many ids as signatures only, so its indexing stays in range.
\<close>

definition recovery :: "('s, 'g, 'x) Suite_scheme \<Rightarrow> bytes list \<Rightarrow> int64 list \<Rightarrow> thrErr + bytes" where
  "recovery S ys xs =
     (let lens = length ys;
          a = foldl (\<lambda>a x. scMul S a (scSetInt64 S x)) (scOne S) xs
      in rbind (recovery_loop S xs lens a 0 ys (ptNew S)) (\<lambda>res.
         case ptMarshal S res of None \<Rightarrow> Inl ErrMarshal | Some data \<Rightarrow> Inr data))"

definition SignatureRecovery :: "('s, 'g, 'x) Suite_scheme \<Rightarrow> int64 \<Rightarrow> bytes list \<Rightarrow> int64 list \<Rightarrow> thrErr + bytes" where
  "SignatureRecovery S thr sigs ids =
     (if length ids \<noteq> length sigs then Inl ErrLengthMismatch
      else if length ids = 0 \<or> length sigs = 0 then Inl ErrNoSignature
      else if int (length sigs) < sint thr then Inl ErrTooFew
      else if length sigs = 1 then Inr (sigs ! 0)
      else recovery S sigs ids)"

section \<open>The laws of the suite\<close>

text \<open>
  The scalars are a field and \<open>SetInt64\<close> maps an integer into it; the multiples of a point \<open>H\<close>
  add and multiply as their scalars do, and a fresh point is the neutral element.
\<close>

definition scalar_laws :: "('s :: field, 'g, 'x) Suite_scheme \<Rightarrow> bool" where
  "scalar_laws S \<longleftrightarrow> scOne S = 1 \<and> (\<forall>a b. scMul S a b = a * b) \<and> (\<forall>a b. scAdd S a b = a + b)
     \<and> (\<forall>a b. scDiv S a b = a / b) \<and> (\<forall>w. scSetInt64 S w = of_int (sint w))"

definition point_laws :: "('s :: field, 'g, 'x) Suite_scheme \<Rightarrow> 'g \<Rightarrow> bool" where
  "point_laws S H \<longleftrightarrow> ptNew S = ptMul S 0 H \<and> (\<forall>a b. ptAdd S (ptMul S a H) (ptMul S b H) = ptMul S (a + b) H)
     \<and> (\<forall>a b. ptMul S a (ptMul S b H) = ptMul S (a * b) H)"

definition poly_eval :: "'s :: field list \<Rightarrow> 's \<Rightarrow> 's" where
  "poly_eval cs x = (\<Sum>k<length cs. cs ! k * x ^ k)"

definition idv :: "int64 \<Rightarrow> 's :: field" where
  "idv x = of_int (sint x)"

lemma scalar_lawsD:
  assumes "scalar_laws S"
  shows "scOne S = 1" "scMul S a b = a * b" "scAdd S a b = a + b" "scDiv S a b = a / b" "scSetInt64 S w = idv w"
  using assms unfolding scalar_laws_def idv_def by blast+

section \<open>Shares are values of the polynomial\<close>

lemma poly_eval_Cons: "poly_eval (c # cs) x = c + x * poly_eval cs x"
  by (simp add: poly_eval_def lessThan_Suc_eq_insert_0 sum.reindex sum_distrib_left mult_ac o_def del: sum.lessThan_Suc)

lemma getValue_loop_eval:
  assumes "scalar_laws S"
  shows "getValue_loop S x ps base res = res + base * x * poly_eval ps x"
  using assms
proof (induction ps arbitrary: base res)
  case Nil
  then show ?case by (simp add: poly_eval_def)
next
  case (Cons a ps)
  then show ?case by (simp add: poly_eval_Cons scalar_lawsD algebra_simps)
qed

lemma getValue_eval:
  assumes "scalar_laws K" "polys p \<noteq> []"
  shows "getValue K p idx = Inr (scMarshal K (poly_eval (polys p) (idv idx)))"
proof -
  obtain c cs where p: "polys p = c # cs" using assms(2) by (cases "polys p") auto
  then show ?thesis using assms(1) getValue_loop_eval [OF assms(1)]
    by (simp add: getValue_def index_def Kyber2PrivKey_def poly_eval_Cons scalar_lawsD)
qed

section \<open>Recovery\<close>

lemma b_loop_prod:
  assumes S: "scalar_laws S" and d: "distinct xs" "i < length xs" "set js \<subseteq> {..<length xs}"
    and r: "\<And>x. x \<in> set xs \<Longrightarrow> 0 < sint x \<and> sint x < 2 ^ 62"
  shows "b_loop S xs i js b = Inr (b * (\<Prod>j\<leftarrow>filter (\<lambda>j. j \<noteq> i) js. idv (xs ! j) - idv (xs ! i)))"
  using d(3)
proof (induction js arbitrary: b)
  case (Cons j js)
  then have j: "j < length xs" by simp
  have "sint (xs ! j - xs ! i) = sint (xs ! j) - sint (xs ! i)"
  proof -
    have "xs ! j - xs ! i = word_of_int (sint (xs ! j) - sint (xs ! i))" by simp
    then show ?thesis using r [of "xs ! i"] r [of "xs ! j"] j d(2)
      using sint_word_of_int_64 [of "sint (xs ! j) - sint (xs ! i)"] by simp
  qed
  then have "idv (xs ! j - xs ! i) = (idv (xs ! j) - idv (xs ! i) :: 'a)"
    unfolding idv_def by (simp only: of_int_diff)
  then show ?case using Cons j d(1,2) scalar_lawsD [OF S] by (cases "i = j") (simp_all add: nth_eq_iff_index_eq mult.assoc)
qed simp

text \<open>The code's product over the other indices is the product over the other points.\<close>

lemma prod_other_indices:
  assumes "distinct xs" "i < length xs" "inj_on (idv :: int64 \<Rightarrow> 'a) (set xs)"
  shows "(\<Prod>j\<leftarrow>filter (\<lambda>j. j \<noteq> i) [0..<length xs]. idv (xs ! j) - idv (xs ! i)) =
     (\<Prod>y\<in>idv ` set xs - {idv (xs ! i)}. y - (idv (xs ! i) :: 'a :: field))"
proof -
  have "(\<Prod>j\<leftarrow>filter (\<lambda>j. j \<noteq> i) [0..<length xs]. idv (xs ! j) - idv (xs ! i) :: 'a) =
      (\<Prod>j\<in>{..<length xs} - {i}. idv (xs ! j) - idv (xs ! i))"
    by (subst prod.distinct_set_conv_list [symmetric]) (auto intro!: prod.cong)
  also have "\<dots> = (\<Prod>y\<in>(\<lambda>j. idv (xs ! j)) ` ({..<length xs} - {i}). y - (idv (xs ! i) :: 'a))"
  proof (subst prod.reindex)
    show "inj_on (\<lambda>j. idv (xs ! j) :: 'a) ({..<length xs} - {i})"
      using assms by (auto simp: inj_on_def) (metis nth_eq_iff_index_eq nth_mem)
  qed simp
  also have "(\<lambda>j. idv (xs ! j) :: 'a) ` ({..<length xs} - {i}) = idv ` set xs - {idv (xs ! i)}"
  proof -
    have "set xs - {xs ! i} = (!) xs ` ({..<length xs} - {i})"
      using assms(1,2) by (auto simp: in_set_conv_nth nth_eq_iff_index_eq)
    moreover have "idv ` set xs - {idv (xs ! i) :: 'a} = idv ` (set xs - {xs ! i})"
      using assms(2,3) by (auto simp: inj_on_def)
    ultimately show ?thesis by (simp add: image_image)
  qed
  finally show ?thesis .
qed

lemma foldl_scMul:
  assumes "scalar_laws S"
  shows "foldl (\<lambda>a x. scMul S a (scSetInt64 S x)) b xs = b * (\<Prod>x\<leftarrow>xs. idv x)"
  using scalar_lawsD [OF assms] by (induction xs arbitrary: b) (simp_all add: mult.assoc)

text \<open>Points that are good for interpolation: positive, in range, and different and nonzero as scalars.\<close>

definition ids_ok :: "'s :: field itself \<Rightarrow> int64 list \<Rightarrow> bool" where
  "ids_ok _ xs \<longleftrightarrow> distinct xs \<and> (\<forall>x \<in> set xs. 0 < sint x \<and> sint x < 2 ^ 62 \<and> (idv x :: 's) \<noteq> 0) \<and> inj_on (idv :: int64 \<Rightarrow> 's) (set xs)"

lemma recovery_coefficient:
  fixes S :: "('s :: field, 'g, 'x) Suite_scheme"
  assumes S: "scalar_laws S" and ids: "ids_ok TYPE('s) xs" and i: "i < length xs"
  shows "rbind (b_loop S xs i [0..<length xs] (scSetInt64 S (xs ! i))) f = f (idv (xs ! i) * (\<Prod>y\<in>idv ` set xs - {idv (xs ! i)}. y - idv (xs ! i)))"
proof -
  have xs: "distinct xs" "inj_on (idv :: int64 \<Rightarrow> 's) (set xs)" "\<And>x. x \<in> set xs \<Longrightarrow> 0 < sint x \<and> sint x < 2 ^ 62"
    using ids by (auto simp: ids_ok_def)
  show ?thesis
    using b_loop_prod [OF S xs(1) i _ xs(3), of "[0..<length xs]" "scSetInt64 S (xs ! i)"] prod_other_indices [OF xs(1) i xs(2)]
      scalar_lawsD(5) [OF S, of "xs ! i"] by (simp add: lessThan_atLeast0)
qed

lemma recovery_loop_sum:
  fixes S :: "('s :: field, 'g, 'x) Suite_scheme"
  assumes S: "scalar_laws S" and P: "point_laws S H" and ids: "ids_ok TYPE('s) xs"
  shows "i + length ys = length xs \<Longrightarrow> (\<And>k. k < length ys \<Longrightarrow> ptUnmarshal S (ys ! k) = Some (ptMul S (v (xs ! (i + k))) H)) \<Longrightarrow>
    recovery_loop S xs (length xs) (\<Prod>y\<in>idv ` set xs. y) i ys (ptMul S c H) =
      Inr (ptMul S (c + (\<Sum>k<length ys. weight (idv ` set xs) (idv (xs ! (i + k))) * v (xs ! (i + k)))) H)"
proof (induction ys arbitrary: i c)
  case (Cons y ys)
  let ?w = "\<lambda>i. weight (idv ` set xs) (idv (xs ! i)) :: 's"
  have y: "ptUnmarshal S y = Some (ptMul S (v (xs ! i)) H)" using Cons.prems(2) [of 0] by simp
  have i: "i < length xs" using Cons.prems(1) by simp
  have step: "ptAdd S (ptMul S c H) (ptMul S (scDiv S (\<Prod>y\<in>idv ` set xs. y)
      (idv (xs ! i) * (\<Prod>y\<in>idv ` set xs - {idv (xs ! i)}. y - idv (xs ! i)))) (ptMul S (v (xs ! i)) H)) = ptMul S (c + ?w i * v (xs ! i)) H"
    using P by (simp add: scalar_lawsD [OF S] point_laws_def weight_def)
  have IH: "recovery_loop S xs (length xs) (\<Prod>y\<in>idv ` set xs. y) (Suc i) ys (ptMul S (c + ?w i * v (xs ! i)) H) =
      Inr (ptMul S (c + ?w i * v (xs ! i) + (\<Sum>k<length ys. ?w (Suc i + k) * v (xs ! (Suc i + k)))) H)"
  proof (rule Cons.IH)
    show "Suc i + length ys = length xs" using Cons.prems(1) by simp
    show "ptUnmarshal S (ys ! k) = Some (ptMul S (v (xs ! (Suc i + k))) H)" if "k < length ys" for k
      using Cons.prems(2) [of "Suc k"] that by simp
  qed
  have "(\<Sum>k<length (y # ys). ?w (i + k) * v (xs ! (i + k))) = ?w i * v (xs ! i) + (\<Sum>k<length ys. ?w (Suc i + k) * v (xs ! (Suc i + k)))"
    by (simp only: length_Cons sum.lessThan_Suc_shift add_Suc_shift add_0_right)
  then show ?case using IH by (simp add: y recovery_coefficient [OF S ids i] step add.assoc)
qed simp

lemma recovery_interpolates:
  fixes S :: "('s :: field, 'g, 'x) Suite_scheme"
  assumes S: "scalar_laws S" and P: "point_laws S H" and ids: "ids_ok TYPE('s) xs" and len: "length ys = length xs"
    and shares: "\<And>k. k < length xs \<Longrightarrow> ptUnmarshal S (ys ! k) = Some (ptMul S (poly_eval cs (idv (xs ! k))) H)"
    and deg: "0 < length cs" "length cs \<le> length xs"
  shows "recovery S ys xs = (case ptMarshal S (ptMul S (cs ! 0) H) of None \<Rightarrow> Inl ErrMarshal | Some data \<Rightarrow> Inr data)"
proof -
  let ?X = "idv ` set xs :: 's set"
  have xs: "distinct xs" "inj_on (idv :: int64 \<Rightarrow> 's) (set xs)" "0 \<notin> ?X" using ids by (auto simp: ids_ok_def)
  have a: "foldl (\<lambda>a x. scMul S a (scSetInt64 S x)) (scOne S) xs = (\<Prod>y\<in>?X. y)"
    using xs(1,2) by (simp add: foldl_scMul [OF S] scalar_lawsD(1) [OF S] prod.distinct_set_conv_list prod.reindex)
  have card: "card ?X = length xs" using xs(1,2) by (simp add: card_image distinct_card)
  have "(\<Sum>k<length xs. weight ?X (idv (xs ! k)) * poly_eval cs (idv (xs ! k))) = (\<Sum>x\<in>set xs. weight ?X (idv x) * poly_eval cs (idv x))"
    using xs(1) by (intro sum.reindex_bij_betw bij_betw_nth) auto
  also have "\<dots> = (\<Sum>x\<in>?X. weight ?X x * poly_eval cs x)" using xs(2) by (simp add: sum.reindex)
  also have "\<dots> = cs ! 0" unfolding poly_eval_def using interpolate_zero [of ?X "length cs" "\<lambda>k. cs ! k"] xs(3) deg card by simp
  finally have sum: "(\<Sum>k<length xs. weight ?X (idv (xs ! k)) * poly_eval cs (idv (xs ! k))) = cs ! 0" .
  have new: "ptNew S = ptMul S 0 H" using P by (simp add: point_laws_def)
  from recovery_loop_sum [OF S P ids, of 0 ys "\<lambda>x. poly_eval cs (idv x)" 0] shares len
  have "recovery_loop S xs (length xs) (\<Prod>y\<in>?X. y) 0 ys (ptNew S) = Inr (ptMul S (cs ! 0) H)" unfolding new by (simp add: sum)
  then show ?thesis by (simp add: recovery_def Let_def a len)
qed

section \<open>Properties\<close>

lemma sint_plus_one_nonneg:
  fixes d :: int64
  assumes "0 \<le> sint (d + 1)" "d + 1 \<noteq> 0"
  shows "0 \<le> sint d"
proof (rule ccontr)
  assume "\<not> 0 \<le> sint d"
  then have "sint (Update d 1) = sint d + 1" by (intro sint_Update_one) simp
  then have "sint (d + 1) = 0" using assms(1) \<open>\<not> 0 \<le> sint d\<close> by (simp add: Update_def)
  then have "d + 1 = 0" by (metis sint_0 signed_word_eqI)
  with assms(2) show False by simp
qed

lemma Master_polys:
  assumes "Master K priv d seed = Inr (Some p)"
  obtains s where "ToKyber K priv = Some s" "polys p = s # map (keyStream K seed) [0..<nat (sint d)]" "0 \<le> sint d"
  using assms sint_plus_one_nonneg [of d] by (auto simp: Master_def split: option.splits if_splits)

text \<open>
  (C9) Threshold recovery is correct: when the cluster key is shared with \<open>Master\<close> at degree \<open>d\<close> and at least
  \<open>d + 1\<close> validators with different ids contribute the point \<open>f(id)\<cdot>H\<close>, their signature on a
  message hashed to \<open>H\<close>, \<open>SignatureRecovery\<close> returns the encoding of \<open>f(0)\<cdot>H\<close>, the signature
  of the cluster key itself. The laws used are those of a field of scalars and of the multiples of a point.
\<close>

theorem SignatureRecovery_correct:
  fixes K :: "('s :: field, 'g, 'p) Kyber"
  assumes "scalar_laws K" "point_laws K H" "ids_ok TYPE('s) ids"
    and "Master K priv d seed = Inr (Some p)" "ToKyber K priv = Some s"
    and "length sigs = length ids" "1 < length ids" "sint d < int (length ids)" "sint thr \<le> int (length ids)"
    and "\<forall>k < length ids. ptUnmarshal K (sigs ! k) = Some (ptMul K (poly_eval (polys p) (idv (ids ! k))) H)"
  shows "SignatureRecovery K thr sigs ids = (case ptMarshal K (ptMul K s H) of None \<Rightarrow> Inl ErrMarshal | Some data \<Rightarrow> Inr data)"
proof -
  obtain ks where p: "polys p = s # map (keyStream K seed) [0..<nat (sint d)]" "0 \<le> sint d"
    using Master_polys [OF assms(4)] assms(5) by auto
  have "recovery K sigs ids = (case ptMarshal K (ptMul K (polys p ! 0) H) of None \<Rightarrow> Inl ErrMarshal | Some data \<Rightarrow> Inr data)"
    by (rule recovery_interpolates [OF assms(1-3,6)]) (use assms p in auto)
  then show ?thesis using assms(6,7,9) p by (auto simp: SignatureRecovery_def)
qed

text \<open>
  A model of the laws over the rational numbers, in which a number is encoded by a string of that length: for
  evaluating the properties at concrete points.
\<close>

definition unary :: "rat \<Rightarrow> bytes" where
  "unary r = replicate (nat \<lfloor>r\<rfloor>) CHR ''x''"

definition ratKyber :: "(rat, rat, rat) Kyber" where
  "ratKyber = \<lparr>scOne = 1, scSetInt64 = (\<lambda>w. of_int (sint w)), scMul = (*), scAdd = (+), scDiv = (/),
     scUnmarshal = (\<lambda>b. Some (of_nat (length b))), scMarshal = unary,
     ptNew = 0, ptAdd = (+), ptMul = (*), ptUnmarshal = (\<lambda>b. Some (of_nat (length b))), ptMarshal = (\<lambda>p. Some (unary p)),
     keyStream = (\<lambda>seed i. 3), blsSign = (\<lambda>s m. Some (CHR ''s'' # unary s @ m)),
     blsVerify = (\<lambda>p m sig. sig = CHR ''s'' # unary p @ m), p2Mul = (\<lambda>s. s), p2Marshal = (\<lambda>p. Some (unary p)),
     p2Unmarshal = (\<lambda>b. Some (of_nat (length b))), sumTruncated = take 20\<rparr>"

lemma ratKyber_laws: "scalar_laws ratKyber" "point_laws ratKyber H"
  by (simp_all add: scalar_laws_def point_laws_def ratKyber_def algebra_simps)

lemma ids_ok_1_2: "ids_ok TYPE(rat) [1, 2]"
  by (simp add: ids_ok_def idv_def)

text \<open>\<open>f(x) = 5 + 3x\<close> shared at 1 and 2: the recovered value is 5.\<close>

theorem SignatureRecovery_correct_witness:
  "SignatureRecovery ratKyber 2 [replicate 8 CHR ''x'', replicate 11 CHR ''x''] [1, 2] = Inr (replicate 5 CHR ''x'')"
proof -
  have "SignatureRecovery ratKyber 2 [replicate 8 CHR ''x'', replicate 11 CHR ''x''] [1, 2] =
      (case ptMarshal ratKyber (ptMul ratKyber 5 1) of None \<Rightarrow> Inl ErrMarshal | Some data \<Rightarrow> Inr data)"
    by (rule SignatureRecovery_correct [where d = 1 and priv = "replicate 5 CHR ''x''" and seed = 0
          and p = "\<lparr>polys = [5, 3], poly_seed = 0\<rparr>", OF ratKyber_laws ids_ok_1_2])
      (simp_all add: Master_def ToKyber_def ratKyber_def poly_eval_def idv_def less_Suc_eq numeral_nat)
  then show ?thesis by (simp add: ratKyber_def unary_def numeral_nat)
qed

text \<open>
  Signatures verify: whatever a key of crypto/bls signs, the public key derived from it accepts, given that
  kyber's decoding inverts its encoding and that \<open>bls.Verify\<close> accepts what \<open>bls.Sign\<close> returned.
\<close>

theorem Sign_VerifySignature:
  assumes "bls_laws K" "PrivKey_Sign K priv msg = Inr sig" "PrivKey_PubKey K priv = Some pub"
  shows "VerifySignature K pub msg sig"
  using assms by (rule sign_verify)

definition natKyber :: "(nat, nat, nat) Kyber" where
  "natKyber = \<lparr>scOne = 1, scSetInt64 = unat, scMul = (*), scAdd = (+), scDiv = (div),
     scUnmarshal = (\<lambda>b. Some (length b)), scMarshal = (\<lambda>n. replicate n CHR ''x''),
     ptNew = 0, ptAdd = (+), ptMul = (*), ptUnmarshal = (\<lambda>b. Some (length b)), ptMarshal = (\<lambda>n. Some (replicate n CHR ''x'')),
     keyStream = (\<lambda>seed i. 3 + i), blsSign = (\<lambda>s m. Some (CHR ''s'' # replicate s CHR ''x'' @ m)),
     blsVerify = (\<lambda>p m sig. sig = CHR ''s'' # replicate p CHR ''x'' @ m), p2Mul = (\<lambda>s. s),
     p2Marshal = (\<lambda>n. Some (replicate n CHR ''x'')), p2Unmarshal = (\<lambda>b. Some (length b)), sumTruncated = take 20\<rparr>"

lemma natKyber_laws: "bls_laws natKyber"
  by (simp add: bls_laws_def natKyber_def)

theorem Sign_VerifySignature_witness:
  "VerifySignature natKyber ''xx'' ''msg'' ''sxxmsg''"
  by (rule Sign_VerifySignature [OF natKyber_laws, of "''xx''"])
    (simp_all add: natKyber_def PrivKey_Sign_def PrivKey_PubKey_def numeral_nat)


text \<open>
  The key file and the genesis file seed the polynomial with the seed of the cluster key, and the generator is
  restarted from it: the first random coefficient is the cluster's private key again.
\<close>

theorem Master_repeats_key:
  assumes "bls_laws K" "0 < sint d" "sint d < 2 ^ 62"
  shows "\<exists>p. Master K (GenPrivKeyWithSeed K seed) d seed = Inr (Some p) \<and> polys p ! 1 = polys p ! 0"
proof -
  have "sint (d + 1) = sint d + 1" using sint_Update_one [of d] assms(3) by (simp add: Update_def)
  moreover from this have "d + 1 \<noteq> 0" using assms(2) by (metis add_pos_pos less_irrefl sint_0 zero_less_one)
  moreover have "scUnmarshal K (scMarshal K (keyStream K seed 0)) = Some (keyStream K seed 0)" using assms(1) by (simp add: bls_laws_def)
  ultimately show ?thesis using assms(2) by (simp add: Master_def ToKyber_def GenPrivKeyWithSeed_def)
qed

theorem Master_repeats_key_witness:
  "\<exists>p. Master natKyber (GenPrivKeyWithSeed natKyber 7) 3 7 = Inr (Some p) \<and> polys p ! 1 = polys p ! 0"
  by (rule Master_repeats_key [OF natKyber_laws]) simp_all

end
