(* ===== verification/Privval.thy ===== *)
theory Privval
  imports Blocks Threshold
begin

text \<open>
  Private validators: the interface and the mock implementations of types/priv\_validator.go and the
  key file of privval/file.go. Reading and writing the key file is in \<open>Commands\<close>.
\<close>

section \<open>Model\<close>

record FilePVKey =
  pvk_Address :: Address
  pvk_PubKey :: "PubKey option"
  pvk_PrivKey :: PrivKey
  filePath :: string

record MockPV =
  mpv_PrivKey :: PrivKey
  breakProposalSigning :: bool
  breakVoteSigning :: bool

text \<open>The implementations of the \<open>PrivValidator\<close> interface.\<close>

datatype PrivValidator = FilePV FilePVKey | MockPV MockPV | ErroringMockPV MockPV

definition NewFilePV :: "('s, 'g) Crypto \<Rightarrow> PrivKey \<Rightarrow> string \<Rightarrow> FilePVKey res" where
  "NewFilePV e privKey keyFilePath = rbind (deref (privPubKey e privKey)) (\<lambda>pub.
     Inr \<lparr>pvk_Address = pkAddress e pub, pvk_PubKey = Some pub, pvk_PrivKey = privKey, filePath = keyFilePath\<rparr>)"

definition GenFilePVWithSeedAndIdx :: "('s, 'g) Crypto \<Rightarrow> ('s, 'g, 'p) Kyber \<Rightarrow> string \<Rightarrow> int64 \<Rightarrow> int64 \<Rightarrow> int64 \<Rightarrow> FilePVKey res" where
  "GenFilePVWithSeedAndIdx e K keyFilePath threshold_val idx seed =
     (let primary = GenPrivKeyWithSeed K seed in
      rbind (Master K primary threshold_val seed) (\<lambda>poly.
      rbind (deref poly) (\<lambda>p.
      rbind (GetValue K p idx) (\<lambda>r. case r of
        Inl err \<Rightarrow> Inl (Panic ''GetValue'')
      | Inr priv \<Rightarrow> NewFilePV e priv keyFilePath))))"

text \<open>The public key and the address are computed again from the private key that was read.\<close>

definition loadFilePV :: "('s, 'g) Crypto \<Rightarrow> string \<Rightarrow> FilePVKey \<Rightarrow> FilePVKey res" where
  "loadFilePV e keyFilePath pvKey = rbind (deref (privPubKey e (pvk_PrivKey pvKey))) (\<lambda>pub.
     Inr (pvKey\<lparr>pvk_PubKey := Some pub, pvk_Address := pkAddress e pub, filePath := keyFilePath\<rparr>))"

fun GetPubKey :: "('s, 'g) Crypto \<Rightarrow> PrivValidator \<Rightarrow> PubKey option" where
  "GetPubKey e (FilePV k) = pvk_PubKey k"
| "GetPubKey e (MockPV pv) = privPubKey e (mpv_PrivKey pv)"
| "GetPubKey e (ErroringMockPV pv) = privPubKey e (mpv_PrivKey pv)"

fun GetAddress :: "('s, 'g) Crypto \<Rightarrow> PrivValidator \<Rightarrow> Address res" where
  "GetAddress e (FilePV k) = Inr (pvk_Address k)"
| "GetAddress e (MockPV pv) = rbind (deref (privPubKey e (mpv_PrivKey pv))) (\<lambda>pub. Inr (pkAddress e pub))"
| "GetAddress e (ErroringMockPV pv) = rbind (deref (privPubKey e (mpv_PrivKey pv))) (\<lambda>pub. Inr (pkAddress e pub))"

text \<open>Signing sets the signature of the vote; on an error the vote is left alone.\<close>

definition signWith :: "('s, 'g) Crypto \<Rightarrow> PrivKey \<Rightarrow> string \<Rightarrow> Vote \<Rightarrow> string + Vote" where
  "signWith e priv chainID vote = (case privSign e priv (VoteSignBytes e chainID vote) of
      Inl err \<Rightarrow> Inl err
    | Inr sig \<Rightarrow> Inr (vote\<lparr>v_Signature := sig\<rparr>))"

fun SignVote :: "('s, 'g) Crypto \<Rightarrow> PrivValidator \<Rightarrow> string \<Rightarrow> Vote \<Rightarrow> string + Vote" where
  "SignVote e (FilePV k) chainID vote = (case signWith e (pvk_PrivKey k) chainID vote of
      Inl err \<Rightarrow> Inl (''error signing vote: '' @ err) | Inr v \<Rightarrow> Inr v)"
| "SignVote e (MockPV pv) chainID vote =
     signWith e (mpv_PrivKey pv) (if breakVoteSigning pv then ''incorrect-chain-id'' else chainID) vote"
| "SignVote e (ErroringMockPV pv) chainID vote = Inl ''erroringMockPV always returns an error''"

definition signProposalWith :: "('s, 'g) Crypto \<Rightarrow> PrivKey \<Rightarrow> string \<Rightarrow> Proposal \<Rightarrow> Heap \<Rightarrow> Heap \<times> string option" where
  "signProposalWith e priv chainID proposal h =
     (let (h', signBytes) = ProposalSignBytes e chainID proposal h in
      case privSign e priv signBytes of
        Inl err \<Rightarrow> (h', Some err)
      | Inr sig \<Rightarrow> (updBlock (p_Block proposal) (\<lambda>b. b\<lparr>Signature := Some sig\<rparr>) h', None))"

fun SignProposal :: "('s, 'g) Crypto \<Rightarrow> PrivValidator \<Rightarrow> string \<Rightarrow> Proposal \<Rightarrow> Heap \<Rightarrow> Heap \<times> string option" where
  "SignProposal e (FilePV k) chainID proposal h = (case signProposalWith e (pvk_PrivKey k) chainID proposal h of
      (h', Some err) \<Rightarrow> (h', Some (''error signing proposal: '' @ err)) | (h', None) \<Rightarrow> (h', None))"
| "SignProposal e (MockPV pv) chainID proposal h =
     signProposalWith e (mpv_PrivKey pv) (if breakProposalSigning pv then ''incorrect-chain-id'' else chainID) proposal h"
| "SignProposal e (ErroringMockPV pv) chainID proposal h = (h, Some ''erroringMockPV always returns an error'')"

section \<open>Frames\<close>

lemma signProposalWith_frame [simp]:
  "trees (fst (signProposalWith e k c p h)) = trees h" "sets (fst (signProposalWith e k c p h)) = sets h"
  "quorums (fst (signProposalWith e k c p h)) = quorums h" "blocksNext (fst (signProposalWith e k c p h)) = blocksNext h"
  "quorumsNext (fst (signProposalWith e k c p h)) = quorumsNext h"
  by (simp_all add: signProposalWith_def ProposalSignBytes_def hashBlock_def Let_def split: prod.split sum.split)

lemma fst_SignProposal:
  "fst (SignProposal e pv c p h) = h \<or> (\<exists>k c'. fst (SignProposal e pv c p h) = fst (signProposalWith e k c' p h))"
proof (cases pv)
  case (FilePV k)
  then have "fst (SignProposal e pv c p h) = fst (signProposalWith e (pvk_PrivKey k) c p h)"
    by (simp split: prod.split option.split)
  then show ?thesis by blast
qed auto

lemma SignProposal_frame [simp]:
  "trees (fst (SignProposal e pv c p h)) = trees h" "sets (fst (SignProposal e pv c p h)) = sets h"
  "quorums (fst (SignProposal e pv c p h)) = quorums h" "blocksNext (fst (SignProposal e pv c p h)) = blocksNext h"
  "quorumsNext (fst (SignProposal e pv c p h)) = quorumsNext h"
  using fst_SignProposal [of e pv c p h] by (metis signProposalWith_frame)+

text \<open>
  The mock validator asked to break proposal signing still signs the right bytes: \<open>ProposalSignBytes\<close>
  does not look at the chain id.
\<close>

lemma MockPV_break_is_ineffective:
  "SignProposal e (MockPV (pv\<lparr>breakProposalSigning := b\<rparr>)) c p h = SignProposal e (MockPV pv) c p h"
  by (simp add: signProposalWith_def ProposalSignBytes_def)

text \<open>What a signed vote still says.\<close>

lemma SignVote_keeps:
  assumes "SignVote e pv c v = Inr v'"
  shows "v_Slot v' = v_Slot v" "v_BlockHash v' = v_BlockHash v" "v_Type v' = v_Type v"
    "ValidatorAddress v' = ValidatorAddress v" "ValidatorIndex v' = ValidatorIndex v"
  using assms by (cases pv; auto simp: signWith_def split: sum.splits)+

end
