(* ===== verification/Validators.thy ===== *)
theory Validators
  imports Blocks
begin

text \<open>
  Validators and validator sets (types/validator.go, types/validator\_set.go): look-up by address and
  by index, the proposer of a slot, and the hash of the set.
\<close>

section \<open>Model\<close>

text \<open>The public key is an interface value, which may be nil.\<close>

record Validator =
  val_Address :: Address
  val_PubKey :: "PubKey option"

definition NewValidator :: "('s, 'g) Crypto \<Rightarrow> PubKey option \<Rightarrow> Validator res" where
  "NewValidator e pubKey = rbind (deref pubKey) (\<lambda>pk. Inr \<lparr>val_Address = pkAddress e pk, val_PubKey = Some pk\<rparr>)"

definition AddressSize :: nat where
  "AddressSize = 20"

definition Validator_ValidateBasic :: "Validator option \<Rightarrow> string option" where
  "Validator_ValidateBasic v = (case v of
      None \<Rightarrow> Some ''nil validator''
    | Some v \<Rightarrow> if val_PubKey v = None then Some ''validator does not have a public key''
                else if length (val_Address v) \<noteq> AddressSize then Some ''validator address is the wrong size''
                else None)"

text \<open>\<open>Bytes\<close> encodes the public key as JSON; a nil interface is \<open>null\<close>.\<close>

definition Validator_Bytes :: "('s, 'g) Crypto \<Rightarrow> Validator \<Rightarrow> bytes" where
  "Validator_Bytes e v = (case val_PubKey v of Some pk \<Rightarrow> pkJSON e pk | None \<Rightarrow> ''null'')"

record ValidatorSet =
  Validators :: "Validator list"

definition NewValidatorSet :: "Validator list \<Rightarrow> ValidatorSet" where
  "NewValidatorSet valz = \<lparr>Validators = valz\<rparr>"

definition IsNilOrEmpty :: "ValidatorSet option \<Rightarrow> bool" where
  "IsNilOrEmpty vals = (case vals of None \<Rightarrow> True | Some vs \<Rightarrow> length (Validators vs) = 0)"

fun ValidateBasic_loop :: "nat \<Rightarrow> Validator list \<Rightarrow> string option" where
  "ValidateBasic_loop idx [] = None"
| "ValidateBasic_loop idx (v # vs) = (case Validator_ValidateBasic (Some v) of
      Some err \<Rightarrow> Some (''invalid validator #'' @ Itoa (of_nat idx) @ '': '' @ err)
    | None \<Rightarrow> ValidateBasic_loop (Suc idx) vs)"

definition ValidatorSet_ValidateBasic :: "ValidatorSet option \<Rightarrow> string option" where
  "ValidatorSet_ValidateBasic vals = (case vals of
      None \<Rightarrow> Some ''validator set is nil or empty''
    | Some vs \<Rightarrow> if IsNilOrEmpty (Some vs) then Some ''validator set is nil or empty''
                 else ValidateBasic_loop 0 (Validators vs))"

definition HasAddress :: "ValidatorSet \<Rightarrow> Address \<Rightarrow> bool" where
  "HasAddress vals address \<longleftrightarrow> list_ex (\<lambda>val. val_Address val = address) (Validators vals)"

text \<open>The loop of \<open>GetByAddress\<close>; the index is converted to \<open>int32\<close>.\<close>

fun GetByAddress_loop :: "Address \<Rightarrow> nat \<Rightarrow> Validator list \<Rightarrow> int32 \<times> Validator option" where
  "GetByAddress_loop address idx [] = (-1, None)"
| "GetByAddress_loop address idx (val # vals) =
     (if val_Address val = address then (of_nat idx, Some val) else GetByAddress_loop address (Suc idx) vals)"

definition GetByAddress :: "ValidatorSet \<Rightarrow> Address \<Rightarrow> int32 \<times> Validator option" where
  "GetByAddress vals address = GetByAddress_loop address 0 (Validators vals)"

definition GetByIndex :: "ValidatorSet \<Rightarrow> int32 \<Rightarrow> bytes option \<times> Validator option" where
  "GetByIndex vals idx =
     (if sint idx < 0 \<or> sint idx \<ge> int (length (Validators vals)) then (None, None)
      else let val = Validators vals ! nat (sint idx) in (Some (val_Address val), Some val))"

definition ValidatorSet_Size :: "ValidatorSet \<Rightarrow> int64" where
  "ValidatorSet_Size vals = of_nat (length (Validators vals))"

definition GetProposer :: "ValidatorSet \<Rightarrow> LTime \<Rightarrow> Validator option res" where
  "GetProposer vals current =
     (if length (Validators vals) = 0 then Inr None
      else rbind (Mod current (of_nat (length (Validators vals)))) (\<lambda>idx.
           rbind (index (Validators vals) (sint idx)) (\<lambda>val. Inr (Some val))))"

definition ValidatorSet_Hash :: "('s, 'g) Crypto \<Rightarrow> ValidatorSet \<Rightarrow> bytes" where
  "ValidatorSet_Hash e vals = merkleRoot e (map (Validator_Bytes e) (Validators vals))"

section \<open>Well-formed sets\<close>

text \<open>
  What the constructor's comment asks of its input, addresses that are pairwise different, and a size
  that an \<open>int32\<close> index can count.
\<close>

definition wf_vals :: "ValidatorSet \<Rightarrow> bool" where
  "wf_vals vals \<longleftrightarrow> distinct (map val_Address (Validators vals)) \<and> length (Validators vals) < 2 ^ 31"

section \<open>Look-up\<close>

lemma GetByAddress_loop_None:
  "snd (GetByAddress_loop a i vs) = None \<longleftrightarrow> a \<notin> val_Address ` set vs"
  by (induction vs arbitrary: i) auto

lemma GetByAddress_loop_Some:
  "GetByAddress_loop a i vs = (k, Some v) \<Longrightarrow>
     \<exists>j < length vs. k = of_nat (i + j) \<and> v = vs ! j \<and> val_Address v = a"
proof (induction vs arbitrary: i)
  case (Cons w vs)
  show ?case
  proof (cases "val_Address w = a")
    case True
    with Cons.prems show ?thesis by (intro exI [of _ 0]) auto
  next
    case False
    with Cons obtain j where "j < length vs" "k = of_nat (Suc i + j)" "v = vs ! j" "val_Address v = a"
      by fastforce
    then show ?thesis by (intro exI [of _ "Suc j"]) auto
  qed
qed simp

lemma GetByAddress_loop_at:
  assumes "distinct (map val_Address vs)" "j < length vs"
  shows "GetByAddress_loop (val_Address (vs ! j)) i vs = (of_nat (i + j), Some (vs ! j))"
  using assms
proof (induction vs arbitrary: i j)
  case (Cons w vs)
  then show ?case
  proof (cases j)
    case (Suc k)
    with Cons.prems have "val_Address w \<noteq> val_Address (vs ! k)" "k < length vs" by auto
    with Suc Cons show ?thesis by simp
  qed auto
qed simp

text \<open>A validator that is found is found at its own index, which reads back.\<close>

lemma GetByAddress_GetByIndex:
  assumes "wf_vals vals" "GetByAddress vals a = (i, Some v)"
  shows "GetByIndex vals i = (Some a, Some v)" "val_Address v = a" "v \<in> set (Validators vals)"
proof -
  from assms(2) obtain j where j: "j < length (Validators vals)" "i = of_nat j" "v = Validators vals ! j"
    "val_Address v = a"
    using GetByAddress_loop_Some [of a 0 "Validators vals" i v] by (auto simp: GetByAddress_def)
  with assms(1) have "sint i = int j" by (simp add: wf_vals_def sint_of_nat_32)
  with j show "GetByIndex vals i = (Some a, Some v)" "val_Address v = a" "v \<in> set (Validators vals)"
    by (auto simp: GetByIndex_def Let_def)
qed

lemma GetByAddress_inj:
  assumes "wf_vals vals" "GetByAddress vals a = (i, Some v)" "GetByAddress vals b = (i, Some w)"
  shows "a = b"
  using GetByAddress_GetByIndex(1) [OF assms(1,2)] GetByAddress_GetByIndex(1) [OF assms(1,3)] by simp

lemma GetByAddress_found:
  "(\<exists>i v. GetByAddress vals a = (i, Some v)) \<longleftrightarrow> HasAddress vals a"
  using GetByAddress_loop_None [of a 0 "Validators vals"]
  by (cases "GetByAddress vals a") (auto simp: GetByAddress_def HasAddress_def list_ex_iff image_iff)

lemma GetByAddress_missing: "\<not> HasAddress vals a \<Longrightarrow> GetByAddress vals a = (-1, None)"
proof -
  have "\<And>i. a \<notin> val_Address ` set vs \<Longrightarrow> GetByAddress_loop a i vs = (-1, None)" for vs
    by (induction vs) auto
  moreover assume "\<not> HasAddress vals a"
  ultimately show ?thesis by (auto simp: GetByAddress_def HasAddress_def list_ex_iff)
qed

section \<open>The proposer of a slot\<close>

lemma GetProposer_nonneg:
  assumes "0 \<le> sint t" "Validators vals \<noteq> []" "length (Validators vals) < 2 ^ 63"
  shows "GetProposer vals t = Inr (Some (Validators vals ! nat (sint t mod int (length (Validators vals)))))"
proof -
  let ?n = "length (Validators vals)"
  have n: "0 < ?n" using assms(2) by simp
  have "Mod t (of_nat ?n) = Inr (word_of_int (sint t mod int ?n))"
    using Mod_nonneg [of t "int ?n"] assms n by simp
  moreover have "sint (word_of_int (sint t mod int ?n) :: int64) = sint t mod int ?n"
  proof (rule sint_word_of_int_64)
    show "- (2 ^ 63) \<le> sint t mod int ?n" using n by (meson pos_mod_sign of_nat_0_less_iff order_trans
        neg_le_0_iff_le zero_le_numeral zero_le_power)
    have "sint t mod int ?n < int ?n" using n by simp
    also have "int ?n < 2 ^ 63" using assms(3) by simp
    finally show "sint t mod int ?n < 2 ^ 63" .
  qed
  ultimately show ?thesis using n by (simp add: GetProposer_def index_def)
qed

end
