(* ===== verification/PlainEnv.thy ===== *)
theory PlainEnv
  imports Complex_Main Env
begin

text \<open>
  An instance to evaluate the model on: digests that do not compress, keys padded to 32 bytes, and a signature
  that is the key followed by the message.
\<close>

definition pad32 :: "bytes \<Rightarrow> bytes" where
  "pad32 k = take 32 (k @ replicate 32 CHR ''.'')"

definition plainSuite :: "(rat, rat) Suite" where
  "plainSuite = \<lparr>scOne = 1, scSetInt64 = (\<lambda>w. of_int (sint w)), scMul = (*), scAdd = (+), scDiv = (/),
     scUnmarshal = (\<lambda>b. Some (of_nat (length b))), scMarshal = (\<lambda>r. replicate (nat \<lfloor>r\<rfloor>) CHR ''x''),
     ptNew = 0, ptAdd = (+), ptMul = (*), ptUnmarshal = (\<lambda>b. Some (of_nat (length b))),
     ptMarshal = (\<lambda>r. Some (replicate (nat \<lfloor>r\<rfloor>) CHR ''x''))\<rparr>"

definition plainCrypto :: "(rat, rat) Crypto" where
  "plainCrypto = \<lparr>suite = plainSuite, merkleRoot = concat, tmhashSum = (\<lambda>b. b), ed25519Verify = (\<lambda>p m s. s = p @ m),
     pkVerify = (\<lambda>p m s. s = p @ m), pkAddress = (\<lambda>p. take 20 p), pkJSON = (\<lambda>p. p), privSign = (\<lambda>k m. Inr (pad32 k @ m)),
     privPubKey = (\<lambda>k. Some (pad32 k))\<rparr>"

lemma length_pad32 [simp]: "length (pad32 k) = 32"
  by (simp add: pad32_def min_def)

lemma plainCrypto_laws: "ed25519_laws plainCrypto" "sign_laws plainCrypto"
  by (simp_all add: ed25519_laws_def sign_laws_def plainCrypto_def)

end
