(* ===== verification/ValidatorLists.thy ===== *)
theory ValidatorLists
  imports Privval Validators PlainEnv "HOL-Library.List_Lexorder" "HOL-Library.Char_ord" "HOL-Library.Multiset"
begin

text \<open>
  The helpers around validator sets that the tests of the program use: copies and iteration (types/validator\_set.go), mock keys
  (types/priv\_validator.go) and random validators (types/validator.go), with the order of keys by their address.
\<close>

section \<open>Copies and iteration\<close>

text \<open>A validator may be nil in a list of pointers; copying it then dereferences nil. The copies are new objects with the same fields.\<close>

definition Validator_Copy :: "Validator option \<Rightarrow> Validator res" where
  "Validator_Copy v = deref v"

fun validatorListCopy :: "Validator option list \<Rightarrow> Validator list res" where
  "validatorListCopy [] = Inr []"
| "validatorListCopy (val # vals) = rbind (Validator_Copy val) (\<lambda>v. rbind (validatorListCopy vals) (\<lambda>vs. Inr (v # vs)))"

definition ValidatorSet_Copy :: "ValidatorSet \<Rightarrow> ValidatorSet res" where
  "ValidatorSet_Copy vals = rbind (validatorListCopy (map Some (Validators vals))) (\<lambda>vs. Inr \<lparr>Validators = vs\<rparr>)"

text \<open>The function that is iterated has an effect on a state and says whether to stop.\<close>

fun Iterate_loop :: "(nat \<Rightarrow> Validator \<Rightarrow> 'st \<Rightarrow> 'st \<times> bool) \<Rightarrow> nat \<Rightarrow> Validator list \<Rightarrow> 'st \<Rightarrow> 'st" where
  "Iterate_loop fn i [] s = s"
| "Iterate_loop fn i (val # vals) s = (case fn i val s of (s', stop) \<Rightarrow> if stop then s' else Iterate_loop fn (Suc i) vals s')"

definition Iterate :: "(nat \<Rightarrow> Validator \<Rightarrow> 'st \<Rightarrow> 'st \<times> bool) \<Rightarrow> ValidatorSet \<Rightarrow> 'st \<Rightarrow> 'st" where
  "Iterate fn vals s = Iterate_loop fn 0 (Validators vals) s"

lemma validatorListCopy_iff: "validatorListCopy vals = Inr vs \<longleftrightarrow> vals = map Some vs"
  by (induction vals arbitrary: vs) (auto simp: Validator_Copy_def rbind_Inr_iff split: option.splits)

lemma ValidatorSet_Copy_same: "ValidatorSet_Copy vals = Inr vals"
proof -
  have "validatorListCopy (map Some (Validators vals)) = Inr (Validators vals)" by (simp add: validatorListCopy_iff)
  then show ?thesis by (simp add: ValidatorSet_Copy_def)
qed

text \<open>A function that collects the validators up to the first it is looking for sees exactly these, with their indices, in order.\<close>

lemma Iterate_loop_collects:
  "Iterate_loop (\<lambda>i v s. (s @ [(i, v)], P v)) i vals s =
     s @ zip [i..<i + length vals] (takeWhile (\<lambda>v. \<not> P v) vals @ take 1 (dropWhile (\<lambda>v. \<not> P v) vals))"
proof (induction vals arbitrary: i s)
  case (Cons v vals)
  have "[i..<i + length (v # vals)] = i # [Suc i..<Suc i + length vals]" by (simp add: upt_conv_Cons del: upt_Suc)
  then show ?case using Cons.IH [of "Suc i"] by (auto simp del: upt_Suc)
qed simp

lemma Iterate_collects:
  "Iterate (\<lambda>i v s. (s @ [(i, v)], P v)) vals [] =
     zip [0..<length (Validators vals)] (takeWhile (\<lambda>v. \<not> P v) (Validators vals) @ take 1 (dropWhile (\<lambda>v. \<not> P v) (Validators vals)))"
  using Iterate_loop_collects [of P 0 "Validators vals" "[]"] by (simp add: Iterate_def)

section \<open>Random validators\<close>

text \<open>The key that is drawn is an argument.\<close>

definition NewMockPV :: "PrivKey \<Rightarrow> MockPV" where
  "NewMockPV key = \<lparr>mpv_PrivKey = key, breakProposalSigning = False, breakVoteSigning = False\<rparr>"

definition RandValidator :: "('s, 'g) Crypto \<Rightarrow> PrivKey \<Rightarrow> (Validator \<times> PrivValidator) res" where
  "RandValidator e key = (let privVal = MockPV (NewMockPV key) in
     rbind (NewValidator e (GetPubKey e privVal)) (\<lambda>val. Inr (val, privVal)))"

definition ByAddress_Less :: "('s, 'g) Crypto \<Rightarrow> PrivValidator \<Rightarrow> PrivValidator \<Rightarrow> bool res" where
  "ByAddress_Less e pvi pvj = rbind (deref (GetPubKey e pvi)) (\<lambda>pki. rbind (deref (GetPubKey e pvj)) (\<lambda>pkj. Inr (pkAddress e pki < pkAddress e pkj)))"

fun RandValidators_loop :: "('s, 'g) Crypto \<Rightarrow> PrivKey list \<Rightarrow> (Validator list \<times> PrivValidator list) res" where
  "RandValidators_loop e [] = Inr ([], [])"
| "RandValidators_loop e (key # keys) =
     rbind (RandValidator e key) (\<lambda>(val, privVal). rbind (RandValidators_loop e keys) (\<lambda>(valz, privs). Inr (val # valz, privVal # privs)))"

definition ExtractIntoValidator :: "('s, 'g) Crypto \<Rightarrow> MockPV \<Rightarrow> Validator res" where
  "ExtractIntoValidator e pv = rbind (deref (GetPubKey e (MockPV pv))) (\<lambda>pubKey. Inr \<lparr>val_Address = pkAddress e pubKey, val_PubKey = Some pubKey\<rparr>)"

text \<open>\<open>sort.Sort\<close> with the order \<open>ByAddress_Less\<close>; a key without an address has been refused before.\<close>

definition privAddress :: "('s, 'g) Crypto \<Rightarrow> PrivValidator \<Rightarrow> Address" where
  "privAddress e pv = (case GetPubKey e pv of None \<Rightarrow> [] | Some pk \<Rightarrow> pkAddress e pk)"

definition RandValidatorSet :: "('s, 'g) Crypto \<Rightarrow> PrivKey list \<Rightarrow> (ValidatorSet \<times> PrivValidator list) res" where
  "RandValidatorSet e keys = rbind (RandValidators_loop e keys) (\<lambda>(valz, privs). Inr (NewValidatorSet valz, sort_key (privAddress e) privs))"

lemma RandValidator_extract: "RandValidator e key = rbind (ExtractIntoValidator e (NewMockPV key)) (\<lambda>val. Inr (val, MockPV (NewMockPV key)))"
  by (simp add: RandValidator_def ExtractIntoValidator_def NewValidator_def Let_def split: option.split)

lemma RandValidators_loop_keys:
  "RandValidators_loop e keys = Inr (valz, privs) \<Longrightarrow> map val_Address valz = map (privAddress e) privs
     \<and> (\<forall>pv \<in> set privs. GetPubKey e pv \<noteq> None) \<and> privs = map (\<lambda>k. MockPV (NewMockPV k)) keys"
  by (induction keys arbitrary: valz privs)
    (fastforce simp: RandValidator_def NewValidator_def privAddress_def Let_def rbind_Inr_iff split: option.splits)+

text \<open>
  The keys come back in the order of their addresses, one for each validator; the validators stay in the order they were drawn, so the place
  of a key among the keys is not its index among the validators.
\<close>

lemma RandValidatorSet_keys:
  assumes "RandValidatorSet e keys = Inr (vals, privs)"
  shows "mset (map (privAddress e) privs) = mset (map val_Address (Validators vals))"
    and "i < j \<Longrightarrow> j < length privs \<Longrightarrow> ByAddress_Less e (privs ! j) (privs ! i) = Inr False"
proof -
  obtain valz ps where l: "RandValidators_loop e keys = Inr (valz, ps)" and vals: "vals = NewValidatorSet valz" and privs: "privs = sort_key (privAddress e) ps"
    using assms by (auto simp: RandValidatorSet_def rbind_Inr_iff)
  note k = RandValidators_loop_keys [OF l]
  show "mset (map (privAddress e) privs) = mset (map val_Address (Validators vals))" 
    using arg_cong [OF conjunct1 [OF k], of mset] by (simp add: vals privs NewValidatorSet_def)
  assume ij: "i < j" "j < length privs"
  then have "privs ! i \<in> set ps" "privs ! j \<in> set ps" using nth_mem [of i privs] nth_mem [of j privs] by (simp_all add: privs)
  then obtain pki pkj where p: "GetPubKey e (privs ! i) = Some pki" "GetPubKey e (privs ! j) = Some pkj" using k by blast
  have "sorted (map (privAddress e) privs)" by (simp add: privs)
  then have "privAddress e (privs ! i) \<le> privAddress e (privs ! j)" using sorted_nth_mono [of "map (privAddress e) privs" i j] ij by simp
  then show "ByAddress_Less e (privs ! j) (privs ! i) = Inr False" by (simp add: ByAddress_Less_def p privAddress_def not_less)
qed

lemma RandValidatorSet_order:
  "case RandValidatorSet plainCrypto [''b'', ''a''] of Inl _ \<Rightarrow> False
    | Inr (vals, privs) \<Rightarrow> privAddress plainCrypto (privs ! 0) \<noteq> val_Address (Validators vals ! 0)"
  by code_simp

end
