(* ===== verification/BlockTrees.thy ===== *)
theory BlockTrees
  imports Validators
begin

text \<open>
  The block tree of types/block\_tree.go and the block set of types/block\_set.go. Every traversal of
  the tree is the code's own work-queue loop with fuel; for a well-formed tree as much fuel as the
  tree has nodes is enough, and the traversal is in level order.
\<close>

section \<open>Block sets\<close>

definition NewBlockSet :: BlockSet where
  "NewBlockSet = \<lparr>bs_blocks = []\<rparr>"

definition BlockSet_QueryBlockByHash :: "Heap \<Rightarrow> BlockSet \<Rightarrow> bytes \<Rightarrow> addr option" where
  "BlockSet_QueryBlockByHash h bs hash = List.find (\<lambda>a. bytes_of (BlockHash (blocks h a)) = hash) (bs_blocks bs)"

definition BlockSet_AddBlock :: "BlockSet \<Rightarrow> addr \<Rightarrow> BlockSet" where
  "BlockSet_AddBlock bs b = bs\<lparr>bs_blocks := bs_blocks bs @ [b]\<rparr>"

definition BlockSet_AddBlocks :: "BlockSet \<Rightarrow> addr list \<Rightarrow> BlockSet" where
  "BlockSet_AddBlocks bs bl = bs\<lparr>bs_blocks := bs_blocks bs @ bl\<rparr>"

text \<open>Removal is by pointer: the query map is keyed by the address.\<close>

definition RemoveBlocks :: "BlockSet \<Rightarrow> addr list \<Rightarrow> BlockSet" where
  "RemoveBlocks bs bl =
     (let queryMap = foldl (\<lambda>m b. m(b \<mapsto> ())) Map.empty bl;
          newBlocks = foldl (\<lambda>acc b. if queryMap b = None then acc @ [b] else acc) [] (bs_blocks bs)
      in bs\<lparr>bs_blocks := newBlocks\<rparr>)"

definition BlockSet_Size :: "BlockSet \<Rightarrow> nat" where
  "BlockSet_Size bs = length (bs_blocks bs)"

definition BlockSet_ForEach :: "(addr \<Rightarrow> 'x \<Rightarrow> 'x) \<Rightarrow> BlockSet \<Rightarrow> 'x \<Rightarrow> 'x" where
  "BlockSet_ForEach lambda bs x = foldl (\<lambda>x b. lambda b x) x (bs_blocks bs)"

section \<open>Block trees\<close>

datatype treeErr = ErrDuplicatedBlock | ErrNoQueryBlock

definition NewBlockTree :: "addr \<Rightarrow> BlockTree" where
  "NewBlockTree genBlock =
     \<lparr>bt_nodes = [\<lparr>tn_parent = None, tn_children = [], tn_data = genBlock\<rparr>],
      bt_size = 1, bt_root = Some 0, bt_lastNode = 0\<rparr>"

fun queryNode_loop :: "Heap \<Rightarrow> treeNode list \<Rightarrow> bytes \<Rightarrow> nat \<Rightarrow> nat list \<Rightarrow> nat option res" where
  "queryNode_loop h ns hash fuel [] = Inr None"
| "queryNode_loop h ns hash 0 (cur # queue) = Inl NoFuel"
| "queryNode_loop h ns hash (Suc fuel) (cur # queue) =
     (if bytes_of (BlockHash (blocks h (tn_data (ns ! cur)))) = hash then Inr (Some cur)
      else queryNode_loop h ns hash fuel (queue @ tn_children (ns ! cur)))"

text \<open>\<^const>\<open>None\<close> is the error \<open>ErrNoQueryBlock\<close>.\<close>

definition queryNodeByHash :: "Heap \<Rightarrow> BlockTree \<Rightarrow> bytes \<Rightarrow> nat option res" where
  "queryNodeByHash h t hash = (case bt_root t of
      None \<Rightarrow> Inr None
    | Some root \<Rightarrow> queryNode_loop h (bt_nodes t) hash (length (bt_nodes t)) [root])"

definition QueryBlockByHash :: "Heap \<Rightarrow> BlockTree \<Rightarrow> bytes \<Rightarrow> addr option res" where
  "QueryBlockByHash h t hash = rbind (queryNodeByHash h t hash) (\<lambda>r.
     Inr (map_option (\<lambda>n. tn_data (bt_nodes t ! n)) r))"

text \<open>
  \<open>AddBlocks\<close>. Both the assignment under the slot test and the one after it set
  \<open>lastNode\<close>, as in the code.
\<close>

definition AddBlocks :: "Heap \<Rightarrow> bytes \<Rightarrow> addr \<Rightarrow> BlockTree \<Rightarrow> (BlockTree \<times> treeErr option) res" where
  "AddBlocks h parentHash data t =
     rbind (queryNodeByHash h t parentHash) (\<lambda>p. case p of
       None \<Rightarrow> Inr (t, Some ErrNoQueryBlock)
     | Some parent \<Rightarrow>
         rbind (queryNodeByHash h t (bytes_of (BlockHash (blocks h data)))) (\<lambda>d. case d of
           Some n \<Rightarrow> Inr (t, Some ErrDuplicatedBlock)
         | None \<Rightarrow>
             let ns = bt_nodes t;
                 newNode = \<lparr>tn_parent = Some parent, tn_children = [], tn_data = data\<rparr>;
                 new = length ns;
                 last1 = (if Greater (Slot (blocks h data)) (Slot (blocks h (tn_data (ns ! bt_lastNode t))))
                          then new else bt_lastNode t);
                 last2 = new
             in Inr (t\<lparr>bt_nodes := ns[parent := (ns ! parent)\<lparr>tn_children := tn_children (ns ! parent) @ [new]\<rparr>] @ [newNode],
                       bt_lastNode := last2, bt_size := bt_size t + 1\<rparr>, None)))"

fun isAncestor_loop :: "treeNode list \<Rightarrow> nat \<Rightarrow> nat \<Rightarrow> nat option \<Rightarrow> bool res" where
  "isAncestor_loop ns tnode fuel None = Inr False"
| "isAncestor_loop ns tnode 0 (Some cur) = Inl NoFuel"
| "isAncestor_loop ns tnode (Suc fuel) (Some cur) =
     (if cur = tnode then Inr True else isAncestor_loop ns tnode fuel (tn_parent (ns ! cur)))"

definition isAncestor :: "treeNode list \<Rightarrow> nat \<Rightarrow> nat \<Rightarrow> bool res" where
  "isAncestor ns tnode other = isAncestor_loop ns tnode (length ns) (tn_parent (ns ! other))"

fun filter_loop :: "Heap \<Rightarrow> treeNode list \<Rightarrow> (Block \<Rightarrow> bool) \<Rightarrow> nat \<Rightarrow> nat option \<Rightarrow> addr list \<Rightarrow> addr list res" where
  "filter_loop h ns flt fuel None result = Inr result"
| "filter_loop h ns flt 0 (Some cur) result = Inl NoFuel"
| "filter_loop h ns flt (Suc fuel) (Some cur) result =
     (let data = tn_data (ns ! cur) in
      if BlockState (blocks h data) = CommittedBlock then Inr result
      else filter_loop h ns flt fuel (tn_parent (ns ! cur))
             (if flt (blocks h data) then result @ [data] else result))"

definition GetBlockByFilter :: "Heap \<Rightarrow> BlockTree \<Rightarrow> bytes \<Rightarrow> (Block \<Rightarrow> bool) \<Rightarrow> addr list res" where
  "GetBlockByFilter h t hash flt = rbind (queryNodeByHash h t hash) (\<lambda>r. case r of
      None \<Rightarrow> Inr []
    | Some endBlock \<Rightarrow> filter_loop h (bt_nodes t) flt (Suc (length (bt_nodes t))) (Some endBlock) [])"

fun latest_loop :: "Heap \<Rightarrow> treeNode list \<Rightarrow> nat \<Rightarrow> nat list \<Rightarrow> nat \<Rightarrow> addr \<Rightarrow> addr res" where
  "latest_loop h ns fuel [] lastPrecommitNode lastSlotBlock = Inr lastSlotBlock"
| "latest_loop h ns 0 (cur # queue) lastPrecommitNode lastSlotBlock = Inl NoFuel"
| "latest_loop h ns (Suc fuel) (cur # queue) lastPrecommitNode lastSlotBlock =
     (let curBlock = blocks h (tn_data (ns ! cur)) in
      if BlockState curBlock = PrecommitBlock \<and> Greater (Slot curBlock) (Slot (blocks h (tn_data (ns ! lastPrecommitNode))))
      then latest_loop h ns fuel (queue @ tn_children (ns ! cur)) cur (tn_data (ns ! cur))
      else rbind (if Greater (Slot curBlock) (Slot (blocks h lastSlotBlock)) then isAncestor ns lastPrecommitNode cur
                  else Inr False) (\<lambda>newer.
           latest_loop h ns fuel (queue @ tn_children (ns ! cur)) lastPrecommitNode
             (if newer then tn_data (ns ! cur) else lastSlotBlock)))"

definition GetLatestBlock :: "Heap \<Rightarrow> BlockTree \<Rightarrow> addr res" where
  "GetLatestBlock h t = rbind (deref (bt_root t)) (\<lambda>root.
     latest_loop h (bt_nodes t) (length (bt_nodes t)) [root] root (tn_data (bt_nodes t ! root)))"

definition BlockTree_Size :: "BlockTree \<Rightarrow> int64" where
  "BlockTree_Size t = bt_size t"

definition GetRoot :: "BlockTree \<Rightarrow> addr res" where
  "GetRoot t = rbind (deref (bt_root t)) (\<lambda>root. Inr (tn_data (bt_nodes t ! root)))"

fun forEach_loop :: "(addr \<Rightarrow> 'x \<Rightarrow> 'x) \<Rightarrow> treeNode list \<Rightarrow> nat \<Rightarrow> nat list \<Rightarrow> 'x \<Rightarrow> 'x res" where
  "forEach_loop lambda ns fuel [] x = Inr x"
| "forEach_loop lambda ns 0 (cur # queue) x = Inl NoFuel"
| "forEach_loop lambda ns (Suc fuel) (cur # queue) x =
     forEach_loop lambda ns fuel (queue @ tn_children (ns ! cur)) (lambda (tn_data (ns ! cur)) x)"

definition BlockTree_ForEach :: "(addr \<Rightarrow> 'x \<Rightarrow> 'x) \<Rightarrow> BlockTree \<Rightarrow> 'x \<Rightarrow> 'x res" where
  "BlockTree_ForEach lambda t x = rbind (deref (bt_root t)) (\<lambda>root.
     forEach_loop lambda (bt_nodes t) (length (bt_nodes t)) [root] x)"

section \<open>Well-formed trees\<close>

text \<open>
  Node 0 is the root; the children of a node are distinct, have larger numbers and point back to
  it; every other node is a child of its parent.
\<close>

definition wf_nodes :: "treeNode list \<Rightarrow> bool" where
  "wf_nodes ns \<longleftrightarrow> ns \<noteq> [] \<and> tn_parent (ns ! 0) = None
    \<and> (\<forall>i < length ns. distinct (tn_children (ns ! i))
         \<and> (\<forall>c \<in> set (tn_children (ns ! i)). i < c \<and> c < length ns \<and> tn_parent (ns ! c) = Some i))
    \<and> (\<forall>i < length ns. 0 < i \<longrightarrow> (\<exists>p < i. tn_parent (ns ! i) = Some p \<and> i \<in> set (tn_children (ns ! p))))"

definition wf_tree :: "BlockTree \<Rightarrow> bool" where
  "wf_tree t \<longleftrightarrow> wf_nodes (bt_nodes t) \<and> bt_root t = Some 0 \<and> bt_lastNode t < length (bt_nodes t)
     \<and> bt_size t = of_nat (length (bt_nodes t))"

text \<open>The parent relation and, for specifications, proper descent.\<close>

definition parent_rel :: "treeNode list \<Rightarrow> (nat \<times> nat) set" where
  "parent_rel ns = {(c, p). c < length ns \<and> tn_parent (ns ! c) = Some p}"

definition descends :: "treeNode list \<Rightarrow> nat \<Rightarrow> nat \<Rightarrow> bool" where
  "descends ns d a \<longleftrightarrow> (d, a) \<in> (parent_rel ns)\<^sup>+"

text \<open>The reference traversal: the nodes in the order in which a work queue visits them.\<close>

fun bfs :: "treeNode list \<Rightarrow> nat \<Rightarrow> nat list \<Rightarrow> nat list res" where
  "bfs ns fuel [] = Inr []"
| "bfs ns 0 (c # q) = Inl NoFuel"
| "bfs ns (Suc fuel) (c # q) = rbind (bfs ns fuel (q @ tn_children (ns ! c))) (\<lambda>vs. Inr (c # vs))"

definition parents_first :: "treeNode list \<Rightarrow> nat list \<Rightarrow> bool" where
  "parents_first ns xs \<longleftrightarrow>
     (\<forall>ys c zs. xs = ys @ c # zs \<longrightarrow> (\<forall>p. tn_parent (ns ! c) = Some p \<longrightarrow> p \<in> set ys))"

definition level_order :: "treeNode list \<Rightarrow> nat list" where
  "level_order ns = (case bfs ns (length ns) [0] of Inr vs \<Rightarrow> vs | Inl _ \<Rightarrow> [])"

end
