(* ===== verification/BlockTreeFacts.thy ===== *)
theory BlockTreeFacts
  imports BlockTrees
begin

text \<open>
  Correctness of the block tree and the block set: the traversals terminate and visit every node once,
  parents before children; look-up by hash is a search in that order; insertion keeps the
  tree well formed; the latest block is the newest descendant of the newest pre-committed
  block.
\<close>

section \<open>Structure of well-formed trees\<close>

lemma wf_nodes_nonempty: "wf_nodes ns \<Longrightarrow> ns \<noteq> []"
  unfolding wf_nodes_def by (elim conjE)

lemma wf_nodes_root: "wf_nodes ns \<Longrightarrow> tn_parent (ns ! 0) = None"
  unfolding wf_nodes_def by blast

lemma wf_nodes_distinct: "wf_nodes ns \<Longrightarrow> i < length ns \<Longrightarrow> distinct (tn_children (ns ! i))"
  unfolding wf_nodes_def by blast

lemma wf_nodes_child:
  assumes "wf_nodes ns" "i < length ns" "c \<in> set (tn_children (ns ! i))"
  shows "i < c" "c < length ns" "tn_parent (ns ! c) = Some i"
  using assms unfolding wf_nodes_def by blast+

lemma wf_nodes_has_parent:
  assumes "wf_nodes ns" "i < length ns" "0 < i"
  obtains p where "p < i" "tn_parent (ns ! i) = Some p" "i \<in> set (tn_children (ns ! p))"
  using assms unfolding wf_nodes_def by blast

lemma wf_nodes_root_only: "wf_nodes ns \<Longrightarrow> i < length ns \<Longrightarrow> tn_parent (ns ! i) = None \<longleftrightarrow> i = 0"
  by (metis gr0I option.distinct(1) wf_nodes_has_parent wf_nodes_root)

lemma wf_nodes_parent:
  assumes "wf_nodes ns" "i < length ns" "tn_parent (ns ! i) = Some p"
  shows "p < i" "i \<in> set (tn_children (ns ! p))"
proof -
  have "0 < i" using assms wf_nodes_root [OF assms(1)] by (metis gr0I option.distinct(1))
  then show "p < i" "i \<in> set (tn_children (ns ! p))"
    using wf_nodes_has_parent [OF assms(1,2)] assms(3) by (metis option.inject)+
qed

lemma parent_rel_less: "wf_nodes ns \<Longrightarrow> (c, p) \<in> parent_rel ns \<Longrightarrow> p < c"
  by (auto simp: parent_rel_def dest: wf_nodes_parent)

lemma descends_less:
  assumes "wf_nodes ns" "descends ns d a"
  shows "a < d \<and> d < length ns"
  using assms(2) unfolding descends_def
proof (induction rule: trancl_induct)
  case (base y)
  then show ?case using parent_rel_less [OF assms(1)] by (auto simp: parent_rel_def)
next
  case (step y z)
  then show ?case using parent_rel_less [OF assms(1), of y z] by auto
qed

lemma descends_step:
  "d < length ns \<Longrightarrow> tn_parent (ns ! d) = Some p \<Longrightarrow> descends ns d a \<longleftrightarrow> a = p \<or> descends ns p a"
  unfolding descends_def parent_rel_def
  by (subst trancl_unfold_left) (auto intro: tranclD2 elim: rtranclE simp: rtrancl_eq_or_trancl)

lemma descends_root: "wf_nodes ns \<Longrightarrow> \<not> descends ns 0 a"
  by (auto dest: descends_less)

section \<open>The level-order traversal\<close>

definition bfs_inv :: "treeNode list \<Rightarrow> nat list \<Rightarrow> nat list \<Rightarrow> bool" where
  "bfs_inv ns V q \<longleftrightarrow> distinct (V @ q) \<and> set (V @ q) \<subseteq> {..<length ns} \<and> 0 \<in> set (V @ q)
     \<and> (\<forall>c \<in> set (V @ q). \<forall>p. tn_parent (ns ! c) = Some p \<longrightarrow> p \<in> set V)
     \<and> (\<forall>v \<in> set V. set (tn_children (ns ! v)) \<subseteq> set (V @ q)) \<and> parents_first ns V"

lemma parents_first_snoc:
  "parents_first ns (V @ [c]) \<longleftrightarrow> parents_first ns V \<and> (\<forall>p. tn_parent (ns ! c) = Some p \<longrightarrow> p \<in> set V)"
proof
  assume *: "parents_first ns (V @ [c])"
  show "parents_first ns V \<and> (\<forall>p. tn_parent (ns ! c) = Some p \<longrightarrow> p \<in> set V)"
  proof
    show "parents_first ns V" unfolding parents_first_def
    proof (intro allI impI)
      fix ys d zs p assume "V = ys @ d # zs" "tn_parent (ns ! d) = Some p"
      with * show "p \<in> set ys" by (auto simp: parents_first_def)
    qed
    show "\<forall>p. tn_parent (ns ! c) = Some p \<longrightarrow> p \<in> set V" using * by (auto simp: parents_first_def)
  qed
next
  assume *: "parents_first ns V \<and> (\<forall>p. tn_parent (ns ! c) = Some p \<longrightarrow> p \<in> set V)"
  show "parents_first ns (V @ [c])" unfolding parents_first_def
  proof (intro allI impI)
    fix ys d zs p assume eq: "V @ [c] = ys @ d # zs" and p: "tn_parent (ns ! d) = Some p"
    show "p \<in> set ys"
    proof (cases zs rule: rev_cases)
      case Nil with eq p * show ?thesis by simp
    next
      case (snoc us u)
      with eq have "V = ys @ d # us" by simp
      with * p show ?thesis by (auto simp: parents_first_def)
    qed
  qed
qed

lemma bfs_inv_step:
  assumes wf: "wf_nodes ns" and inv: "bfs_inv ns V (c # q)"
  shows "bfs_inv ns (V @ [c]) (q @ tn_children (ns ! c))"
proof -
  let ?ch = "tn_children (ns ! c)"
  have c: "c < length ns" "c \<notin> set V" using inv by (auto simp: bfs_inv_def)
  have new: "d \<notin> set (V @ c # q)" if "d \<in> set ?ch" for d
  proof
    assume "d \<in> set (V @ c # q)"
    moreover have "tn_parent (ns ! d) = Some c" using wf_nodes_child [OF wf c(1) that] by simp
    ultimately have "c \<in> set V" using inv unfolding bfs_inv_def by blast
    with c show False by simp
  qed
  have "distinct ?ch" using wf_nodes_distinct [OF wf c(1)] .
  moreover have "parents_first ns (V @ [c])"
    using inv by (auto simp: parents_first_snoc bfs_inv_def)
  moreover have "set ?ch \<subseteq> {..<length ns}" using wf_nodes_child(2) [OF wf c(1)] by blast
  moreover have "p \<in> set (V @ [c])" if "d \<in> set (V @ c # q @ ?ch)" "tn_parent (ns ! d) = Some p" for d p
  proof (cases "d \<in> set ?ch")
    case True
    then show ?thesis using wf_nodes_child(3) [OF wf c(1)] that(2) by simp
  next
    case False
    then have "d \<in> set (V @ c # q)" using that(1) by auto
    then have "p \<in> set V" using inv that(2) unfolding bfs_inv_def by blast
    then show ?thesis by simp
  qed
  moreover have "distinct (V @ c # q @ ?ch)"
    using inv calculation(1) new by (auto simp: bfs_inv_def)
  moreover have "v \<in> set (V @ [c]) \<Longrightarrow> set (tn_children (ns ! v)) \<subseteq> set (V @ c # q @ ?ch)" for v
    using inv by (auto simp: bfs_inv_def)
  moreover have "0 \<in> set (V @ c # q)" "set (V @ c # q) \<subseteq> {..<length ns}"
    using inv unfolding bfs_inv_def by blast+
  ultimately show ?thesis unfolding bfs_inv_def by auto
qed

lemma bfs_inv_complete:
  assumes wf: "wf_nodes ns" and inv: "bfs_inv ns V []"
  shows "set V = {..<length ns}"
proof -
  have "i \<in> set V" if "i < length ns" for i using that
  proof (induction i rule: less_induct)
    case (less i)
    show ?case
    proof (cases "i = 0")
      case True then show ?thesis using inv by (simp add: bfs_inv_def)
    next
      case False
      then obtain p where p: "p < i" "i \<in> set (tn_children (ns ! p))"
        using wf_nodes_has_parent [OF wf less.prems] by blast
      then have "p \<in> set V" using less by simp
      with p inv show ?thesis by (auto simp: bfs_inv_def)
    qed
  qed
  with inv show ?thesis by (auto simp: bfs_inv_def)
qed

lemma bfs_done:
  assumes wf: "wf_nodes ns" and inv: "bfs_inv ns V []"
  shows "\<exists>vs. bfs ns fuel [] = Inr vs \<and> distinct (V @ vs) \<and> set (V @ vs) = {..<length ns} \<and> parents_first ns (V @ vs)"
proof (intro exI [of _ "[]"])
  have "distinct V" "parents_first ns V" using inv unfolding bfs_inv_def by auto
  with bfs_inv_complete [OF wf inv] show "bfs ns fuel [] = Inr [] \<and> distinct (V @ [])
      \<and> set (V @ []) = {..<length ns} \<and> parents_first ns (V @ [])" by simp
qed

lemma bfs_total:
  assumes wf: "wf_nodes ns"
  shows "bfs_inv ns V q \<Longrightarrow> length ns \<le> length V + fuel \<Longrightarrow>
     \<exists>vs. bfs ns fuel q = Inr vs \<and> distinct (V @ vs) \<and> set (V @ vs) = {..<length ns} \<and> parents_first ns (V @ vs)"
proof (induction fuel arbitrary: V q)
  case 0
  then have "length (V @ q) \<le> length ns"
    by (intro length_distinct_le) (auto simp: bfs_inv_def)
  with 0 have q: "q = []" by (cases q) simp_all
  show ?case using bfs_done [OF wf] 0 unfolding q by blast
next
  case (Suc fuel)
  show ?case
  proof (cases q)
    case Nil
    show ?thesis using bfs_done [OF wf] Suc.prems unfolding Nil by blast
  next
    case (Cons c q')
    have inv: "bfs_inv ns (V @ [c]) (q' @ tn_children (ns ! c))"
      using bfs_inv_step [OF wf] Suc.prems(1) Cons by blast
    have "length ns \<le> length (V @ [c]) + fuel" using Suc.prems(2) by simp
    from Suc.IH [OF inv this] obtain vs where "bfs ns fuel (q' @ tn_children (ns ! c)) = Inr vs"
      "distinct ((V @ [c]) @ vs)" "set ((V @ [c]) @ vs) = {..<length ns}" "parents_first ns ((V @ [c]) @ vs)"
      by blast
    with Cons show ?thesis by (intro exI [of _ "c # vs"]) simp
  qed
qed

lemma bfs_inv_start: "wf_nodes ns \<Longrightarrow> bfs_inv ns [] [0]"
  by (simp add: bfs_inv_def wf_nodes_root wf_nodes_nonempty parents_first_def)

lemma level_order:
  assumes "wf_nodes ns"
  shows "bfs ns (length ns) [0] = Inr (level_order ns)" "distinct (level_order ns)"
    "set (level_order ns) = {..<length ns}" "parents_first ns (level_order ns)"
proof -
  obtain vs where vs: "bfs ns (length ns) [0] = Inr vs" "distinct vs" "set vs = {..<length ns}" "parents_first ns vs"
    using bfs_total [OF assms bfs_inv_start [OF assms], of "length ns"]
    by (simp only: append_Nil list.size add_0 order_refl simp_thms) blast
  then have "level_order ns = vs" by (simp add: level_order_def)
  with vs show "bfs ns (length ns) [0] = Inr (level_order ns)" "distinct (level_order ns)"
    "set (level_order ns) = {..<length ns}" "parents_first ns (level_order ns)" by simp_all
qed

lemma parents_first_descends:
  assumes "wf_nodes ns" "parents_first ns (V @ W)" "set V \<subseteq> {..<length ns}" "d \<in> set V" "descends ns d a"
  shows "a \<in> set V"
proof -
  have cl: "p \<in> set V" if "x \<in> set V" "(x, p) \<in> parent_rel ns" for x p
  proof -
    from that(1) obtain ys zs where "V = ys @ x # zs" by (auto simp: in_set_conv_decomp)
    with that(2) assms(2) show ?thesis by (auto simp: parents_first_def parent_rel_def)
  qed
  from assms(5) show ?thesis unfolding descends_def
    by (induction rule: trancl_induct) (auto intro: cl assms(4))
qed

section \<open>The code's traversals follow the level order\<close>

lemma queryNode_loop_bfs:
  "bfs ns fuel q = Inr vs \<Longrightarrow> queryNode_loop h ns hash fuel q
     = Inr (List.find (\<lambda>n. bytes_of (BlockHash (blocks h (tn_data (ns ! n)))) = hash) vs)"
  by (induction h ns hash fuel q arbitrary: vs rule: queryNode_loop.induct) auto

lemma forEach_loop_bfs:
  "bfs ns fuel q = Inr vs \<Longrightarrow>
     forEach_loop f ns fuel q x = Inr (foldl (\<lambda>x n. f (tn_data (ns ! n)) x) x vs)"
  by (induction f ns fuel q x arbitrary: vs rule: forEach_loop.induct) auto

definition node_hash :: "Heap \<Rightarrow> BlockTree \<Rightarrow> nat \<Rightarrow> bytes" where
  "node_hash h t n = bytes_of (BlockHash (blocks h (tn_data (bt_nodes t ! n))))"

lemma queryNodeByHash_find:
  "wf_tree t \<Longrightarrow> queryNodeByHash h t hash = Inr (List.find (\<lambda>n. node_hash h t n = hash) (level_order (bt_nodes t)))"
  using queryNode_loop_bfs [OF level_order(1), of "bt_nodes t"]
  by (simp add: wf_tree_def queryNodeByHash_def node_hash_def)

lemma BlockTree_ForEach_foldl:
  "wf_tree t \<Longrightarrow> BlockTree_ForEach f t x = Inr (foldl (\<lambda>x n. f (tn_data (bt_nodes t ! n)) x) x (level_order (bt_nodes t)))"
  using forEach_loop_bfs [OF level_order(1), of "bt_nodes t"]
  by (simp add: wf_tree_def BlockTree_ForEach_def)

lemma set_level_order: "wf_tree t \<Longrightarrow> set (level_order (bt_nodes t)) = {..<length (bt_nodes t)}"
  by (simp add: wf_tree_def level_order)

lemma queryNodeByHash_Some:
  assumes "wf_tree t" "queryNodeByHash h t hash = Inr (Some n)"
  shows "n < length (bt_nodes t)" "node_hash h t n = hash"
proof -
  from assms have "List.find (\<lambda>n. node_hash h t n = hash) (level_order (bt_nodes t)) = Some n"
    by (simp add: queryNodeByHash_find)
  from find_SomeD [OF this] show "n < length (bt_nodes t)" "node_hash h t n = hash"
    using set_level_order [OF assms(1)] by auto
qed

lemma queryNodeByHash_None:
  assumes "wf_tree t"
  shows "queryNodeByHash h t hash = Inr None \<longleftrightarrow> (\<forall>n < length (bt_nodes t). node_hash h t n \<noteq> hash)"
  using assms by (auto simp: queryNodeByHash_find find_None_iff set_level_order)

section \<open>Ancestors\<close>

lemma isAncestor_loop_descends:
  assumes wf: "wf_nodes ns"
  shows "i < length ns \<Longrightarrow> i \<le> fuel \<Longrightarrow>
    isAncestor_loop ns a fuel (tn_parent (ns ! i)) = Inr (descends ns i a)"
proof (induction fuel arbitrary: i)
  case 0
  then have "i = 0" by simp
  then show ?case using descends_root [OF wf] by (simp add: wf_nodes_root [OF wf])
next
  case (Suc fuel)
  show ?case
  proof (cases "tn_parent (ns ! i)")
    case None
    then have "i = 0" using wf_nodes_root_only [OF wf] Suc.prems by blast
    with None show ?thesis using descends_root [OF wf] by simp
  next
    case (Some p)
    then have "p < i" using wf_nodes_parent [OF wf] Suc.prems by blast
    then have "isAncestor_loop ns a fuel (tn_parent (ns ! p)) = Inr (descends ns p a)"
      using Suc by simp
    with Some show ?thesis using descends_step [OF Suc.prems(1) Some] by auto
  qed
qed

lemma isAncestor_descends:
  "wf_nodes ns \<Longrightarrow> i < length ns \<Longrightarrow> isAncestor ns a i = Inr (descends ns i a)"
  unfolding isAncestor_def by (rule isAncestor_loop_descends) auto

section \<open>The latest block\<close>

definition node_block :: "Heap \<Rightarrow> BlockTree \<Rightarrow> nat \<Rightarrow> Block" where
  "node_block h t n = blocks h (tn_data (bt_nodes t ! n))"

text \<open>
  The rule of the code's comment: take the newest pre-committed block (the root if there is none), then
  the newest among it and its descendants.
\<close>

definition latest_in :: "Heap \<Rightarrow> treeNode list \<Rightarrow> nat set \<Rightarrow> nat \<Rightarrow> nat \<Rightarrow> bool" where
  "latest_in h ns V P k \<longleftrightarrow>
     (let slot = (\<lambda>i. Slot (blocks h (tn_data (ns ! i))));
          precommit = (\<lambda>i. BlockState (blocks h (tn_data (ns ! i))) = PrecommitBlock)
      in (P = 0 \<or> P \<in> V \<and> precommit P) \<and> (\<forall>q \<in> V. precommit q \<longrightarrow> Greater (slot P) (slot q))
       \<and> (k = P \<or> k \<in> V \<and> descends ns k P) \<and> Greater (slot k) (slot P)
       \<and> (\<forall>d \<in> V. descends ns d P \<longrightarrow> Greater (slot k) (slot d)))"

lemma latest_in_start: "latest_in h ns {} 0 0"
  by (simp add: latest_in_def)

lemma latest_in_precommit:
  assumes inv: "latest_in h ns V P k" and fresh: "\<forall>d \<in> V. \<not> descends ns d c" "\<not> descends ns c c"
    and new: "BlockState (blocks h (tn_data (ns ! c))) = PrecommitBlock"
      "Greater (Slot (blocks h (tn_data (ns ! c)))) (Slot (blocks h (tn_data (ns ! P))))"
  shows "latest_in h ns (insert c V) c c"
  using assms Greater_trans unfolding latest_in_def Let_def by (blast intro: Greater_refl)

lemma latest_in_other:
  assumes inv: "latest_in h ns V P k"
    and old: "\<not> (BlockState (blocks h (tn_data (ns ! c))) = PrecommitBlock
      \<and> Greater (Slot (blocks h (tn_data (ns ! c)))) (Slot (blocks h (tn_data (ns ! P)))))"
  shows "latest_in h ns (insert c V) P
     (if Greater (Slot (blocks h (tn_data (ns ! c)))) (Slot (blocks h (tn_data (ns ! k)))) \<and> descends ns c P then c else k)"
proof (cases "Greater (Slot (blocks h (tn_data (ns ! c)))) (Slot (blocks h (tn_data (ns ! k)))) \<and> descends ns c P")
  case True
  then have "latest_in h ns (insert c V) P c"
    using inv old unfolding latest_in_def Let_def Greater_def by fastforce
  with True show ?thesis by simp
next
  case False
  then have "latest_in h ns (insert c V) P k"
    using inv old unfolding latest_in_def Let_def Greater_def by fastforce
  with False show ?thesis by (simp only: if_False)
qed

lemma latest_loop_spec:
  assumes wf: "wf_nodes ns"
  shows "bfs ns fuel q = Inr vs \<Longrightarrow> distinct (V @ vs) \<Longrightarrow> set (V @ vs) \<subseteq> {..<length ns} \<Longrightarrow>
    parents_first ns (V @ vs) \<Longrightarrow> latest_in h ns (set V) P k \<Longrightarrow>
    \<exists>P' k'. latest_loop h ns fuel q P (tn_data (ns ! k)) = Inr (tn_data (ns ! k')) \<and> latest_in h ns (set (V @ vs)) P' k'"
proof (induction fuel arbitrary: q vs V P k)
  case 0
  then show ?case by (cases q) auto
next
  case (Suc fuel)
  show ?case
  proof (cases q)
    case Nil
    with Suc.prems show ?thesis by auto
  next
    case (Cons c q')
    then obtain ws where ws: "bfs ns fuel (q' @ tn_children (ns ! c)) = Inr ws" "vs = c # ws"
      using Suc.prems(1) by auto
    let ?slot = "\<lambda>i. Slot (blocks h (tn_data (ns ! i)))"
    have c: "c < length ns" "c \<notin> set V" using Suc.prems(2,3) ws(2) by auto
    have IH: "\<exists>P' k'. latest_loop h ns fuel (q' @ tn_children (ns ! c)) P1 (tn_data (ns ! k1)) = Inr (tn_data (ns ! k'))
        \<and> latest_in h ns (set (V @ vs)) P' k'" if "latest_in h ns (insert c (set V)) P1 k1" for P1 k1
      using Suc.IH [OF ws(1), of "V @ [c]" P1 k1] Suc.prems ws(2) that by simp
    show ?thesis
    proof (cases "BlockState (blocks h (tn_data (ns ! c))) = PrecommitBlock \<and> Greater (?slot c) (?slot P)")
      case True
      have "\<forall>d \<in> set V. \<not> descends ns d c"
        using parents_first_descends [OF wf Suc.prems(4)] Suc.prems(3) c by auto
      moreover have "\<not> descends ns c c" using descends_less [OF wf] by blast
      ultimately have "latest_in h ns (insert c (set V)) c c"
        using latest_in_precommit [OF Suc.prems(5)] True by blast
      from IH [OF this] show ?thesis using Cons True by simp
    next
      case False
      have anc: "isAncestor ns P c = Inr (descends ns c P)" using isAncestor_descends [OF wf c(1)] .
      show ?thesis using IH [OF latest_in_other [OF Suc.prems(5) False]] Cons False anc
        by (auto simp: Let_def split: if_splits)
    qed
  qed
qed

lemma GetLatestBlock_spec:
  assumes "wf_tree t"
  shows "\<exists>P k. GetLatestBlock h t = Inr (tn_data (bt_nodes t ! k)) \<and> latest_in h (bt_nodes t) {..<length (bt_nodes t)} P k"
proof -
  let ?ns = "bt_nodes t"
  have wf: "wf_nodes ?ns" and root: "bt_root t = Some 0" using assms by (simp_all add: wf_tree_def)
  note lo = level_order [OF wf]
  from latest_loop_spec [OF wf lo(1), of "[]" h 0 0] lo(2-4)
  obtain P k where "latest_loop h ?ns (length ?ns) [0] 0 (tn_data (?ns ! 0)) = Inr (tn_data (?ns ! k))"
    "latest_in h ?ns (set (level_order ?ns)) P k" using latest_in_start by auto
  then show ?thesis using root lo(3) by (auto simp: GetLatestBlock_def)
qed

lemma latest_in_valid: "latest_in h ns {..<length ns} P k \<Longrightarrow> ns \<noteq> [] \<Longrightarrow> k < length ns"
  by (auto simp: latest_in_def Let_def)

section \<open>Insertion\<close>

lemma wf_NewBlockTree: "wf_tree (NewBlockTree g)"
  by (simp add: wf_tree_def NewBlockTree_def wf_nodes_def)

definition add_node :: "nat \<Rightarrow> addr \<Rightarrow> treeNode list \<Rightarrow> treeNode list" where
  "add_node parent data ns =
     ns[parent := (ns ! parent)\<lparr>tn_children := tn_children (ns ! parent) @ [length ns]\<rparr>]
     @ [\<lparr>tn_parent = Some parent, tn_children = [], tn_data = data\<rparr>]"

lemma length_add_node [simp]: "length (add_node p a ns) = Suc (length ns)"
  by (simp add: add_node_def)

lemma nth_add_node:
  "p < length ns \<Longrightarrow> i \<le> length ns \<Longrightarrow> add_node p a ns ! i =
     (if i = length ns then \<lparr>tn_parent = Some p, tn_children = [], tn_data = a\<rparr>
      else if i = p then (ns ! p)\<lparr>tn_children := tn_children (ns ! p) @ [length ns]\<rparr> else ns ! i)"
  by (auto simp: add_node_def nth_append)

lemma wf_add_node:
  assumes wf: "wf_nodes ns" and p: "p < length ns"
  shows "wf_nodes (add_node p a ns)"
  unfolding wf_nodes_def
proof (intro conjI allI impI ballI)
  show "add_node p a ns \<noteq> []" by (simp add: add_node_def)
  show "tn_parent (add_node p a ns ! 0) = None"
    using p wf_nodes_root [OF wf] by (auto simp: nth_add_node)
next
  fix i assume i: "i < length (add_node p a ns)"
  have less: "c < length ns" if "c \<in> set (tn_children (ns ! p))" for c
    using wf_nodes_child(2) [OF wf p that] .
  show "distinct (tn_children (add_node p a ns ! i))"
    using i p wf_nodes_distinct [OF wf] less by (auto simp: nth_add_node)
  fix c assume c: "c \<in> set (tn_children (add_node p a ns ! i))"
  have i': "i < length ns" using i c p by (auto simp: nth_add_node split: if_splits)
  consider "c = length ns" "i = p" | "c \<in> set (tn_children (ns ! i))"
    using i' c p by (auto simp: nth_add_node split: if_splits)
  then have "i < c \<and> c < Suc (length ns) \<and> tn_parent (add_node p a ns ! c) = Some i"
  proof cases
    case 2
    with wf_nodes_child [OF wf i' this] p show ?thesis by (auto simp: nth_add_node)
  qed (use p in \<open>auto simp: nth_add_node\<close>)
  then show "i < c" "c < length (add_node p a ns)" "tn_parent (add_node p a ns ! c) = Some i" by simp_all
next
  fix i assume i: "i < length (add_node p a ns)" "0 < i"
  show "\<exists>q<i. tn_parent (add_node p a ns ! i) = Some q \<and> i \<in> set (tn_children (add_node p a ns ! q))"
  proof (cases "i = length ns")
    case True
    with p show ?thesis by (intro exI [of _ p]) (auto simp: nth_add_node)
  next
    case False
    then have "i < length ns" using i by simp
    then obtain q where q: "q < i" "tn_parent (ns ! i) = Some q" "i \<in> set (tn_children (ns ! q))"
      using wf_nodes_has_parent [OF wf _ i(2)] by blast
    with p \<open>i < length ns\<close> show ?thesis by (intro exI [of _ q]) (auto simp: nth_add_node)
  qed
qed

lemma AddBlocks_cases:
  assumes "wf_tree t"
  shows "(\<forall>n < length (bt_nodes t). node_hash h t n \<noteq> parentHash)
       \<and> AddBlocks h parentHash data t = Inr (t, Some ErrNoQueryBlock)
   \<or> (\<exists>n < length (bt_nodes t). node_hash h t n = bytes_of (BlockHash (blocks h data)))
       \<and> AddBlocks h parentHash data t = Inr (t, Some ErrDuplicatedBlock)
   \<or> (\<exists>p < length (bt_nodes t). node_hash h t p = parentHash
       \<and> (\<forall>n < length (bt_nodes t). node_hash h t n \<noteq> bytes_of (BlockHash (blocks h data)))
       \<and> AddBlocks h parentHash data t = Inr (t\<lparr>bt_nodes := add_node p data (bt_nodes t),
            bt_lastNode := length (bt_nodes t), bt_size := bt_size t + 1\<rparr>, None))"
proof (cases "queryNodeByHash h t parentHash")
  case (Inl e)
  with queryNodeByHash_find [OF assms, of h parentHash] show ?thesis by simp
next
  case (Inr r)
  show ?thesis
  proof (cases r)
    case None
    with Inr queryNodeByHash_None [OF assms, of h parentHash] show ?thesis by (simp add: AddBlocks_def)
  next
    case (Some p)
    note P = queryNodeByHash_Some [OF assms Inr [unfolded Some]]
    let ?bh = "bytes_of (BlockHash (blocks h data))"
    obtain d where d: "queryNodeByHash h t ?bh = Inr d" using queryNodeByHash_find [OF assms] by blast
    show ?thesis
    proof (cases d)
      case None
      with d queryNodeByHash_None [OF assms, of h ?bh] P Inr Some show ?thesis
        by (auto simp: AddBlocks_def add_node_def Let_def)
    next
      case (Some n)
      with d queryNodeByHash_Some [OF assms, of h ?bh n] Inr \<open>r = Some p\<close> show ?thesis
        by (auto simp: AddBlocks_def)
    qed
  qed
qed

lemma AddBlocks_total: "wf_tree t \<Longrightarrow> \<exists>t' err. AddBlocks h parentHash data t = Inr (t', err)"
  using AddBlocks_cases [of t h parentHash data] by blast

lemma wf_AddBlocks:
  assumes "wf_tree t" "AddBlocks h parentHash data t = Inr (t', err)"
  shows "wf_tree t'"
  using AddBlocks_cases [OF assms(1), of h parentHash data] assms wf_add_node
  by (auto simp: wf_tree_def)

section \<open>Paths to the root\<close>

text \<open>A node followed by its ancestors, nearest first.\<close>

function up :: "treeNode list \<Rightarrow> nat \<Rightarrow> nat list" where
  "up ns i = i # (case tn_parent (ns ! i) of None \<Rightarrow> [] | Some p \<Rightarrow> if p < i then up ns p else [])"
  by pat_completeness auto
termination by (relation "measure snd") auto

declare up.simps [simp del]

lemma up_None: "tn_parent (ns ! i) = None \<Longrightarrow> up ns i = [i]"
  by (subst up.simps) simp

lemma up_Some: "wf_nodes ns \<Longrightarrow> i < length ns \<Longrightarrow> tn_parent (ns ! i) = Some p \<Longrightarrow> up ns i = i # up ns p"
  by (subst up.simps) (simp add: wf_nodes_parent(1))

lemma set_up:
  assumes "wf_nodes ns"
  shows "i < length ns \<Longrightarrow> set (up ns i) = insert i {a. descends ns i a}"
proof (induction i rule: less_induct)
  case (less i)
  show ?case
  proof (cases "tn_parent (ns ! i)")
    case None
    then have "i = 0" using wf_nodes_root_only [OF assms less.prems] by simp
    then show ?thesis using None descends_root [OF assms] by (simp add: up_None)
  next
    case (Some p)
    then have "p < i" using wf_nodes_parent [OF assms less.prems] by blast
    with less Some show ?thesis
      using descends_step [OF less.prems Some] by (auto simp: up_Some [OF assms less.prems Some])
  qed
qed

lemma filter_loop_up:
  assumes wf: "wf_nodes ns"
  shows "i < length ns \<Longrightarrow> i < fuel \<Longrightarrow> filter_loop h ns flt fuel (Some i) result = Inr (result @
     map (\<lambda>n. tn_data (ns ! n)) (filter (\<lambda>n. flt (blocks h (tn_data (ns ! n))))
       (takeWhile (\<lambda>n. BlockState (blocks h (tn_data (ns ! n))) \<noteq> CommittedBlock) (up ns i))))"
proof (induction fuel arbitrary: i result)
  case (Suc fuel)
  show ?case
  proof (cases "tn_parent (ns ! i)")
    case None
    then show ?thesis by (simp add: Let_def up_None)
  next
    case (Some p)
    then have "p < i" using wf_nodes_parent [OF wf Suc.prems(1)] by blast
    with Suc Some show ?thesis by (simp add: Let_def up_Some [OF wf Suc.prems(1) Some])
  qed
qed simp

lemma GetBlockByFilter_up:
  assumes "wf_tree t" "queryNodeByHash h t hash = Inr (Some n)"
  shows "GetBlockByFilter h t hash flt = Inr (map (\<lambda>n. tn_data (bt_nodes t ! n))
     (filter (\<lambda>n. flt (node_block h t n)) (takeWhile (\<lambda>n. BlockState (node_block h t n) \<noteq> CommittedBlock) (up (bt_nodes t) n))))"
proof -
  have "wf_nodes (bt_nodes t)" using assms(1) by (simp add: wf_tree_def)
  from filter_loop_up [OF this, of n "Suc (length (bt_nodes t))"] queryNodeByHash_Some [OF assms] assms(2)
  show ?thesis by (simp add: GetBlockByFilter_def node_block_def del: filter_loop.simps)
qed

section \<open>The tree as an index of blocks by hash\<close>

text \<open>
  The contract a client of the tree relies on: look-up always answers, what it finds has the hash asked
  for, and an insertion that succeeds changes the answer for the hash of the new block and for no
  other.
\<close>

locale block_index =
  fixes invar :: "Heap \<Rightarrow> 't \<Rightarrow> bool"
    and query :: "Heap \<Rightarrow> 't \<Rightarrow> bytes \<Rightarrow> addr option res"
    and insertion :: "Heap \<Rightarrow> bytes \<Rightarrow> addr \<Rightarrow> 't \<Rightarrow> ('t \<times> 'e option) res"
  assumes query_total: "invar h t \<Longrightarrow> \<exists>r. query h t x = Inr r"
    and query_hash: "invar h t \<Longrightarrow> query h t x = Inr (Some a) \<Longrightarrow> bytes_of (BlockHash (blocks h a)) = x"
    and insertion_total: "invar h t \<Longrightarrow> \<exists>t' err. insertion h x a t = Inr (t', err)"
    and insertion_fails: "invar h t \<Longrightarrow> insertion h x a t = Inr (t', Some err) \<Longrightarrow> t' = t"
    and insertion_invar: "invar h t \<Longrightarrow> insertion h x a t = Inr (t', None) \<Longrightarrow> invar h t'"
    and insertion_query: "invar h t \<Longrightarrow> insertion h x a t = Inr (t', None) \<Longrightarrow>
          query h t' y = (if y = bytes_of (BlockHash (blocks h a)) then Inr (Some a) else query h t y)"
    and insertion_ok_iff: "invar h t \<Longrightarrow> (\<exists>t'. insertion h x a t = Inr (t', None)) \<longleftrightarrow>
          query h t x \<noteq> Inr None \<and> query h t (bytes_of (BlockHash (blocks h a))) = Inr None"
begin

lemma insertion_keeps_invar: "invar h t \<Longrightarrow> insertion h x a t = Inr (t', err) \<Longrightarrow> invar h t'"
  using insertion_fails insertion_invar by (cases err) fastforce+

text \<open>Nothing that was found is lost or changed.\<close>

lemma query_monotone:
  assumes "invar h t" "insertion h x a t = Inr (t', err)" "query h t y = Inr (Some b)"
  shows "query h t' y = Inr (Some b)"
proof (cases err)
  case None
  then have "query h t (bytes_of (BlockHash (blocks h a))) = Inr None"
    using insertion_ok_iff assms(1,2) by blast
  then show ?thesis using insertion_query [OF assms(1)] assms None by auto
next
  case (Some e)
  then show ?thesis using insertion_fails assms by blast
qed

text \<open>A block is inserted at most once.\<close>

lemma insertion_once:
  assumes "invar h t" "insertion h x a t = Inr (t', None)"
    "bytes_of (BlockHash (blocks h b)) = bytes_of (BlockHash (blocks h a))"
  shows "\<exists>err. insertion h y b t' = Inr (t', Some err)"
proof -
  have inv: "invar h t'" using insertion_invar assms(1,2) .
  have "query h t' (bytes_of (BlockHash (blocks h b))) = Inr (Some a)"
    using insertion_query [OF assms(1,2)] assms(3) by simp
  then have "\<nexists>t''. insertion h y b t' = Inr (t'', None)" using insertion_ok_iff [OF inv] by simp
  moreover obtain t'' err where "insertion h y b t' = Inr (t'', err)" using insertion_total [OF inv] by blast
  ultimately show ?thesis using insertion_fails [OF inv] by (cases err) blast+
qed

end

definition unique_hashes :: "Heap \<Rightarrow> BlockTree \<Rightarrow> bool" where
  "unique_hashes h t \<longleftrightarrow> inj_on (node_hash h t) {..<length (bt_nodes t)}"

definition tree_invar :: "Heap \<Rightarrow> BlockTree \<Rightarrow> bool" where
  "tree_invar h t \<longleftrightarrow> wf_tree t \<and> unique_hashes h t"

lemma queryNodeByHash_unique:
  assumes "tree_invar h t" "n < length (bt_nodes t)"
  shows "queryNodeByHash h t (node_hash h t n) = Inr (Some n)"
proof -
  have "List.find (\<lambda>m. node_hash h t m = node_hash h t n) (level_order (bt_nodes t)) = Some n"
    using assms set_level_order [of t]
    by (intro find_unique) (auto simp: tree_invar_def unique_hashes_def inj_on_def)
  then show ?thesis using assms by (simp add: tree_invar_def queryNodeByHash_find)
qed

lemma QueryBlockByHash_total: "wf_tree t \<Longrightarrow> \<exists>r. QueryBlockByHash h t x = Inr r"
  by (simp add: QueryBlockByHash_def queryNodeByHash_find)

lemma QueryBlockByHash_None_iff:
  "wf_tree t \<Longrightarrow> QueryBlockByHash h t x = Inr None \<longleftrightarrow> (\<forall>n < length (bt_nodes t). node_hash h t n \<noteq> x)"
  using queryNodeByHash_None [of t h x] by (auto simp: QueryBlockByHash_def)

lemma QueryBlockByHash_Some_iff:
  assumes "tree_invar h t"
  shows "QueryBlockByHash h t x = Inr (Some a) \<longleftrightarrow>
    (\<exists>n < length (bt_nodes t). node_hash h t n = x \<and> a = tn_data (bt_nodes t ! n))"
proof
  assume "QueryBlockByHash h t x = Inr (Some a)"
  then obtain n where "queryNodeByHash h t x = Inr (Some n)" "a = tn_data (bt_nodes t ! n)"
    by (auto simp: QueryBlockByHash_def)
  then show "\<exists>n < length (bt_nodes t). node_hash h t n = x \<and> a = tn_data (bt_nodes t ! n)"
    using queryNodeByHash_Some [of t h x n] assms by (auto simp: tree_invar_def)
next
  assume "\<exists>n < length (bt_nodes t). node_hash h t n = x \<and> a = tn_data (bt_nodes t ! n)"
  then show "QueryBlockByHash h t x = Inr (Some a)"
    using queryNodeByHash_unique [OF assms] by (auto simp: QueryBlockByHash_def)
qed

lemma tn_data_add_node:
  "p < length ns \<Longrightarrow> i \<le> length ns \<Longrightarrow> tn_data (add_node p a ns ! i) = (if i = length ns then a else tn_data (ns ! i))"
  by (simp add: nth_add_node)

lemma AddBlocks_ok:
  assumes "wf_tree t" "AddBlocks h x a t = Inr (t', None)"
  obtains p where "p < length (bt_nodes t)" "node_hash h t p = x" "bt_nodes t' = add_node p a (bt_nodes t)"
    "\<forall>n < length (bt_nodes t). node_hash h t n \<noteq> bytes_of (BlockHash (blocks h a))"
  using AddBlocks_cases [OF assms(1), of h x a] assms(2) by auto

lemma node_hash_AddBlocks:
  assumes "wf_tree t" "AddBlocks h x a t = Inr (t', None)" "i \<le> length (bt_nodes t)"
  shows "node_hash h t' i = (if i = length (bt_nodes t) then bytes_of (BlockHash (blocks h a)) else node_hash h t i)"
proof -
  obtain p where "p < length (bt_nodes t)" "bt_nodes t' = add_node p a (bt_nodes t)"
    using AddBlocks_ok [OF assms(1,2)] by blast
  with assms(3) show ?thesis by (simp add: node_hash_def tn_data_add_node)
qed

lemma unique_AddBlocks:
  assumes "tree_invar h t" "AddBlocks h x a t = Inr (t', None)"
  shows "unique_hashes h t'"
proof -
  have wf: "wf_tree t" using assms(1) by (simp add: tree_invar_def)
  obtain p where p: "bt_nodes t' = add_node p a (bt_nodes t)"
    "\<forall>n < length (bt_nodes t). node_hash h t n \<noteq> bytes_of (BlockHash (blocks h a))"
    using AddBlocks_ok [OF wf assms(2)] by blast
  then have "length (bt_nodes t') = Suc (length (bt_nodes t))" by simp
  moreover have "inj_on (node_hash h t') {..<length (bt_nodes t)}"
    using assms(1) node_hash_AddBlocks [OF wf assms(2)] by (simp add: tree_invar_def unique_hashes_def inj_on_def)
  moreover have "node_hash h t' (length (bt_nodes t)) \<notin> node_hash h t' ` {..<length (bt_nodes t)}"
    using p(2) node_hash_AddBlocks [OF wf assms(2)] by fastforce
  ultimately show ?thesis by (simp add: unique_hashes_def lessThan_Suc)
qed

lemma QueryBlockByHash_AddBlocks:
  assumes inv: "tree_invar h t" and add: "AddBlocks h x a t = Inr (t', None)"
  shows "QueryBlockByHash h t' y = (if y = bytes_of (BlockHash (blocks h a)) then Inr (Some a) else QueryBlockByHash h t y)"
proof -
  have wf: "wf_tree t" using inv by (simp add: tree_invar_def)
  have wf': "wf_tree t'" using wf_AddBlocks [OF wf add] .
  have inv': "tree_invar h t'" using wf' unique_AddBlocks [OF inv add] by (simp add: tree_invar_def)
  obtain p where p: "p < length (bt_nodes t)" "bt_nodes t' = add_node p a (bt_nodes t)"
    using AddBlocks_ok [OF wf add] by blast
  have data: "\<And>i. i \<le> length (bt_nodes t) \<Longrightarrow> tn_data (bt_nodes t' ! i) = (if i = length (bt_nodes t) then a else tn_data (bt_nodes t ! i))"
    using p by (simp add: tn_data_add_node)
  note hash = node_hash_AddBlocks [OF wf add]
  have some: "QueryBlockByHash h t' y = Inr (Some b) \<longleftrightarrow> (y = bytes_of (BlockHash (blocks h a)) \<and> b = a)
      \<or> (\<exists>n < length (bt_nodes t). node_hash h t n = y \<and> b = tn_data (bt_nodes t ! n))" for b
    using hash data p(2) by (auto simp: QueryBlockByHash_Some_iff [OF inv'] less_Suc_eq)
  show ?thesis
  proof (cases "y = bytes_of (BlockHash (blocks h a))")
    case True then show ?thesis using some [of a] by simp
  next
    case False
    show ?thesis
    proof (cases "QueryBlockByHash h t y")
      case (Inr r)
      show ?thesis
      proof (cases r)
        case None
        then have "\<forall>n < length (bt_nodes t). node_hash h t n \<noteq> y" using Inr QueryBlockByHash_None_iff [OF wf] by simp
        then have "\<forall>n < length (bt_nodes t'). node_hash h t' n \<noteq> y" using False hash p(2) by (auto simp: less_Suc_eq)
        then have "QueryBlockByHash h t' y = Inr None" using QueryBlockByHash_None_iff [OF wf'] by simp
        then show ?thesis using Inr None False by simp
      next
        case (Some b)
        then show ?thesis using Inr False some [of b] QueryBlockByHash_Some_iff [OF inv, of y b] by auto
      qed
    qed (use QueryBlockByHash_total [OF wf, of h y] in auto)
  qed
qed

interpretation tree_index: block_index tree_invar QueryBlockByHash AddBlocks
proof
  fix h t x a t' y
  show "\<exists>r. QueryBlockByHash h t x = Inr r" if "tree_invar h t"
    using that QueryBlockByHash_total by (auto simp: tree_invar_def)
  show "bytes_of (BlockHash (blocks h a)) = x" if "tree_invar h t" "QueryBlockByHash h t x = Inr (Some a)"
    using that QueryBlockByHash_Some_iff by (auto simp: node_hash_def)
  show "\<exists>t' err. AddBlocks h x a t = Inr (t', err)" if "tree_invar h t"
    using that AddBlocks_total by (auto simp: tree_invar_def)
  show "t' = t" if "tree_invar h t" "AddBlocks h x a t = Inr (t', Some err)" for err
    using that AddBlocks_cases [of t h x a] by (auto simp: tree_invar_def)
  show "tree_invar h t'" if "tree_invar h t" "AddBlocks h x a t = Inr (t', None)"
    using that wf_AddBlocks unique_AddBlocks by (auto simp: tree_invar_def)
  show "QueryBlockByHash h t' y = (if y = bytes_of (BlockHash (blocks h a)) then Inr (Some a) else QueryBlockByHash h t y)"
    if "tree_invar h t" "AddBlocks h x a t = Inr (t', None)"
    using that by (rule QueryBlockByHash_AddBlocks)
  show "(\<exists>t'. AddBlocks h x a t = Inr (t', None)) \<longleftrightarrow>
      QueryBlockByHash h t x \<noteq> Inr None \<and> QueryBlockByHash h t (bytes_of (BlockHash (blocks h a))) = Inr None"
    if "tree_invar h t"
  proof -
    have wf: "wf_tree t" using that by (simp add: tree_invar_def)
    show ?thesis using AddBlocks_cases [OF wf, of h x a] QueryBlockByHash_None_iff [OF wf] by auto
  qed
qed

section \<open>Block sets\<close>

lemma queryMap_foldl: "foldl (\<lambda>m b. m(b \<mapsto> ())) m bl b = None \<longleftrightarrow> m b = None \<and> b \<notin> set bl"
  by (induction bl arbitrary: m) auto

lemma foldl_filter: "foldl (\<lambda>acc b. if P b then acc @ [b] else acc) acc xs = acc @ filter P xs"
  by (induction xs arbitrary: acc) auto

lemma RemoveBlocks_filter: "bs_blocks (RemoveBlocks bs bl) = filter (\<lambda>b. b \<notin> set bl) (bs_blocks bs)"
  by (simp add: RemoveBlocks_def queryMap_foldl foldl_filter cong: if_cong)

lemma BlockSet_QueryBlockByHash_Some:
  "BlockSet_QueryBlockByHash h bs x = Some a \<Longrightarrow> a \<in> set (bs_blocks bs) \<and> bytes_of (BlockHash (blocks h a)) = x"
  by (auto simp: BlockSet_QueryBlockByHash_def dest: find_SomeD)

end
