(* ===== verification/ChainState.thy ===== *)
theory ChainState
  imports BlockTreeFacts
begin

text \<open>
  The replicated state of state/state.go: the last committed block, the set of uncommitted blocks and
  the block tree, both held by pointer and shared by every copy of the state; the choice of the branch
  a proposal extends and of the blocks that may commit.
\<close>

section \<open>Model\<close>

record State =
  st_ChainID :: string
  InitialSlot :: LTime
  PubVal :: "Validator option"
  st_Validator :: "Validator option"
  st_Validators :: ValidatorSet
  LastBlockSlot :: LTime
  LastCommitedBlock :: "addr option"
  st_LastBlockHash :: bytes
  LastBlockTime :: Time
  UnCommitBlocks :: addr
  st_BlockTree :: "addr option"
  LastResultsHash :: bytes

definition NewState :: "string \<Rightarrow> LTime \<Rightarrow> Validator option \<Rightarrow> Validator option \<Rightarrow> ValidatorSet \<Rightarrow> Heap \<Rightarrow> State \<times> Heap" where
  "NewState chainID initialSlot val pub_val vals h =
     (let (s, h') = newSet NewBlockSet h in
      (\<lparr>st_ChainID = chainID, InitialSlot = initialSlot, PubVal = pub_val, st_Validator = val, st_Validators = vals,
        LastBlockSlot = 0, LastCommitedBlock = None, st_LastBlockHash = [], LastBlockTime = zeroTime,
        UnCommitBlocks = s, st_BlockTree = None, LastResultsHash = []\<rparr>, h'))"

definition MakeGenesisState :: "string \<Rightarrow> LTime \<Rightarrow> addr \<Rightarrow> Validator option \<Rightarrow> Validator option \<Rightarrow> ValidatorSet
    \<Rightarrow> Heap \<Rightarrow> State \<times> Heap" where
  "MakeGenesisState chainID initialSlot genesisBlock val pub_val vals h =
     (let (st, h1) = NewState chainID initialSlot val pub_val vals h;
          (t, h2) = newTree (NewBlockTree genesisBlock) h1
      in (st\<lparr>st_BlockTree := Some t\<rparr>, h2))"

text \<open>
  The fields \<open>Copy\<close> lists; \<open>LastCommitedBlock\<close> is not among them and is nil in the copy. The two
  pointers are copied, not what they point to.
\<close>

definition State_Copy :: "State \<Rightarrow> State" where
  "State_Copy st = \<lparr>st_ChainID = st_ChainID st, InitialSlot = InitialSlot st, PubVal = PubVal st,
     st_Validator = st_Validator st, st_Validators = st_Validators st, LastBlockSlot = LastBlockSlot st,
     LastCommitedBlock = None, st_LastBlockHash = st_LastBlockHash st, LastBlockTime = LastBlockTime st,
     UnCommitBlocks = UnCommitBlocks st, st_BlockTree = st_BlockTree st, LastResultsHash = LastResultsHash st\<rparr>"

definition stateTree :: "State \<Rightarrow> Heap \<Rightarrow> BlockTree res" where
  "stateTree st h = rbind (deref (st_BlockTree st)) (\<lambda>t. Inr (trees h t))"

definition isPrecommit :: "Block \<Rightarrow> bool" where
  "isPrecommit block = (if BlockState block = PrecommitBlock then True else False)"

definition NewBranch :: "('s, 'g) Crypto \<Rightarrow> State \<Rightarrow> Heap \<Rightarrow> (Heap \<times> addr \<times> addr list) res" where
  "NewBranch e st h =
     rbind (stateTree st h) (\<lambda>t.
     rbind (GetLatestBlock h t) (\<lambda>b.
     let (h', hash) = hashBlock e b h in
     rbind (GetBlockByFilter h' t hash isPrecommit) (\<lambda>precommitBlocks.
     Inr (h', b, precommitBlocks))))"

definition IsMatch :: "('s, 'g) Crypto \<Rightarrow> State \<Rightarrow> Proposal \<Rightarrow> Heap \<Rightarrow> (Heap \<times> bool) res" where
  "IsMatch e st proposal h =
     rbind (stateTree st h) (\<lambda>t.
     rbind (GetLatestBlock h t) (\<lambda>b.
     let (h', hash) = hashBlock e b h in
     Inr (h', hash = LastBlockHash (blocks h' (p_Block proposal)))))"

definition CommitBlocks :: "State \<Rightarrow> addr list \<Rightarrow> Heap \<Rightarrow> Heap" where
  "CommitBlocks st bl h = putSet (UnCommitBlocks st) (RemoveBlocks (sets h (UnCommitBlocks st)) bl) h"

definition State_CommitBlock :: "State \<Rightarrow> addr \<Rightarrow> Heap \<Rightarrow> Heap" where
  "State_CommitBlock st block h = putSet (UnCommitBlocks st) (RemoveBlocks (sets h (UnCommitBlocks st)) [block]) h"

text \<open>The loop of \<open>decideCommitBlocks\<close> from the last uncommitted block to the first.\<close>

fun ready_loop :: "Heap \<Rightarrow> addr list \<Rightarrow> nat \<Rightarrow> nat option res" where
  "ready_loop h bl 0 = Inr None"
| "ready_loop h bl (Suc i) = (case Block_Commit (blocks h (bl ! i)) of
      None \<Rightarrow> ready_loop h bl i
    | Some c \<Rightarrow> rbind (IsReady h c) (\<lambda>ready. if ready then Inr (Some i) else ready_loop h bl i))"

text \<open>The loop that follows parent hashes up to a committed or unknown block.\<close>

fun chain_loop :: "Heap \<Rightarrow> BlockTree \<Rightarrow> nat \<Rightarrow> addr \<Rightarrow> addr list \<Rightarrow> addr list res" where
  "chain_loop h t 0 lastCommitedBlock toCommitBlocks = Inl NoFuel"
| "chain_loop h t (Suc fuel) lastCommitedBlock toCommitBlocks =
     rbind (QueryBlockByHash h t (LastBlockHash (blocks h lastCommitedBlock))) (\<lambda>r. case r of
       None \<Rightarrow> Inr toCommitBlocks
     | Some preBlock \<Rightarrow>
         if BlockState (blocks h preBlock) = CommittedBlock then Inr toCommitBlocks
         else chain_loop h t fuel preBlock (toCommitBlocks @ [preBlock]))"

text \<open>In-place reversal by swapping the two ends.\<close>

definition swap_ends :: "'a list \<Rightarrow> nat \<Rightarrow> 'a list" where
  "swap_ends xs i = (let j = length xs - i - 1 in xs[i := xs ! j, j := xs ! i])"

definition reverse_in_place :: "'a list \<Rightarrow> 'a list" where
  "reverse_in_place xs = foldl swap_ends xs [0..<length xs div 2]"

definition decideCommitBlocks :: "State \<Rightarrow> addr \<Rightarrow> Heap \<Rightarrow> addr list res" where
  "decideCommitBlocks st block h =
     (let bl = bs_blocks (sets h (UnCommitBlocks st)) in
      rbind (ready_loop h bl (length bl)) (\<lambda>idx. case idx of
        None \<Rightarrow> Inr []
      | Some i \<Rightarrow>
          rbind (stateTree st h) (\<lambda>t.
          rbind (chain_loop h t (Suc (length (bt_nodes t))) (bl ! i) [bl ! i]) (\<lambda>toCommitBlocks.
          Inr (reverse_in_place toCommitBlocks)))))"

definition GenesisBlock :: "State \<Rightarrow> Heap \<Rightarrow> addr res" where
  "GenesisBlock st h = rbind (stateTree st h) GetRoot"

section \<open>Reversal\<close>

lemma length_swap_ends [simp]: "length (swap_ends xs i) = length xs"
  by (simp add: swap_ends_def Let_def)

lemma length_foldl_swap [simp]: "length (foldl swap_ends xs is) = length xs"
  by (induction "is" arbitrary: xs) simp_all

lemma nth_foldl_swap:
  assumes "k \<le> length xs div 2" "j < length xs"
  shows "foldl swap_ends xs [0..<k] ! j = (if j < k \<or> length xs - k \<le> j then xs ! (length xs - j - 1) else xs ! j)"
  using assms
proof (induction k arbitrary: j)
  case (Suc k)
  let ?ys = "foldl swap_ends xs [0..<k]" and ?n = "length xs"
  have k: "k < ?n" "k < ?n - k - 1" using Suc.prems by auto
  have eq: "foldl swap_ends xs [0..<Suc k] = ?ys[k := ?ys ! (?n - k - 1), ?n - k - 1 := ?ys ! k]"
    by (simp add: swap_ends_def Let_def)
  have "?ys ! k = xs ! k" "?ys ! (?n - k - 1) = xs ! (?n - k - 1)"
    using Suc.IH [of k] Suc.IH [of "?n - k - 1"] Suc.prems(1) k by auto
  then have "foldl swap_ends xs [0..<Suc k] ! j =
      (if j = ?n - k - 1 then xs ! k else if j = k then xs ! (?n - k - 1) else ?ys ! j)"
    unfolding eq using Suc.prems k by (auto simp: nth_list_update)
  moreover have "?n - (?n - k - 1) - 1 = k" using k by simp
  moreover have "?ys ! j = (if j < k \<or> ?n - k \<le> j then xs ! (?n - j - 1) else xs ! j)"
    using Suc.IH [of j] Suc.prems by auto
  ultimately show ?case using Suc.prems(2) k by auto
qed simp

lemma reverse_in_place_rev: "reverse_in_place xs = rev xs"
proof (rule nth_equalityI)
  show "length (reverse_in_place xs) = length (rev xs)" by (simp add: reverse_in_place_def)
  fix j assume "j < length (reverse_in_place xs)"
  then have j: "j < length xs" by (simp add: reverse_in_place_def)
  show "reverse_in_place xs ! j = rev xs ! j"
  proof (cases "j < length xs div 2 \<or> length xs - length xs div 2 \<le> j")
    case True
    then show ?thesis using nth_foldl_swap [of "length xs div 2" xs j] j by (simp add: reverse_in_place_def rev_nth)
  next
    case False
    then have "length xs - j - 1 = j" using j by presburger
    then show ?thesis using nth_foldl_swap [of "length xs div 2" xs j] j False by (simp add: reverse_in_place_def rev_nth)
  qed
qed

section \<open>Which blocks commit\<close>

text \<open>
  Every block of the tree but the root names its parent's hash: what \<open>AddBlocks\<close> establishes.
\<close>

definition linked :: "Heap \<Rightarrow> BlockTree \<Rightarrow> bool" where
  "linked h t \<longleftrightarrow> (\<forall>n < length (bt_nodes t). \<forall>p. tn_parent (bt_nodes t ! n) = Some p \<longrightarrow>
     LastBlockHash (node_block h t n) = node_hash h t p)"

definition uncommitted :: "Heap \<Rightarrow> BlockTree \<Rightarrow> nat \<Rightarrow> bool" where
  "uncommitted h t n \<longleftrightarrow> BlockState (node_block h t n) \<noteq> CommittedBlock"

text \<open>Every block of the tree carries its hash.\<close>

definition hashed :: "Heap \<Rightarrow> BlockTree \<Rightarrow> bool" where
  "hashed h t \<longleftrightarrow> (\<forall>n < length (bt_nodes t). BlockHash (node_block h t n) \<noteq> None)"

text \<open>The invariant of the tree the chain state refers to: rooted in a committed block.\<close>

definition chain_invar :: "Heap \<Rightarrow> BlockTree \<Rightarrow> bool" where
  "chain_invar h t \<longleftrightarrow> tree_invar h t \<and> linked h t \<and> hashed h t \<and> \<not> uncommitted h t 0"

lemma chain_invarD:
  assumes "chain_invar h t"
  shows "tree_invar h t" "linked h t" "\<not> uncommitted h t 0" "wf_tree t" "wf_nodes (bt_nodes t)" "hashed h t"
  using assms by (auto simp: chain_invar_def tree_invar_def wf_tree_def)

lemma QueryBlockByHash_node:
  assumes "tree_invar h t" "n < length (bt_nodes t)" "node_hash h t n = x"
  shows "QueryBlockByHash h t x = Inr (Some (tn_data (bt_nodes t ! n)))"
  using QueryBlockByHash_Some_iff [OF assms(1)] assms(2,3) by blast

text \<open>The ancestors of a block that has parent hash \<open>x\<close>, nearest first, up to a committed one.\<close>

lemma chain_loop_up:
  assumes inv: "chain_invar h t"
  shows "m < length (bt_nodes t) \<Longrightarrow> LastBlockHash (blocks h a) = node_hash h t m \<Longrightarrow> m < fuel \<Longrightarrow>
    chain_loop h t fuel a acc = Inr (acc @ map (\<lambda>n. tn_data (bt_nodes t ! n)) (takeWhile (uncommitted h t) (up (bt_nodes t) m)))"
proof (induction fuel arbitrary: m a acc)
  case (Suc fuel)
  note wf = chain_invarD(5) [OF inv]
  let ?b = "tn_data (bt_nodes t ! m)"
  have q: "QueryBlockByHash h t (LastBlockHash (blocks h a)) = Inr (Some ?b)"
    using QueryBlockByHash_node chain_invarD(1) [OF inv] Suc.prems(1,2) by simp
  show ?case
  proof (cases "uncommitted h t m")
    case True
    then have "m \<noteq> 0" using chain_invarD(3) [OF inv] by metis
    then obtain p where p: "tn_parent (bt_nodes t ! m) = Some p"
      using wf_nodes_root_only [OF wf Suc.prems(1)] by (cases "tn_parent (bt_nodes t ! m)") auto
    then have "p < m" using wf_nodes_parent(1) [OF wf Suc.prems(1)] by blast
    moreover have "LastBlockHash (blocks h ?b) = node_hash h t p"
      using chain_invarD(2) [OF inv] Suc.prems(1) p by (simp add: linked_def node_block_def)
    ultimately show ?thesis
      using Suc.IH [of p ?b "acc @ [?b]"] Suc.prems True q up_Some [OF wf Suc.prems(1) p]
      by (simp add: uncommitted_def node_block_def)
  next
    case False
    then show ?thesis using q up.simps [of "bt_nodes t" m]
      by (simp add: uncommitted_def node_block_def)
  qed
qed simp

text \<open>
  The blocks above a block: none where its parent is unknown, otherwise the uncommitted part of the
  path from the parent to the root.
\<close>

definition pending_above :: "Heap \<Rightarrow> BlockTree \<Rightarrow> addr \<Rightarrow> addr list" where
  "pending_above h t a = (case queryNodeByHash h t (LastBlockHash (blocks h a)) of
      Inr (Some m) \<Rightarrow> map (\<lambda>n. tn_data (bt_nodes t ! n)) (takeWhile (uncommitted h t) (up (bt_nodes t) m))
    | _ \<Rightarrow> [])"

lemma chain_loop_pending:
  assumes inv: "chain_invar h t"
  shows "chain_loop h t (Suc (length (bt_nodes t))) a [a] = Inr (a # pending_above h t a)"
proof -
  note wf = chain_invarD(4) [OF inv]
  obtain r where r: "queryNodeByHash h t (LastBlockHash (blocks h a)) = Inr r"
    using queryNodeByHash_find [OF wf] by blast
  show ?thesis
  proof (cases r)
    case None
    then show ?thesis using r by (simp add: pending_above_def QueryBlockByHash_def)
  next
    case (Some m)
    then have "m < length (bt_nodes t)" "node_hash h t m = LastBlockHash (blocks h a)"
      using queryNodeByHash_Some [OF wf] r by auto
    then show ?thesis using chain_loop_up [OF inv, of m a "Suc (length (bt_nodes t))" "[a]"] r Some
      by (simp add: pending_above_def del: chain_loop.simps)
  qed
qed

lemma decideCommitBlocks_pending:
  assumes "st_BlockTree st = Some ta" "chain_invar h (trees h ta)"
  shows "decideCommitBlocks st block h =
    rbind (ready_loop h (bs_blocks (sets h (UnCommitBlocks st))) (length (bs_blocks (sets h (UnCommitBlocks st))))) (\<lambda>idx. case idx of
       None \<Rightarrow> Inr []
     | Some i \<Rightarrow> let a = bs_blocks (sets h (UnCommitBlocks st)) ! i in Inr (rev (pending_above h (trees h ta) a) @ [a]))"
  using chain_loop_pending [OF assms(2)] assms(1)
  by (auto simp: decideCommitBlocks_def Let_def stateTree_def reverse_in_place_rev simp del: chain_loop.simps
      split: option.splits intro!: arg_cong [where f = "rbind _"])

text \<open>The search from the end of the set finds the last block that is ready.\<close>

definition commit_ready :: "Heap \<Rightarrow> addr \<Rightarrow> bool" where
  "commit_ready h a \<longleftrightarrow> (\<exists>c. Block_Commit (blocks h a) = Some c \<and> IsReady h c = Inr True)"

lemma ready_loop_Some:
  "ready_loop h bl n = Inr (Some i) \<Longrightarrow> i < n \<and> commit_ready h (bl ! i) \<and> (\<forall>j. i < j \<and> j < n \<longrightarrow> \<not> commit_ready h (bl ! j))"
proof (induction n)
  case (Suc n)
  then show ?case
    by (force simp: commit_ready_def less_Suc_eq split: option.splits if_splits)
qed simp

lemma ready_loop_None:
  "ready_loop h bl n = Inr None \<Longrightarrow> j < n \<Longrightarrow> \<not> commit_ready h (bl ! j)"
  by (induction n) (auto simp: commit_ready_def less_Suc_eq split: option.splits if_splits)

lemma ready_loop_total:
  "(\<And>j c. j < n \<Longrightarrow> Block_Commit (blocks h (bl ! j)) = Some c \<Longrightarrow> \<exists>r. IsReady h c = Inr r) \<Longrightarrow> \<exists>r. ready_loop h bl n = Inr r"
proof (induction n)
  case (Suc n)
  obtain r where r: "ready_loop h bl n = Inr r" using Suc.IH Suc.prems less_SucI by blast
  show ?case
  proof (cases "Block_Commit (blocks h (bl ! n))")
    case (Some c)
    then obtain b where "IsReady h c = Inr b" using Suc.prems by blast
    then show ?thesis using Some r by simp
  qed (simp add: r)
qed simp

text \<open>The path from a node to the root is linked by parent hashes, and so is any prefix of it.\<close>

lemma linked_up:
  assumes wf: "wf_nodes (bt_nodes t)" and lk: "linked h t"
  shows "m < length (bt_nodes t) \<Longrightarrow> Suc i < length (up (bt_nodes t) m) \<Longrightarrow>
    LastBlockHash (node_block h t (up (bt_nodes t) m ! i)) = node_hash h t (up (bt_nodes t) m ! Suc i)"
proof (induction m arbitrary: i rule: less_induct)
  case (less m)
  show ?case
  proof (cases "tn_parent (bt_nodes t ! m)")
    case None
    then show ?thesis using less.prems up_None by force
  next
    case (Some p)
    have p: "p < m" using wf_nodes_parent(1) [OF wf less.prems(1) Some] .
    have up: "up (bt_nodes t) m = m # up (bt_nodes t) p" using up_Some [OF wf less.prems(1) Some] .
    have "up (bt_nodes t) p ! 0 = p" by (subst up.simps) simp
    then show ?thesis
      using less.IH [OF p, of "i - 1"] less.prems p lk Some up by (cases i) (auto simp: linked_def)
  qed
qed


lemma up_nonempty: "up ns m = m # tl (up ns m)"
  by (subst (1 2) up.simps) simp

text \<open>
  From a block to its pending ancestors: each one names the next as its parent, all but the first are
  uncommitted, and the parent of the last is committed or not in the tree.
\<close>

lemma pending_above_linked:
  assumes inv: "chain_invar h t" and i: "Suc i < length (a # pending_above h t a)"
  shows "LastBlockHash (blocks h ((a # pending_above h t a) ! i)) = bytes_of (BlockHash (blocks h ((a # pending_above h t a) ! Suc i)))"
proof -
  obtain m where m: "queryNodeByHash h t (LastBlockHash (blocks h a)) = Inr (Some m)"
    using i by (auto simp: pending_above_def split: sum.splits option.splits)
  let ?u = "up (bt_nodes t) m" and ?w = "takeWhile (uncommitted h t) (up (bt_nodes t) m)"
  have pa: "pending_above h t a = map (\<lambda>n. tn_data (bt_nodes t ! n)) ?w" using m by (simp add: pending_above_def)
  note mm = queryNodeByHash_Some [OF chain_invarD(4) [OF inv] m]
  have len: "i < length ?w" using i pa by simp
  have wn: "j < length ?w \<Longrightarrow> ?w ! j = ?u ! j" for j by (rule takeWhile_nth)
  show ?thesis
  proof (cases i)
    case 0
    have "?w ! 0 = m" using len 0 wn [of 0] up_nonempty [of "bt_nodes t" m] by (metis nth_Cons_0)
    then show ?thesis using mm 0 len pa by (simp add: node_hash_def)
  next
    case (Suc k)
    have "Suc k < length ?u" using len Suc length_takeWhile_le [of "uncommitted h t" ?u] by simp
    from linked_up [OF chain_invarD(5,2) [OF inv] mm(1) this]
    show ?thesis using len Suc pa wn [of k] wn [of "Suc k"] by (simp add: node_hash_def node_block_def)
  qed
qed

lemma pending_above_uncommitted:
  "b \<in> set (pending_above h t a) \<Longrightarrow> BlockState (blocks h b) \<noteq> CommittedBlock"
  by (auto simp: pending_above_def uncommitted_def node_block_def split: sum.splits option.splits dest: set_takeWhileD)

lemma last_up_uncommitted:
  assumes inv: "chain_invar h t"
  shows "m < length (bt_nodes t) \<Longrightarrow> uncommitted h t m \<Longrightarrow>
    \<exists>p < length (bt_nodes t). tn_parent (bt_nodes t ! last (takeWhile (uncommitted h t) (up (bt_nodes t) m))) = Some p
      \<and> last (takeWhile (uncommitted h t) (up (bt_nodes t) m)) < length (bt_nodes t) \<and> \<not> uncommitted h t p"
proof (induction m rule: less_induct)
  case (less m)
  note wf = chain_invarD(5) [OF inv]
  have "m \<noteq> 0" using less.prems(2) chain_invarD(3) [OF inv] by metis
  then obtain p where p: "tn_parent (bt_nodes t ! m) = Some p"
    using wf_nodes_root_only [OF wf less.prems(1)] by (cases "tn_parent (bt_nodes t ! m)") auto
  then have pm: "p < m" using wf_nodes_parent(1) [OF wf less.prems(1)] by blast
  have up: "up (bt_nodes t) m = m # up (bt_nodes t) p" using up_Some [OF wf less.prems(1) p] .
  have hd: "up (bt_nodes t) p = p # tl (up (bt_nodes t) p)" by (rule up_nonempty)
  show ?case
  proof (cases "uncommitted h t p")
    case True
    then have "takeWhile (uncommitted h t) (up (bt_nodes t) p) \<noteq> []" by (subst hd) simp
    then show ?thesis using less.IH [OF pm] less.prems pm True up by simp
  next
    case False
    then have "takeWhile (uncommitted h t) (up (bt_nodes t) p) = []" by (subst hd) simp
    then show ?thesis using less.prems up p False pm by auto
  qed
qed

lemma pending_above_stops:
  assumes inv: "chain_invar h t"
    and q: "QueryBlockByHash h t (LastBlockHash (blocks h (last (a # pending_above h t a)))) = Inr (Some b)"
  shows "BlockState (blocks h b) = CommittedBlock"
proof -
  note inv' = chain_invarD [OF inv]
  obtain r where r: "queryNodeByHash h t (LastBlockHash (blocks h a)) = Inr r" using queryNodeByHash_find [OF inv'(4)] by blast
  consider "pending_above h t a = []" "r = None" | m where "r = Some m" "\<not> uncommitted h t m" | m where "r = Some m" "uncommitted h t m"
    using r by (cases r) (auto simp: pending_above_def)
  then show ?thesis
  proof cases
    case 1
    then show ?thesis using q r by (simp add: QueryBlockByHash_def)
  next
    case 2
    have "pending_above h t a = []" using 2 r up_nonempty [of "bt_nodes t" m]
      by (simp add: pending_above_def takeWhile_eq_Nil_iff) (metis list.sel(1))
    then show ?thesis using q r 2 by (auto simp: QueryBlockByHash_def uncommitted_def node_block_def)
  next
    case 3
    let ?w = "takeWhile (uncommitted h t) (up (bt_nodes t) m)"
    have m: "m < length (bt_nodes t)" using queryNodeByHash_Some(1) [OF inv'(4)] r 3 by blast
    have "?w \<noteq> []" using 3 up_nonempty [of "bt_nodes t" m] by (metis takeWhile_eq_Nil_iff list.sel(1) list.discI)
    then have l: "last (a # pending_above h t a) = tn_data (bt_nodes t ! last ?w)"
      using r 3 by (simp add: pending_above_def last_map)
    obtain p where p: "p < length (bt_nodes t)" "tn_parent (bt_nodes t ! last ?w) = Some p" "last ?w < length (bt_nodes t)"
      "\<not> uncommitted h t p" using last_up_uncommitted [OF inv m 3(2)] by blast
    have "LastBlockHash (node_block h t (last ?w)) = node_hash h t p" using inv'(2) p by (simp add: linked_def)
    then have "b = tn_data (bt_nodes t ! p)"
      using q l QueryBlockByHash_node [OF inv'(1) p(1)] by (simp add: node_block_def)
    then show ?thesis using p(4) by (simp add: uncommitted_def node_block_def)
  qed
qed

lemma decideCommitBlocks_facts:
  assumes "st_BlockTree st = Some ta" "chain_invar h (trees h ta)"
    and "decideCommitBlocks st block h = Inr bl" "bl \<noteq> []"
  shows "last bl \<in> set (bs_blocks (sets h (UnCommitBlocks st)))" "commit_ready h (last bl)"
    and "\<And>i. Suc i < length bl \<Longrightarrow> LastBlockHash (blocks h (bl ! Suc i)) = bytes_of (BlockHash (blocks h (bl ! i)))"
    and "\<And>b. b \<in> set (butlast bl) \<Longrightarrow> BlockState (blocks h b) \<noteq> CommittedBlock"
    and "\<And>b. QueryBlockByHash h (trees h ta) (LastBlockHash (blocks h (hd bl))) = Inr (Some b) \<Longrightarrow> BlockState (blocks h b) = CommittedBlock"
proof -
  let ?bs = "bs_blocks (sets h (UnCommitBlocks st))"
  obtain i where i: "ready_loop h ?bs (length ?bs) = Inr (Some i)"
    and bl: "bl = rev (pending_above h (trees h ta) (?bs ! i)) @ [?bs ! i]"
    using assms(3,4) unfolding decideCommitBlocks_pending [OF assms(1,2)] by (auto simp: Let_def split: option.splits)
  let ?xs = "?bs ! i # pending_above h (trees h ta) (?bs ! i)"
  have rv: "bl = rev ?xs" using bl by simp
  show "last bl \<in> set ?bs" "commit_ready h (last bl)" using ready_loop_Some [OF i] bl by simp_all
  show "LastBlockHash (blocks h (bl ! Suc k)) = bytes_of (BlockHash (blocks h (bl ! k)))" if "Suc k < length bl" for k
  proof -
    have "Suc (length ?xs - Suc (Suc k)) = length ?xs - Suc k" using that rv by simp
    then show ?thesis
      using pending_above_linked [OF assms(2), of "length ?xs - Suc (Suc k)" "?bs ! i"] that rv
      by (simp add: rev_nth del: rev.simps length_Cons)
  qed
  show "BlockState (blocks h b) \<noteq> CommittedBlock" if "b \<in> set (butlast bl)" for b
    using that pending_above_uncommitted bl by simp
  show "BlockState (blocks h b) = CommittedBlock"
    if "QueryBlockByHash h (trees h ta) (LastBlockHash (blocks h (hd bl))) = Inr (Some b)" for b
    using pending_above_stops [OF assms(2), of "?bs ! i" b] that rv by (simp add: hd_rev del: rev.simps)
qed

lemma decideCommitBlocks_total:
  assumes "st_BlockTree st = Some ta" "chain_invar h (trees h ta)"
    and "\<And>a c. a \<in> set (bs_blocks (sets h (UnCommitBlocks st))) \<Longrightarrow> Block_Commit (blocks h a) = Some c \<Longrightarrow> \<exists>r. IsReady h c = Inr r"
  shows "\<exists>bl. decideCommitBlocks st block h = Inr bl"
proof -
  let ?bs = "bs_blocks (sets h (UnCommitBlocks st))"
  obtain r where "ready_loop h ?bs (length ?bs) = Inr r" using ready_loop_total [of "length ?bs" h ?bs] assms(3) nth_mem by blast
  then show ?thesis unfolding decideCommitBlocks_pending [OF assms(1,2)] by (cases r) (auto simp: Let_def)
qed

end
