(* ===== verification/Executor.thy ===== *)
theory Executor
  imports ChainState
begin

text \<open>
  The block executor of state/executor.go: proposing, applying and committing blocks. The state
  database is behind the \<open>Store\<close> interface of state/store.go, a parameter here; the
  transactions a proposal packs are what the mempool returned; every reading of the physical
  clock is an argument.
\<close>

section \<open>Model\<close>

text \<open>
  \<open>CommitBlock\<close> of the interface: it may change the database and returns the hash of the results or
  an error.
\<close>

type_synonym 'db Store = "State \<Rightarrow> Block \<Rightarrow> 'db \<Rightarrow> ('db \<times> (string + bytes)) res"

definition UpdateBlockState :: "Time \<Rightarrow> addr \<Rightarrow> BlockState \<Rightarrow> Heap \<Rightarrow> Heap" where
  "UpdateBlockState now block blockstate h =
     (if BlockState (blocks h block) = blockstate then h
      else
        let h1 = (if blockstate = PrecommitBlock then updBlock block (MarkTime BlockPrecommitTime_label (UnixNano now)) h
                  else if blockstate = ErrorBlock then h
                  else if blockstate = CommittedBlock
                    then updBlock block (\<lambda>b. CalculateTime (MarkTime BlockCommitTime_label (UnixNano now) b)) h
                  else h)
        in updBlock block (\<lambda>b. b\<lparr>BlockState := blockstate\<rparr>) h1)"

text \<open>One round of the loop of \<open>UpdateState\<close>; it reads the clock at most twice.\<close>

definition UpdateState_evidence :: "(nat \<Rightarrow> Time) \<Rightarrow> nat \<Rightarrow> State \<Rightarrow> Quorum \<Rightarrow> Heap \<Rightarrow> Heap" where
  "UpdateState_evidence now k st evidence h =
     (case BlockSet_QueryBlockByHash h (sets h (UnCommitBlocks st)) (q_BlockHash evidence) of
        None \<Rightarrow> h
      | Some block \<Rightarrow>
          if BlockState (blocks h block) = CommittedBlock then h
          else
            let h1 = (if Block_Commit (blocks h block) = None
                      then updBlock block (\<lambda>b. b\<lparr>Block_Commit := Some (Commit None None None)\<rparr>) h else h);
                h2 = updBlock block (\<lambda>b. b\<lparr>VoteQuorum := evidence\<rparr>) h1
            in if q_Type evidence = SupportQuorum then
                 if BlockState (blocks h2 block) \<noteq> PrecommitBlock then
                   let h3 = updBlock block (MarkTime BlockPrecommitTime_label (UnixNano (now (2 * k)))) h2
                   in UpdateBlockState (now (2 * k + 1)) block PrecommitBlock h3
                 else h2
               else if q_Type evidence = AgainstQuorum then UpdateBlockState (now (2 * k)) block ErrorBlock h2
               else h2)"

fun UpdateState_loop :: "(nat \<Rightarrow> Time) \<Rightarrow> nat \<Rightarrow> State \<Rightarrow> Quorum list \<Rightarrow> Heap \<Rightarrow> Heap" where
  "UpdateState_loop now k st [] h = h"
| "UpdateState_loop now k st (evidence # evidences) h =
     UpdateState_loop now (Suc k) st evidences (UpdateState_evidence now k st evidence h)"

definition UpdateState :: "(nat \<Rightarrow> Time) \<Rightarrow> State \<Rightarrow> addr \<Rightarrow> Heap \<Rightarrow> Heap \<times> string option" where
  "UpdateState now st proposal h =
     (if PubVal st = None then (h, Some ''validator public key is nil'')
      else (UpdateState_loop now 0 st (Evidences (blocks h proposal)) h, None))"

definition validateBlock :: "('s, 'g) Crypto \<Rightarrow> State \<Rightarrow> Block \<Rightarrow> string option" where
  "validateBlock e st block = (case ValidteBasic block of
      Some err \<Rightarrow> Some err
    | None \<Rightarrow> if ValidatorSet_Hash e (st_Validators st) \<noteq> ValidatorsHash block
              then Some ''block has different validator set'' else None)"

text \<open>The state after one block has committed.\<close>

definition commitState :: "State \<Rightarrow> addr \<Rightarrow> bytes \<Rightarrow> Block \<Rightarrow> State" where
  "commitState newState block resulthash b =
     (State_Copy newState)\<lparr>LastResultsHash := resulthash, LastBlockSlot := Slot b,
        st_LastBlockHash := bytes_of (BlockHash b), LastBlockTime := ProposalTime b, LastCommitedBlock := Some block\<rparr>"

fun Commit_loop :: "('s, 'g) Crypto \<Rightarrow> 'db Store \<Rightarrow> (nat \<Rightarrow> Time) \<Rightarrow> State \<Rightarrow> nat \<Rightarrow> addr list
    \<Rightarrow> State \<times> addr option \<Rightarrow> Heap \<Rightarrow> 'db \<Rightarrow> (State \<times> addr option \<times> Heap \<times> 'db) res" where
  "Commit_loop e commitBlock now st k [] (newState, lastCommitted) h db = Inr (newState, lastCommitted, h, db)"
| "Commit_loop e commitBlock now st k (block # bl) (newState, lastCommitted) h db =
     rbind (commitBlock st (blocks h block) db) (\<lambda>(db', r). case r of
        Inl err \<Rightarrow> Commit_loop e commitBlock now st (Suc k) bl (newState, lastCommitted) (fst (hashBlock e block h)) db'
      | Inr resulthash \<Rightarrow>
          let h1 = UpdateBlockState (now k) block CommittedBlock h;
              h2 = State_CommitBlock newState block h1
          in Commit_loop e commitBlock now st (Suc k) bl
               (commitState newState block resulthash (blocks h2 block), Some block) h2 db')"

definition Executor_Commit :: "('s, 'g) Crypto \<Rightarrow> 'db Store \<Rightarrow> (nat \<Rightarrow> Time) \<Rightarrow> State \<Rightarrow> addr list
    \<Rightarrow> Heap \<Rightarrow> 'db \<Rightarrow> (State \<times> addr option \<times> Heap \<times> 'db) res" where
  "Executor_Commit e commitBlock now st toCommitblocks h db =
     Commit_loop e commitBlock now st 0 toCommitblocks (st, None) h db"

text \<open>
  \<open>ApplyBlock\<close>: the block enters the tree before it is validated, and the error of
  \<open>AddBlocks\<close> is dropped. The returned error is the one of the validation.
\<close>

definition ApplyBlock :: "('s, 'g) Crypto \<Rightarrow> 'db Store \<Rightarrow> (nat \<Rightarrow> Time) \<Rightarrow> State \<Rightarrow> addr \<Rightarrow> Heap \<Rightarrow> 'db
    \<Rightarrow> (State \<times> string option \<times> Heap \<times> 'db) res" where
  "ApplyBlock e commitBlock now st proposal h db =
     rbind (deref (st_BlockTree st)) (\<lambda>ta.
     rbind (AddBlocks h (LastBlockHash (blocks h proposal)) proposal (trees h ta)) (\<lambda>(t, _).
     let h1 = putTree ta t h in
     case validateBlock e st (blocks h1 proposal) of
       Some err \<Rightarrow> Inr (st, Some err, h1, db)
     | None \<Rightarrow>
         let h2 = putSet (UnCommitBlocks st) (BlockSet_AddBlock (sets h1 (UnCommitBlocks st)) proposal) h1 in
         rbind (decideCommitBlocks st proposal h2) (\<lambda>toCommitBlock.
         rbind (Executor_Commit e commitBlock now st toCommitBlock h2 db) (\<lambda>(st', _, h3, db').
         Inr (st', None, h3, db')))))"

text \<open>
  \<open>CreateProposal\<close>. The argument \<open>txs\<close> is what \<open>ReapMaxTxs\<close> returned.
\<close>

definition MaxBlockTxSize :: int64 where
  "MaxBlockTxSize = 2000"

definition CreateProposal :: "('s, 'g) Crypto \<Rightarrow> (nat \<Rightarrow> Time) \<Rightarrow> Tx list \<Rightarrow> State \<Rightarrow> LTime \<Rightarrow> Heap \<Rightarrow> (Proposal \<times> Heap) res" where
  "CreateProposal e now txs st curSlot h =
     rbind (NewBranch e st h) (\<lambda>(h1, parentBlock, precommitBlocks).
     rbind (deref (st_Validator st)) (\<lambda>val.
     let block0 = MakeBlock txs (now 0);
         block1 = Fill (st_ChainID st) curSlot ProposalBlock (bytes_of (BlockHash (blocks h1 parentBlock)))
                    (val_Address val) (ValidatorSet_Hash e (st_Validators st)) (now 1) block0;
         (block2, _) = Block_Hash e block1;
         block3 = block2\<lparr>Evidences := map (\<lambda>p. Quorum_Copy (VoteQuorum (blocks h1 p))) precommitBlocks\<rparr>;
         (a, h2) = newBlock block3 h1
     in Inr ((zeroProposal a)\<lparr>p_SendTime := now 2, p_ReceiveTime := now 3\<rparr>, h2)))"

end
