(* ===== verification/ExecutorFacts.thy ===== *)
theory ExecutorFacts
  imports Executor "HOL-Library.Sublist"
begin

text \<open>
  Proofs about the executor: what each operation may change, the outcome of a commit, the invariant of the
  block tree under \<open>ApplyBlock\<close>, and that the committed blocks stay closed under parents.
\<close>

section \<open>What the executor changes\<close>

text \<open>
  A step from one heap to another that changes no parent hash, no slot and no block hash that is already set.
\<close>

definition same_links :: "Heap \<Rightarrow> Heap \<Rightarrow> bool" where
  "same_links h h' \<longleftrightarrow> (\<forall>a. LastBlockHash (blocks h' a) = LastBlockHash (blocks h a) \<and> Slot (blocks h' a) = Slot (blocks h a)
     \<and> (BlockHash (blocks h a) \<noteq> None \<longrightarrow> BlockHash (blocks h' a) = BlockHash (blocks h a)))"

definition committed :: "Heap \<Rightarrow> addr \<Rightarrow> bool" where
  "committed h a \<longleftrightarrow> BlockState (blocks h a) = CommittedBlock"

lemma same_links_refl [simp]: "same_links h h"
  by (simp add: same_links_def)

lemma same_links_trans [trans]: "same_links h h' \<Longrightarrow> same_links h' h'' \<Longrightarrow> same_links h h''"
  by (simp add: same_links_def)

lemma same_links_blocks: "blocks h' = blocks h \<Longrightarrow> same_links h h'"
  by (simp add: same_links_def)

lemma same_links_upd:
  "(\<And>b. LastBlockHash (f b) = LastBlockHash b) \<Longrightarrow> (\<And>b. BlockHash (f b) = BlockHash b) \<Longrightarrow> (\<And>b. Slot (f b) = Slot b) \<Longrightarrow>
    same_links h (updBlock a f h)"
  by (simp add: same_links_def)

lemma Block_Hash_set: "BlockHash b \<noteq> None \<Longrightarrow> BlockHash (fst (Block_Hash e b)) = BlockHash b"
  by (auto simp: Block_Hash_def Header_Hash_def fillHeader_def Data_Hash_def Let_def split: option.splits)

lemma same_links_hashBlock [simp]: "same_links h (fst (hashBlock e a h))"
  by (simp add: same_links_def blocks_hashBlock Block_Hash_set)

lemma MarkTime_keeps [simp]:
  "LastBlockHash (MarkTime s t b) = LastBlockHash b" "BlockHash (MarkTime s t b) = BlockHash b"
  "Slot (MarkTime s t b) = Slot b" "BlockState (MarkTime s t b) = BlockState b" "ProposalTime (MarkTime s t b) = ProposalTime b"
  by (simp_all add: MarkTime_def)

lemma CalculateTime_keeps [simp]:
  "LastBlockHash (CalculateTime b) = LastBlockHash b" "BlockHash (CalculateTime b) = BlockHash b"
  "Slot (CalculateTime b) = Slot b" "BlockState (CalculateTime b) = BlockState b" "ProposalTime (CalculateTime b) = ProposalTime b"
  by (simp_all add: CalculateTime_def)

lemma MarkTime_block_keeps [simp]:
  "Block_Commit (MarkTime s t b) = Block_Commit b" "VoteQuorum (MarkTime s t b) = VoteQuorum b"
  "Evidences (MarkTime s t b) = Evidences b" "Txs (MarkTime s t b) = Txs b"
  by (simp_all add: MarkTime_def)

lemma CalculateTime_block_keeps [simp]:
  "Block_Commit (CalculateTime b) = Block_Commit b" "VoteQuorum (CalculateTime b) = VoteQuorum b"
  "Evidences (CalculateTime b) = Evidences b" "Txs (CalculateTime b) = Txs b"
  by (simp_all add: CalculateTime_def)

lemma UpdateBlockState_frame [simp]:
  "trees (UpdateBlockState now a s h) = trees h" "sets (UpdateBlockState now a s h) = sets h"
  "quorums (UpdateBlockState now a s h) = quorums h" "blocksNext (UpdateBlockState now a s h) = blocksNext h"
  "quorumsNext (UpdateBlockState now a s h) = quorumsNext h"
  by (simp_all add: UpdateBlockState_def Let_def)

lemma UpdateBlockState_other: "b \<noteq> a \<Longrightarrow> blocks (UpdateBlockState now a s h) b = blocks h b"
  by (simp add: UpdateBlockState_def Let_def)

lemma BlockState_UpdateBlockState [simp]:
  "BlockState (blocks (UpdateBlockState now a s h) b) = (if b = a then s else BlockState (blocks h b))"
  by (simp add: UpdateBlockState_def Let_def)

lemma UpdateBlockState_keeps [simp]:
  "LastBlockHash (blocks (UpdateBlockState now a s h) b) = LastBlockHash (blocks h b)"
  "BlockHash (blocks (UpdateBlockState now a s h) b) = BlockHash (blocks h b)"
  "Slot (blocks (UpdateBlockState now a s h) b) = Slot (blocks h b)"
  "ProposalTime (blocks (UpdateBlockState now a s h) b) = ProposalTime (blocks h b)"
  "Block_Commit (blocks (UpdateBlockState now a s h) b) = Block_Commit (blocks h b)"
  "Evidences (blocks (UpdateBlockState now a s h) b) = Evidences (blocks h b)"
  "VoteQuorum (blocks (UpdateBlockState now a s h) b) = VoteQuorum (blocks h b)"
  by (simp_all add: UpdateBlockState_def Let_def)

lemma same_links_UpdateBlockState [simp]: "same_links h (UpdateBlockState now a s h)"
  by (simp add: same_links_def)

lemma UpdateState_evidence_frame [simp]:
  "trees (UpdateState_evidence now k st q h) = trees h" "sets (UpdateState_evidence now k st q h) = sets h"
  "quorums (UpdateState_evidence now k st q h) = quorums h" "blocksNext (UpdateState_evidence now k st q h) = blocksNext h"
  "quorumsNext (UpdateState_evidence now k st q h) = quorumsNext h"
  by (simp_all add: UpdateState_evidence_def Let_def split: option.split)

lemma UpdateState_evidence_keeps [simp]:
  "LastBlockHash (blocks (UpdateState_evidence now k st q h) b) = LastBlockHash (blocks h b)"
  "BlockHash (blocks (UpdateState_evidence now k st q h) b) = BlockHash (blocks h b)"
  "Slot (blocks (UpdateState_evidence now k st q h) b) = Slot (blocks h b)"
  "Evidences (blocks (UpdateState_evidence now k st q h) b) = Evidences (blocks h b)"
  by (simp_all add: UpdateState_evidence_def Let_def split: option.split)

text \<open>Evidence never touches a committed block, and commits none.\<close>

lemma UpdateState_evidence_committed:
  "committed h a \<Longrightarrow> blocks (UpdateState_evidence now k st q h) a = blocks h a"
  by (auto simp: UpdateState_evidence_def Let_def committed_def UpdateBlockState_other split: option.split)

lemma committed_UpdateState_evidence [simp]: "committed (UpdateState_evidence now k st q h) a = committed h a"
  by (auto simp: UpdateState_evidence_def Let_def committed_def split: option.split)

lemma UpdateState_loop_frame [simp]:
  "trees (UpdateState_loop now k st qs h) = trees h" "sets (UpdateState_loop now k st qs h) = sets h"
  "quorums (UpdateState_loop now k st qs h) = quorums h" "blocksNext (UpdateState_loop now k st qs h) = blocksNext h"
  "quorumsNext (UpdateState_loop now k st qs h) = quorumsNext h"
  by (induction qs arbitrary: k h) simp_all

lemma UpdateState_loop_keeps [simp]:
  "LastBlockHash (blocks (UpdateState_loop now k st qs h) b) = LastBlockHash (blocks h b)"
  "BlockHash (blocks (UpdateState_loop now k st qs h) b) = BlockHash (blocks h b)"
  "Slot (blocks (UpdateState_loop now k st qs h) b) = Slot (blocks h b)"
  "Evidences (blocks (UpdateState_loop now k st qs h) b) = Evidences (blocks h b)"
  "committed (UpdateState_loop now k st qs h) b = committed h b"
  by (induction qs arbitrary: k h) simp_all

lemma UpdateState_loop_committed:
  "committed h a \<Longrightarrow> blocks (UpdateState_loop now k st qs h) a = blocks h a"
  by (induction qs arbitrary: k h) (simp_all add: UpdateState_evidence_committed)

lemma same_links_UpdateState [simp]: "same_links h (fst (UpdateState now st p h))"
  by (simp add: UpdateState_def same_links_def)

lemma UpdateState_frame [simp]:
  "trees (fst (UpdateState now st p h)) = trees h" "sets (fst (UpdateState now st p h)) = sets h"
  "blocksNext (fst (UpdateState now st p h)) = blocksNext h"
  "quorumsNext (fst (UpdateState now st p h)) = quorumsNext h" "quorums (fst (UpdateState now st p h)) = quorums h"
  "committed (fst (UpdateState now st p h)) b = committed h b"
  by (simp_all add: UpdateState_def)

section \<open>Committing\<close>

lemma State_CommitBlock_frame [simp]:
  "blocks (State_CommitBlock st a h) = blocks h" "trees (State_CommitBlock st a h) = trees h"
  "quorums (State_CommitBlock st a h) = quorums h"
  "bs_blocks (sets (State_CommitBlock st a h) s) =
     (if s = UnCommitBlocks st then filter (\<lambda>b. b \<noteq> a) (bs_blocks (sets h s)) else bs_blocks (sets h s))"
  by (simp_all add: State_CommitBlock_def RemoveBlocks_filter)

lemma State_Copy_pointers [simp]:
  "UnCommitBlocks (State_Copy st) = UnCommitBlocks st" "st_BlockTree (State_Copy st) = st_BlockTree st"
  by (simp_all add: State_Copy_def)

lemma commitState_pointers [simp]:
  "UnCommitBlocks (commitState st a r b) = UnCommitBlocks st" "st_BlockTree (commitState st a r b) = st_BlockTree st"
  by (simp_all add: commitState_def)

text \<open>
  The blocks that commit are those whose \<open>CommitBlock\<close> succeeds, a subsequence of the request: they become
  \<open>CommittedBlock\<close> and leave the uncommitted set, the state points to the last of them, and
  no other block changes its state.
\<close>

text \<open>The parts of the state that no operation changes.\<close>

definition same_config :: "State \<Rightarrow> State \<Rightarrow> bool" where
  "same_config st st' \<longleftrightarrow> UnCommitBlocks st' = UnCommitBlocks st \<and> st_BlockTree st' = st_BlockTree st
     \<and> st_ChainID st' = st_ChainID st \<and> st_Validators st' = st_Validators st \<and> st_Validator st' = st_Validator st
     \<and> PubVal st' = PubVal st \<and> InitialSlot st' = InitialSlot st"

lemma same_config_refl [simp]: "same_config st st"
  by (simp add: same_config_def)

lemma same_config_trans [trans]: "same_config a b \<Longrightarrow> same_config b c \<Longrightarrow> same_config a c"
  by (simp add: same_config_def)

lemma same_config_Copy [simp]: "same_config st (State_Copy st)"
  by (simp add: same_config_def State_Copy_def)

lemma same_config_commitState [simp]: "same_config st (commitState st a r b)"
  by (simp add: same_config_def commitState_def State_Copy_def)

lemma commitState_last [simp]:
  "LastCommitedBlock (commitState st a r b) = Some a" "LastBlockSlot (commitState st a r b) = Slot b"
  by (simp_all add: commitState_def)

definition commit_outcome :: "State \<Rightarrow> Heap \<Rightarrow> addr list \<Rightarrow> State \<times> addr option \<Rightarrow> Heap \<Rightarrow> bool" where
  "commit_outcome st h ok res h' \<longleftrightarrow>
     same_links h h' \<and> trees h' = trees h \<and> quorums h' = quorums h
   \<and> (\<forall>a. BlockState (blocks h' a) = (if a \<in> set ok then CommittedBlock else BlockState (blocks h a)))
   \<and> bs_blocks (sets h' (UnCommitBlocks st)) = filter (\<lambda>b. b \<notin> set ok) (bs_blocks (sets h (UnCommitBlocks st)))
   \<and> same_config st (fst res)
   \<and> (ok \<noteq> [] \<longrightarrow> snd res = Some (last ok) \<and> LastCommitedBlock (fst res) = Some (last ok)
        \<and> LastBlockSlot (fst res) = Slot (blocks h (last ok)))"

text \<open>A store that reports no error; it may still panic, which ends the process.\<close>

definition never_errs :: "'db Store \<Rightarrow> bool" where
  "never_errs commitBlock \<longleftrightarrow> (\<forall>st b db db' err. commitBlock st b db \<noteq> Inr (db', Inl err))"

lemma Commit_loop_outcome:
  "Commit_loop e commitBlock now st k bl (st0, l) h db = Inr (st', l', h', db') \<Longrightarrow>
    \<exists>ok. subseq ok bl \<and> commit_outcome st0 h ok (st', l') h' \<and> (ok = [] \<longrightarrow> st' = st0 \<and> l' = l)
      \<and> (never_errs commitBlock \<longrightarrow> ok = bl)"
proof (induction bl arbitrary: k st0 l h db)
  case Nil
  then show ?case by (auto simp: commit_outcome_def)
next
  case (Cons a bl)
  from Cons.prems obtain db1 r where c: "commitBlock st (blocks h a) db = Inr (db1, r)" by auto
  show ?case
  proof (cases r)
    case (Inl err)
    from Cons.prems c Inl have "Commit_loop e commitBlock now st (Suc k) bl (st0, l) (fst (hashBlock e a h)) db1 = Inr (st', l', h', db')"
      by simp
    from Cons.IH [OF this] obtain ok where ok: "subseq ok bl" "commit_outcome st0 (fst (hashBlock e a h)) ok (st', l') h'"
      "ok = [] \<longrightarrow> st' = st0 \<and> l' = l" by blast
    moreover have "\<not> never_errs commitBlock" using c Inl unfolding never_errs_def by blast
    moreover have "commit_outcome st0 h ok (st', l') h'"
      using ok(2) same_links_trans [OF same_links_hashBlock] by (auto simp: commit_outcome_def)
    ultimately show ?thesis by (auto intro: list_emb_Cons)
  next
    case (Inr rh)
    let ?h2 = "State_CommitBlock st0 a (UpdateBlockState (now k) a CommittedBlock h)"
    let ?st1 = "commitState st0 a rh (blocks ?h2 a)"
    from Cons.prems c Inr have "Commit_loop e commitBlock now st (Suc k) bl (?st1, Some a) ?h2 db1 = Inr (st', l', h', db')"
      by (simp add: Let_def)
    from Cons.IH [OF this] obtain ok where ok: "subseq ok bl" "commit_outcome ?st1 ?h2 ok (st', l') h'"
      "ok = [] \<longrightarrow> st' = ?st1 \<and> l' = Some a" "never_errs commitBlock \<longrightarrow> ok = bl" by blast
    have sl: "same_links h ?h2" by (simp add: same_links_def)
    have "commit_outcome st0 h (a # ok) (st', l') h'"
      using ok(2,3) same_links_trans [OF sl] same_config_trans [OF same_config_commitState, of st0]
      by (auto simp: commit_outcome_def intro!: filter_cong)
    then show ?thesis using ok(1,4) by (intro exI [of _ "a # ok"]) simp
  qed
qed

lemma Txs_Commit_step [simp]:
  "Txs (blocks (UpdateBlockState now b x h) c) = Txs (blocks h c)" "Txs (blocks (State_CommitBlock st a h) c) = Txs (blocks h c)"
  by (simp_all add: State_CommitBlock_def UpdateBlockState_def CalculateTime_def MarkTime_def Let_def)

text \<open>
  The contract between the executor and the store (\<open>state.Store\<close>): no error is reported, and blocks whose transactions are acceptable are committed
  without a panic.
\<close>

locale block_store =
  fixes commitBlock :: "'db Store"
    and accepts :: "Tx list \<Rightarrow> bool"
  assumes no_error: "commitBlock st b d \<noteq> Inr (d', Inl err)"
    and accepted: "accepts (Txs b) \<Longrightarrow> \<exists>x. commitBlock st b d = Inr x"
begin

lemma errs: "never_errs commitBlock"
  by (simp add: never_errs_def no_error)

lemma commits:
  assumes "accepts (Txs b)"
  obtains d' r where "commitBlock st b d = Inr (d', Inr r)"
proof -
  obtain d' x where x: "commitBlock st b d = Inr (d', x)" using accepted [OF assms] by (metis surj_pair)
  then show thesis using no_error that by (cases x) auto
qed

lemma Commit_loop_total:
  "\<forall>a \<in> set bl. accepts (Txs (blocks h a)) \<Longrightarrow> \<exists>st' l' h' d'. Commit_loop e commitBlock now st k bl (st0, l) h d = Inr (st', l', h', d')"
proof (induction bl arbitrary: k st0 l h d)
  case (Cons a bl)
  obtain d' r where "commitBlock st (blocks h a) d = Inr (d', Inr r)" using commits Cons.prems by (metis list.set_intros(1))
  then show ?case using Cons by (simp add: Let_def)
qed simp

end

section \<open>The invariant of the chain\<close>

lemma node_hash_links:
  assumes "hashed h t" "same_links h h'" "n < length (bt_nodes t)"
  shows "node_hash h' t n = node_hash h t n"
  using assms by (auto simp: hashed_def same_links_def node_hash_def node_block_def)

text \<open>No step that keeps hashes and links, and keeps the root committed, can break it.\<close>

lemma chain_invar_links:
  assumes inv: "chain_invar h t" and sl: "same_links h h'" and root: "\<not> uncommitted h' t 0"
  shows "chain_invar h' t"
proof -
  note hs = chain_invarD(6) [OF inv] and wf = chain_invarD(5) [OF inv]
  have nh: "n < length (bt_nodes t) \<Longrightarrow> node_hash h' t n = node_hash h t n" for n using node_hash_links [OF hs sl] .
  have "unique_hashes h' t" using chain_invarD(1) [OF inv] nh by (auto simp: tree_invar_def unique_hashes_def inj_on_def)
  moreover have "linked h' t" unfolding linked_def
  proof (intro allI impI)
    fix n p assume n: "n < length (bt_nodes t)" and p: "tn_parent (bt_nodes t ! n) = Some p"
    have "p < length (bt_nodes t)" using wf_nodes_parent(1) [OF wf n p] n by simp
    then show "LastBlockHash (node_block h' t n) = node_hash h' t p"
      using chain_invarD(2) [OF inv] n p nh sl by (simp add: linked_def same_links_def node_block_def)
  qed
  moreover have "hashed h' t" using hs sl by (simp add: hashed_def same_links_def node_block_def)
  ultimately show ?thesis using chain_invarD(4) [OF inv] root by (simp add: chain_invar_def tree_invar_def)
qed

lemma node_block_AddBlocks:
  assumes "wf_tree t" "AddBlocks h x a t = Inr (t', None)" "i \<le> length (bt_nodes t)"
  shows "node_block h t' i = (if i = length (bt_nodes t) then blocks h a else node_block h t i)"
proof -
  obtain p where "p < length (bt_nodes t)" "bt_nodes t' = add_node p a (bt_nodes t)"
    using AddBlocks_ok [OF assms(1,2)] by blast
  with assms(3) show ?thesis by (simp add: node_block_def tn_data_add_node)
qed

text \<open>Inserting a block that has a hash under the hash of its parent keeps the invariant.\<close>

lemma linked_add_node:
  assumes inv: "chain_invar h t" and t': "bt_nodes t' = add_node p a (bt_nodes t)" "p < length (bt_nodes t)"
    and x: "node_hash h t p = LastBlockHash (blocks h a)"
  shows "linked h t'"
  unfolding linked_def
proof (intro allI impI)
  fix n q assume n: "n < length (bt_nodes t')" and q: "tn_parent (bt_nodes t' ! n) = Some q"
  note wf = chain_invarD(5) [OF inv]
  have nh: "i < length (bt_nodes t) \<Longrightarrow> node_hash h t' i = node_hash h t i" for i
    using t' by (simp add: node_hash_def tn_data_add_node)
  show "LastBlockHash (node_block h t' n) = node_hash h t' q"
  proof (cases "n = length (bt_nodes t)")
    case True
    then show ?thesis using q t' x nh by (simp add: node_block_def nth_add_node)
  next
    case False
    then have n': "n < length (bt_nodes t)" using n t' by simp
    then have "tn_parent (bt_nodes t ! n) = Some q" using q t' by (auto simp: nth_add_node split: if_splits)
    moreover from this have "q < length (bt_nodes t)" using wf_nodes_parent(1) [OF wf n'] n' by force
    ultimately show ?thesis using chain_invarD(2) [OF inv] n' nh t'
      by (simp add: linked_def node_block_def tn_data_add_node)
  qed
qed

lemma chain_invar_AddBlocks:
  assumes inv: "chain_invar h t" and hash: "BlockHash (blocks h a) \<noteq> None"
    and add: "AddBlocks h (LastBlockHash (blocks h a)) a t = Inr (t', err)"
  shows "chain_invar h t'"
proof (cases err)
  case (Some x)
  then show ?thesis using tree_index.insertion_fails chain_invarD(1) [OF inv] add inv by blast
next
  case None
  note wf = chain_invarD(4) [OF inv]
  obtain p where p: "p < length (bt_nodes t)" "node_hash h t p = LastBlockHash (blocks h a)"
    "bt_nodes t' = add_node p a (bt_nodes t)" using AddBlocks_ok [OF wf] add None by blast
  have nb: "i \<le> length (bt_nodes t) \<Longrightarrow> node_block h t' i = (if i = length (bt_nodes t) then blocks h a else node_block h t i)" for i
    using node_block_AddBlocks [OF wf] add None by blast
  have ne: "0 < length (bt_nodes t)" using p(1) by linarith
  have "hashed h t'" using chain_invarD(6) [OF inv] hash p(3) nb by (simp add: hashed_def)
  moreover have "\<not> uncommitted h t' 0" using chain_invarD(3) [OF inv] nb [of 0] ne by (simp add: uncommitted_def)
  moreover have "tree_invar h t'" using tree_index.insertion_invar chain_invarD(1) [OF inv] add None by blast
  ultimately show ?thesis using linked_add_node [OF inv p(3,1,2)] by (simp add: chain_invar_def)
qed

text \<open>The state a node carries: a block tree that satisfies the invariant.\<close>

definition state_invar :: "State \<Rightarrow> Heap \<Rightarrow> bool" where
  "state_invar st h \<longleftrightarrow> (\<exists>ta. st_BlockTree st = Some ta \<and> chain_invar h (trees h ta))"

lemma chain_invar_store_frame [simp]:
  "chain_invar (putTree a t h) t' = chain_invar h t'" "chain_invar (putSet a s h) t' = chain_invar h t'"
  by (simp_all add: chain_invar_def tree_invar_def unique_hashes_def linked_def hashed_def uncommitted_def node_block_def node_hash_def
      inj_on_def)


section \<open>Applying a block\<close>

text \<open>The heap in which \<open>ApplyBlock\<close> decides what to commit.\<close>

lemma ApplyBlock_cases:
  assumes ta: "st_BlockTree st = Some ta" and res: "ApplyBlock e commitBlock now st a h db = Inr (st', err, h', db')"
  obtains (invalid) t x where "AddBlocks h (LastBlockHash (blocks h a)) a (trees h ta) = Inr (t, x)"
      "validateBlock e st (blocks h a) = err" "err \<noteq> None" "st' = st" "h' = putTree ta t h" "db' = db"
  | (applied) t x h2 bl l where "AddBlocks h (LastBlockHash (blocks h a)) a (trees h ta) = Inr (t, x)"
      "validateBlock e st (blocks h a) = None" "err = None"
      "h2 = putSet (UnCommitBlocks st) (BlockSet_AddBlock (sets h (UnCommitBlocks st)) a) (putTree ta t h)"
      "decideCommitBlocks st a h2 = Inr bl"
      "Executor_Commit e commitBlock now st bl h2 db = Inr (st', l, h', db')"
  using assms by (auto simp: ApplyBlock_def Let_def split: option.splits prod.splits)

lemma Executor_Commit_outcome:
  assumes "Executor_Commit e commitBlock now st bl h db = Inr (st', l', h', db')"
  obtains ok where "subseq ok bl" "commit_outcome st h ok (st', l') h'" "ok = [] \<longrightarrow> st' = st"
    "never_errs commitBlock \<longrightarrow> ok = bl"
  using Commit_loop_outcome [OF assms [unfolded Executor_Commit_def]] by blast

lemma ApplyBlock_invar:
  assumes inv: "state_invar st h" and hash: "BlockHash (blocks h a) \<noteq> None"
    and res: "ApplyBlock e commitBlock now st a h db = Inr (st', err, h', db')"
  shows "state_invar st' h'"
proof -
  obtain ta where ta: "st_BlockTree st = Some ta" "chain_invar h (trees h ta)" using inv by (auto simp: state_invar_def)
  show ?thesis using ta(1) res
  proof (cases rule: ApplyBlock_cases)
    case (invalid t x)
    then show ?thesis using chain_invar_AddBlocks [OF ta(2) hash] ta(1) by (simp add: state_invar_def)
  next
    case (applied t x h2 bl l)
    have t: "chain_invar h2 (trees h2 ta)" using chain_invar_AddBlocks [OF ta(2) hash applied(1)] applied(4) by simp
    from Executor_Commit_outcome [OF applied(6)] obtain ok where ok: "commit_outcome st h2 ok (st', l) h'" by blast
    have "\<not> uncommitted h' (trees h2 ta) 0"
      using ok chain_invarD(3) [OF t] by (simp add: commit_outcome_def uncommitted_def node_block_def)
    then show ?thesis
      using ok chain_invar_links [OF t, of h'] ta(1) by (auto simp: commit_outcome_def state_invar_def same_config_def)
  qed
qed

lemma ApplyBlock_config:
  assumes "ApplyBlock e commitBlock now st a h db = Inr (st', err, h', db')"
  shows "same_config st st'"
proof -
  obtain ta where "st_BlockTree st = Some ta" using assms by (auto simp: ApplyBlock_def)
  then show ?thesis using assms
    by (cases rule: ApplyBlock_cases) (auto elim!: Executor_Commit_outcome simp: commit_outcome_def)
qed

text \<open>
  With a store that does not fail, and blocks whose commit evidence can be read, \<open>ApplyBlock\<close> returns.
\<close>

definition readable :: "Heap \<Rightarrow> addr \<Rightarrow> bool" where
  "readable h a \<longleftrightarrow> (\<forall>c. Block_Commit (blocks h a) = Some c \<longrightarrow> (\<exists>r. IsReady h c = Inr r))"

lemma IsReady_cong:
  assumes "quorums h' = quorums h" "\<And>w. BlockState (blocks h' w) = BlockState (blocks h w)"
  shows "IsReady h' c = IsReady h c"
  unfolding IsReady_def Let_def by (simp only: assms)

lemma IsReady_store_frame [simp]: "IsReady (putTree x t h) c = IsReady h c" "IsReady (putSet x s h) c = IsReady h c"
  by (rule IsReady_cong; simp)+

section \<open>Committed blocks are closed under parents\<close>

definition commits_closed :: "Heap \<Rightarrow> BlockTree \<Rightarrow> bool" where
  "commits_closed h t \<longleftrightarrow> (\<forall>n < length (bt_nodes t). \<forall>p. tn_parent (bt_nodes t ! n) = Some p \<longrightarrow>
     \<not> uncommitted h t n \<longrightarrow> \<not> uncommitted h t p)"

lemma up_bounds: "wf_nodes ns \<Longrightarrow> m < length ns \<Longrightarrow> n \<in> set (up ns m) \<Longrightarrow> n < length ns"
  using set_up [of ns m] descends_less by (metis insertE less_trans mem_Collect_eq)

lemma pending_above_node:
  assumes inv: "chain_invar h t" and b: "b \<in> set (pending_above h t a)"
  shows "\<exists>m < length (bt_nodes t). b = tn_data (bt_nodes t ! m)"
proof -
  obtain m where m: "queryNodeByHash h t (LastBlockHash (blocks h a)) = Inr (Some m)"
    using b by (cases "queryNodeByHash h t (LastBlockHash (blocks h a))") (auto simp: pending_above_def split: option.splits)
  then have "b \<in> set (map (\<lambda>n. tn_data (bt_nodes t ! n)) (takeWhile (uncommitted h t) (up (bt_nodes t) m)))"
    using b by (simp add: pending_above_def)
  then obtain n where "b = tn_data (bt_nodes t ! n)" "n \<in> set (up (bt_nodes t) m)" by (auto dest: set_takeWhileD)
  then show ?thesis using queryNodeByHash_Some(1) [OF chain_invarD(4) [OF inv] m] up_bounds chain_invarD(5) [OF inv] by blast
qed

lemma parent_in_pending:
  assumes inv: "chain_invar h t" and n: "n < length (bt_nodes t)" "tn_parent (bt_nodes t ! n) = Some p" "uncommitted h t p"
    and a: "tn_data (bt_nodes t ! n) \<in> set (a # pending_above h t a)"
  shows "tn_data (bt_nodes t ! p) \<in> set (pending_above h t a)"
proof -
  let ?xs = "a # pending_above h t a"
  obtain i where i: "i < length ?xs" "?xs ! i = tn_data (bt_nodes t ! n)" using a by (metis in_set_conv_nth)
  have p: "p < length (bt_nodes t)" using wf_nodes_parent(1) [OF chain_invarD(5) [OF inv] n(1,2)] n(1) by simp
  have lk: "LastBlockHash (blocks h (?xs ! i)) = node_hash h t p"
    using chain_invarD(2) [OF inv] n(1,2) i(2) by (simp add: linked_def node_block_def)
  have q: "QueryBlockByHash h t (LastBlockHash (blocks h (?xs ! i))) = Inr (Some (tn_data (bt_nodes t ! p)))"
    using QueryBlockByHash_node [OF chain_invarD(1) [OF inv] p] lk by simp
  have "?xs ! i \<noteq> last ?xs"
    using pending_above_stops [OF inv] q n(3) unfolding uncommitted_def node_block_def by metis
  then have "i \<noteq> length ?xs - 1" by (metis last_conv_nth list.discI)
  then have i': "Suc i < length ?xs" using i(1) by simp
  obtain m where m: "?xs ! Suc i = tn_data (bt_nodes t ! m)" "m < length (bt_nodes t)"
    using pending_above_node [OF inv] i' by (metis Suc_less_eq length_Cons nth_Cons_Suc nth_mem)
  have "node_hash h t m = node_hash h t p"
    using pending_above_linked [OF inv i'] lk m by (simp add: node_hash_def)
  then have "m = p" using chain_invarD(1) [OF inv] m(2) p by (auto simp: tree_invar_def unique_hashes_def inj_on_def)
  then show ?thesis using m(1) i' by (metis Suc_less_eq length_Cons nth_Cons_Suc nth_mem)
qed


text \<open>Committing a ready block together with its pending ancestors keeps the committed blocks closed.\<close>

lemma commits_closed_commit:
  assumes inv: "chain_invar h t" and cl: "commits_closed h t"
    and bs: "\<And>b. BlockState (blocks h' b) = (if b \<in> set (a # pending_above h t a) then CommittedBlock else BlockState (blocks h b))"
  shows "commits_closed h' t"
  unfolding commits_closed_def
proof (intro allI impI)
  fix n p assume n: "n < length (bt_nodes t)" "tn_parent (bt_nodes t ! n) = Some p" and c: "\<not> uncommitted h' t n"
  show "\<not> uncommitted h' t p"
  proof (cases "uncommitted h t p")
    case True
    then have "uncommitted h t n" using cl n by (auto simp: commits_closed_def)
    then have "tn_data (bt_nodes t ! n) \<in> set (a # pending_above h t a)"
      using c bs by (metis uncommitted_def node_block_def)
    from parent_in_pending [OF inv n True this] show ?thesis by (simp add: uncommitted_def node_block_def bs)
  next
    case False
    then show ?thesis by (simp add: uncommitted_def node_block_def bs)
  qed
qed

lemma commits_closed_AddBlocks:
  assumes inv: "chain_invar h t" and cl: "commits_closed h t" and new: "\<not> committed h a"
    and add: "AddBlocks h x a t = Inr (t', err)"
  shows "commits_closed h t'"
proof (cases err)
  case (Some y)
  then show ?thesis using tree_index.insertion_fails chain_invarD(1) [OF inv] add cl by blast
next
  case None
  note wf = chain_invarD(4,5) [OF inv]
  obtain q where q: "q < length (bt_nodes t)" "bt_nodes t' = add_node q a (bt_nodes t)" using AddBlocks_ok [OF wf(1)] add None by blast
  have u: "i \<le> length (bt_nodes t) \<Longrightarrow> uncommitted h t' i = (i = length (bt_nodes t) \<or> uncommitted h t i)" for i
    using node_block_AddBlocks [OF wf(1)] add None new by (auto simp: uncommitted_def committed_def)
  show ?thesis unfolding commits_closed_def
  proof (intro allI impI)
    fix n p assume n: "n < length (bt_nodes t')" "tn_parent (bt_nodes t' ! n) = Some p" and c: "\<not> uncommitted h t' n"
    have n': "n < length (bt_nodes t)" using n(1) c u [of n] q(2) by (auto simp: less_Suc_eq)
    then have p: "tn_parent (bt_nodes t ! n) = Some p" using n(2) q by (auto simp: nth_add_node split: if_splits)
    moreover from this have "p < length (bt_nodes t)" using wf_nodes_parent(1) [OF wf(2) n'] n' by force
    ultimately show "\<not> uncommitted h t' p" using cl c u n' by (auto simp: commits_closed_def)
  qed
qed

lemma commits_closed_frame [simp]:
  "commits_closed (putTree x s h) t = commits_closed h t" "commits_closed (putSet x s' h) t = commits_closed h t"
  by (simp_all add: commits_closed_def uncommitted_def node_block_def)

lemma ApplyBlock_closed:
  assumes ta: "st_BlockTree st = Some ta" and inv: "chain_invar h (trees h ta)" and cl: "commits_closed h (trees h ta)"
    and hash: "BlockHash (blocks h a) \<noteq> None" and new: "\<not> committed h a" and store: "never_errs commitBlock"
    and res: "ApplyBlock e commitBlock now st a h db = Inr (st', err, h', db')"
  shows "commits_closed h' (trees h' ta)"
  using ta res
proof (cases rule: ApplyBlock_cases)
  case (invalid t x)
  then show ?thesis using commits_closed_AddBlocks [OF inv cl new] by simp
next
  case (applied t x h2 bl l)
  have t: "chain_invar h2 t" "trees h2 ta = t" using chain_invar_AddBlocks [OF inv hash applied(1)] applied(4) by simp_all
  have cl2: "commits_closed h2 t" using commits_closed_AddBlocks [OF inv cl new applied(1)] applied(4) by simp
  have ok: "commit_outcome st h2 bl (st', l) h'" using Executor_Commit_outcome [OF applied(6)] store by metis
  show ?thesis
  proof (cases "bl = []")
    case True
    then show ?thesis using ok cl2 t(2) by (simp add: commit_outcome_def commits_closed_def uncommitted_def node_block_def)
  next
    case False
    have "\<exists>b. bl = rev (pending_above h2 t b) @ [b]"
      using applied(5) False decideCommitBlocks_pending [OF ta, of h2 a] t by (auto simp: Let_def split: option.splits)
    then obtain b where bl: "bl = rev (pending_above h2 t b) @ [b]" by blast
    have "commits_closed h' t"
      using ok bl by (intro commits_closed_commit [OF t(1) cl2, of h' b]) (simp add: commit_outcome_def)
    then show ?thesis using ok t(2) by (simp add: commit_outcome_def)
  qed
qed

section \<open>Totality\<close>

lemma AddBlocks_blocks:
  assumes "wf_tree t" "AddBlocks h x a t = Inr (t', err)"
  shows "\<exists>new. map tn_data (bt_nodes t') = map tn_data (bt_nodes t) @ new \<and> set new \<subseteq> {a}"
proof (cases err)
  case None
  then obtain p where p: "p < length (bt_nodes t)" "bt_nodes t' = add_node p a (bt_nodes t)" using AddBlocks_ok [OF assms(1)] assms(2) by blast
  have "map tn_data (bt_nodes t') = map tn_data (bt_nodes t) @ [a]"
    by (rule nth_equalityI) (auto simp: p(2) tn_data_add_node [OF p(1)] nth_append less_Suc_eq)
  then show ?thesis by auto
next
  case (Some y)
  then have "t' = t" using AddBlocks_cases [OF assms(1), of h x a] assms(2) by auto
  then show ?thesis by auto
qed

lemma decideCommitBlocks_known:
  assumes "st_BlockTree st = Some ta" "chain_invar h (trees h ta)" "decideCommitBlocks st a h = Inr bl" "b \<in> set bl"
  shows "b \<in> tn_data ` set (bt_nodes (trees h ta)) \<union> set (bs_blocks (sets h (UnCommitBlocks st)))"
proof -
  let ?bs = "bs_blocks (sets h (UnCommitBlocks st))"
  obtain r where r: "ready_loop h ?bs (length ?bs) = Inr r"
    "bl = (case r of None \<Rightarrow> [] | Some i \<Rightarrow> rev (pending_above h (trees h ta) (?bs ! i)) @ [?bs ! i])"
    using assms(3) unfolding decideCommitBlocks_pending [OF assms(1,2)] by (auto simp: Let_def split: option.splits)
  then obtain i where i: "r = Some i" using assms(4) by (cases r) auto
  have "i < length ?bs" using ready_loop_Some r(1) i by blast
  then show ?thesis using r(2) i assms(4) pending_above_node [OF assms(2)] by (auto simp: image_iff) (metis nth_mem)
qed

context block_store
begin

text \<open>\<open>ApplyBlock\<close> returns when every block it may commit is acceptable and evidence can be read.\<close>

lemma ApplyBlock_total:
  assumes inv: "state_invar st h" and ta: "st_BlockTree st = Some ta" and hash: "BlockHash (blocks h a) \<noteq> None"
    and rd: "\<And>b. b \<in> set (bs_blocks (sets h (UnCommitBlocks st))) \<union> {a} \<Longrightarrow> readable h b"
    and acc: "\<And>b. b \<in> tn_data ` set (bt_nodes (trees h ta)) \<union> set (bs_blocks (sets h (UnCommitBlocks st))) \<union> {a} \<Longrightarrow> accepts (Txs (blocks h b))"
  shows "\<exists>st' err h' d'. ApplyBlock e commitBlock now st a h d = Inr (st', err, h', d')"
proof -
  have ci: "chain_invar h (trees h ta)" using inv ta by (auto simp: state_invar_def)
  obtain t x where add: "AddBlocks h (LastBlockHash (blocks h a)) a (trees h ta) = Inr (t, x)"
    using AddBlocks_total chain_invarD(4) [OF ci] by blast
  let ?h2 = "putSet (UnCommitBlocks st) (BlockSet_AddBlock (sets h (UnCommitBlocks st)) a) (putTree ta t h)"
  have ci2: "chain_invar ?h2 (trees ?h2 ta)" using chain_invar_AddBlocks [OF ci hash add] by simp
  from decideCommitBlocks_total [OF ta this, of a] rd
  obtain bl where bl: "decideCommitBlocks st a ?h2 = Inr bl" by (auto simp: readable_def BlockSet_AddBlock_def)
  obtain new where n: "map tn_data (bt_nodes t) = map tn_data (bt_nodes (trees h ta)) @ new" "set new \<subseteq> {a}"
    using AddBlocks_blocks [OF chain_invarD(4) [OF ci] add] by blast
  have "set (map tn_data (bt_nodes t)) = set (map tn_data (bt_nodes (trees h ta))) \<union> set new" unfolding n(1) by simp
  then have "tn_data ` set (bt_nodes t) \<subseteq> insert a (tn_data ` set (bt_nodes (trees h ta)))" using n(2) by auto
  then have "accepts (Txs (blocks ?h2 b))" if "b \<in> set bl" for b
    using decideCommitBlocks_known [OF ta ci2 bl that] acc [of b] by (auto simp: BlockSet_AddBlock_def)
  then obtain st' l' h' d' where "Executor_Commit e commitBlock now st bl ?h2 d = Inr (st', l', h', d')"
    using Commit_loop_total [of bl ?h2] unfolding Executor_Commit_def by blast
  then show ?thesis using ta add bl by (cases "validateBlock e st (blocks h a)") (auto simp: ApplyBlock_def Let_def)
qed

end

end
