(* ===== verification/VoteSets.thy ===== *)
theory VoteSets
  imports Blocks Threshold
begin

text \<open>
  The votes of each slot and the quorums they give: consensus/types/slot\_vote\_set.go.
\<close>

section \<open>Model\<close>

record voteSet =
  vs_blockHash :: bytes
  votes :: "Vote list"

type_synonym SlotVoteSet = "LTime \<rightharpoonup> voteSet"

definition MakeSlotVoteSet :: SlotVoteSet where
  "MakeSlotVoteSet = Map.empty"

definition NewVoteSet :: "bytes \<Rightarrow> voteSet" where
  "NewVoteSet hash = \<lparr>vs_blockHash = hash, votes = []\<rparr>"

datatype voteErr = ErrDuplicateVote

fun AddVote_loop :: "Vote \<Rightarrow> Vote list \<Rightarrow> bool" where
  "AddVote_loop vote [] = False"
| "AddVote_loop vote (v # vs) = (if Vote_Equal (Some v) (Some vote) then True else AddVote_loop vote vs)"

definition voteSet_AddVote :: "voteSet \<Rightarrow> Vote \<Rightarrow> voteSet \<times> voteErr option" where
  "voteSet_AddVote vs vote =
     (if AddVote_loop vote (votes vs) then (vs, Some ErrDuplicateVote)
      else (vs\<lparr>votes := votes vs @ [vote]\<rparr>, None))"

text \<open>The set of a slot is created, with the block hash of its first vote, before the vote is added.\<close>

definition AddVote :: "SlotVoteSet \<Rightarrow> Vote \<Rightarrow> SlotVoteSet \<times> voteErr option" where
  "AddVote slotvs vote =
     (let slot = v_Slot vote;
          vs = (case slotvs slot of None \<Rightarrow> NewVoteSet (v_BlockHash vote) | Some vs \<Rightarrow> vs);
          (vs', err) = voteSet_AddVote vs vote
      in (slotvs(slot \<mapsto> vs'), err))"

definition GetVotesBySlot :: "SlotVoteSet \<Rightarrow> LTime \<Rightarrow> voteSet option" where
  "GetVotesBySlot slotvs slot = slotvs slot"

definition SlotVoteSet_Size :: "SlotVoteSet \<Rightarrow> LTime \<Rightarrow> nat" where
  "SlotVoteSet_Size slotvs slot = (case slotvs slot of None \<Rightarrow> 0 | Some vs \<Rightarrow> length (votes vs))"

fun getSignsAndIdsFromVotes :: "Vote list \<Rightarrow> bytes list \<times> int64 list" where
  "getSignsAndIdsFromVotes [] = ([], [])"
| "getSignsAndIdsFromVotes (vote # vs) =
     (let (sigs, ids) = getSignsAndIdsFromVotes vs
      in (v_Signature vote # sigs, scast (ValidatorIndex vote + 1) # ids))"

text \<open>The loop that splits the votes into those in favour and those against.\<close>

fun splitVotes :: "Vote list \<Rightarrow> Vote list \<times> Vote list \<Rightarrow> Vote list \<times> Vote list" where
  "splitVotes [] (supportVotes, againstVotes) = (supportVotes, againstVotes)"
| "splitVotes (vote # vs) (supportVotes, againstVotes) =
     (if v_Type vote = AgainstVote then splitVotes vs (supportVotes, againstVotes @ [vote])
      else if v_Type vote = SupportVote then splitVotes vs (supportVotes @ [vote], againstVotes)
      else splitVotes vs (supportVotes, againstVotes))"

definition TryGenQuorum :: "('s, 'g) Crypto \<Rightarrow> voteSet \<Rightarrow> int64 \<Rightarrow> Quorum" where
  "TryGenQuorum e vs threshold =
     (let (supportVotes, againstVotes) = splitVotes (votes vs) ([], []);
          (majorityVotes, quorumType) =
            (if int (length supportVotes) \<ge> sint threshold then (Some supportVotes, SupportQuorum)
             else if int (length againstVotes) \<ge> sint threshold then (Some againstVotes, AgainstQuorum)
             else (None, EmptyQuorum));
          (signature, quorumType') =
            (case majorityVotes of
               None \<Rightarrow> ([], quorumType)
             | Some mv \<Rightarrow>
                 let (sigs, ids) = getSignsAndIdsFromVotes mv in
                 case SignatureRecovery (suite e) threshold sigs ids of
                   Inl err \<Rightarrow> ([], EmptyQuorum)
                 | Inr sig \<Rightarrow> (sig, quorumType))
      in \<lparr>q_SLot = 0, q_BlockHash = vs_blockHash vs, q_Type = quorumType', q_Signature = signature\<rparr>)"

section \<open>One vote per validator and slot\<close>

lemma AddVote_loop_iff: "AddVote_loop vote vs \<longleftrightarrow> (\<exists>v \<in> set vs. Vote_Equal (Some v) (Some vote))"
  by (induction vs) auto

lemma Vote_Equal_Some: "Vote_Equal (Some v) (Some w) \<longleftrightarrow> v_Slot v = v_Slot w \<and> ValidatorAddress v = ValidatorAddress w"
  by (simp add: Vote_Equal_def)

text \<open>
  Every vote of a set belongs to its slot, and no validator is in it twice.
\<close>

definition wf_slot :: "LTime \<Rightarrow> voteSet \<Rightarrow> bool" where
  "wf_slot slot vs \<longleftrightarrow> (\<forall>v \<in> set (votes vs). v_Slot v = slot) \<and> distinct (map ValidatorAddress (votes vs))"

definition wf_votes :: "SlotVoteSet \<Rightarrow> bool" where
  "wf_votes slotvs \<longleftrightarrow> (\<forall>slot vs. slotvs slot = Some vs \<longrightarrow> wf_slot slot vs)"

lemma wf_MakeSlotVoteSet: "wf_votes MakeSlotVoteSet"
  by (simp add: wf_votes_def MakeSlotVoteSet_def)

lemma wf_slot_AddVote:
  assumes "wf_slot (v_Slot vote) vs" "voteSet_AddVote vs vote = (vs', err)"
  shows "wf_slot (v_Slot vote) vs'"
  using assms by (force simp: wf_slot_def voteSet_AddVote_def AddVote_loop_iff Vote_Equal_Some split: if_splits)

lemma wf_AddVote:
  assumes "wf_votes slotvs" "AddVote slotvs vote = (slotvs', err)"
  shows "wf_votes slotvs'"
proof -
  let ?vs = "case slotvs (v_Slot vote) of None \<Rightarrow> NewVoteSet (v_BlockHash vote) | Some vs \<Rightarrow> vs"
  have "wf_slot (v_Slot vote) ?vs"
    using assms(1) by (auto simp: wf_votes_def wf_slot_def NewVoteSet_def split: option.split)
  from wf_slot_AddVote [OF this] have "wf_slot (v_Slot vote) (fst (voteSet_AddVote ?vs vote))" by (metis prod.collapse)
  then show ?thesis using assms by (auto simp: AddVote_def Let_def wf_votes_def split: prod.splits if_splits)
qed

lemma AddVote_accepts_iff:
  "snd (AddVote slotvs vote) = None \<longleftrightarrow>
     (\<forall>vs. slotvs (v_Slot vote) = Some vs \<longrightarrow> (\<forall>v \<in> set (votes vs). \<not> Vote_Equal (Some v) (Some vote)))"
  by (auto simp: AddVote_def Let_def voteSet_AddVote_def AddVote_loop_iff NewVoteSet_def split: option.splits)

lemma AddVote_other: "slot \<noteq> v_Slot vote \<Longrightarrow> fst (AddVote slotvs vote) slot = slotvs slot"
  by (simp add: AddVote_def Let_def split: prod.split)

lemma AddVote_added:
  assumes "AddVote slotvs vote = (slotvs', None)"
  shows "\<exists>vs. slotvs' (v_Slot vote) = Some vs \<and> vote \<in> set (votes vs)"
  using assms by (auto simp: AddVote_def Let_def voteSet_AddVote_def split: if_splits)

section \<open>Quorums\<close>

lemma splitVotes_filter:
  "splitVotes vs (s, a) = (s @ filter (\<lambda>v. v_Type v = SupportVote) vs, a @ filter (\<lambda>v. v_Type v = AgainstVote) vs)"
  by (induction vs arbitrary: s a) auto

lemma getSignsAndIds_map:
  "getSignsAndIdsFromVotes vs = (map v_Signature vs, map (\<lambda>v. scast (ValidatorIndex v + 1)) vs)"
  by (induction vs) simp_all

definition supporters :: "voteSet \<Rightarrow> Vote list" where
  "supporters vs = filter (\<lambda>v. v_Type v = SupportVote) (votes vs)"

definition opponents :: "voteSet \<Rightarrow> Vote list" where
  "opponents vs = filter (\<lambda>v. v_Type v = AgainstVote) (votes vs)"

definition recovered :: "('s, 'g) Crypto \<Rightarrow> int64 \<Rightarrow> Vote list \<Rightarrow> thrErr + bytes" where
  "recovered e threshold vs = SignatureRecovery (suite e) threshold (map v_Signature vs) (map (\<lambda>v. scast (ValidatorIndex v + 1)) vs)"

lemma TryGenQuorum_type:
  "q_Type (TryGenQuorum e vs thr) =
    (if int (length (supporters vs)) \<ge> sint thr then if isl (recovered e thr (supporters vs)) then EmptyQuorum else SupportQuorum
     else if int (length (opponents vs)) \<ge> sint thr then if isl (recovered e thr (opponents vs)) then EmptyQuorum else AgainstQuorum
     else EmptyQuorum)"
  by (auto simp: TryGenQuorum_def Let_def splitVotes_filter getSignsAndIds_map supporters_def opponents_def recovered_def split: sum.splits)

lemma distinct_map_filter': "distinct (map f xs) \<Longrightarrow> distinct (map f (filter P xs))"
  by (induction xs) auto

text \<open>A quorum is backed by as many different validators of that slot as the threshold demands.\<close>

lemma TryGenQuorum_backed:
  assumes "wf_slot slot vs" "q_Type (TryGenQuorum e vs thr) = SupportQuorum"
  shows "sint thr \<le> int (card {ValidatorAddress v | v. v \<in> set (votes vs) \<and> v_Type v = SupportVote \<and> v_Slot v = slot})"
proof -
  have "sint thr \<le> int (length (supporters vs))" using assms(2) by (simp add: TryGenQuorum_type split: if_splits)
  also have "length (supporters vs) = card (set (map ValidatorAddress (supporters vs)))"
    using assms(1) distinct_card [of "map ValidatorAddress (supporters vs)"]
    by (simp add: wf_slot_def supporters_def distinct_map_filter' del: set_map)
  also have "set (map ValidatorAddress (supporters vs)) = {ValidatorAddress v | v. v \<in> set (votes vs) \<and> v_Type v = SupportVote \<and> v_Slot v = slot}"
    using assms(1) by (auto simp: wf_slot_def supporters_def)
  finally show ?thesis .
qed

end
