(* ===== verification/SlotClocks.thy ===== *)
theory SlotClocks
  imports LogicTime
begin

text \<open>
  The slot clock of consensus/slot.go: a timer whose expiry travels through two channels before it
  advances the slot number and is handed to the consensus routine. Sends on the unbuffered
  channels are made from goroutines of their own, so each channel is the list of the values
  waiting to be received, in no particular order.
\<close>

section \<open>Model\<close>

text \<open>A \<open>time.Duration\<close>, in nanoseconds.\<close>

type_synonym Duration = int

definition Second :: Duration where
  "Second = 1000000000"

datatype RoundStepType = RoundStepSlot | RoundStepApply | RoundStepPropose | RoundStepWait

fun RoundStepType_String :: "RoundStepType \<Rightarrow> string" where
  "RoundStepType_String RoundStepSlot = ''RoundStepSlot''"
| "RoundStepType_String RoundStepApply = ''RoundStepApply''"
| "RoundStepType_String RoundStepPropose = ''RoundStepPropose''"
| "RoundStepType_String RoundStepWait = ''RoundStepWait''"

record timeoutInfo =
  ti_Duration :: Duration
  ti_Slot :: LTime
  ti_Step :: RoundStepType

text \<open>
  \<open>t_active\<close>: the timer is running; \<open>t_C\<close>: its channel, which holds one value. \<open>timerChan\<close> and
  \<open>tockChan\<close> are the channels of the same names.
\<close>

record slotClock =
  curslot :: LTime
  lastUptTime :: Time
  lastDuration :: Duration
  t_active :: bool
  t_C :: "Time option"
  timerChan :: "Time list"
  tockChan :: "timeoutInfo list"

definition NewSlotClock :: "LTime \<Rightarrow> Time \<Rightarrow> slotClock" where
  "NewSlotClock initSlot now = \<lparr>curslot = initSlot, lastUptTime = now, lastDuration = 100 * Second,
     t_active = True, t_C = None, timerChan = [], tockChan = []\<rparr>"

text \<open>Expiry of the timer: a send that drops the value when the channel is full.\<close>

definition timer_expires :: "Time \<Rightarrow> slotClock \<Rightarrow> slotClock" where
  "timer_expires now sc = sc\<lparr>t_active := False, t_C := (case t_C sc of None \<Rightarrow> Some now | Some x \<Rightarrow> Some x)\<rparr>"

text \<open>The two cases of the loop that \<open>OnStart\<close> starts.\<close>

definition OnStart_timer :: "Time \<Rightarrow> slotClock \<Rightarrow> slotClock" where
  "OnStart_timer now sc = sc\<lparr>t_C := None, timerChan := timerChan sc @ [now]\<rparr>"

definition OnStart_tick :: "Time \<Rightarrow> slotClock \<Rightarrow> slotClock" where
  "OnStart_tick now sc =
     (let sc1 = sc\<lparr>timerChan := remove1 now (timerChan sc), lastUptTime := now, curslot := Update (curslot sc) 1\<rparr>;
          ti = \<lparr>ti_Duration = lastDuration sc1, ti_Slot = curslot sc1, ti_Step = RoundStepSlot\<rparr>
      in sc1\<lparr>tockChan := tockChan sc1 @ [ti]\<rparr>)"

definition GetSlot :: "slotClock \<Rightarrow> LTime" where
  "GetSlot sc = curslot sc"

definition GetLastUptTime :: "slotClock \<Rightarrow> Time" where
  "GetLastUptTime sc = lastUptTime sc"

definition GetLastDuration :: "slotClock \<Rightarrow> Duration" where
  "GetLastDuration sc = lastDuration sc"

text \<open>
  \<open>ResetClock\<close>: where \<open>Stop\<close> reports that the timer was not running, a value left in its channel is
  drained.
\<close>

definition ResetClock :: "Duration \<Rightarrow> slotClock \<Rightarrow> slotClock" where
  "ResetClock after sc = sc\<lparr>lastDuration := after, t_C := (if t_active sc then t_C sc else None), t_active := True\<rparr>"

definition clock_Stop :: "slotClock \<Rightarrow> slotClock" where
  "clock_Stop sc = sc\<lparr>t_active := False\<rparr>"

section \<open>Ticks\<close>

text \<open>The ticks that the clock has still to deliver.\<close>

definition ticks :: "slotClock \<Rightarrow> nat" where
  "ticks sc = of_bool (t_active sc) + of_bool (t_C sc \<noteq> None) + length (timerChan sc) + length (tockChan sc)"

text \<open>The ticks that have already advanced the slot.\<close>

definition tocked :: "slotClock \<Rightarrow> nat" where
  "tocked sc = length (tockChan sc)"

lemma ticks_expires: "t_active sc \<Longrightarrow> t_C sc = None \<Longrightarrow> ticks (timer_expires now sc) = ticks sc"
  by (simp add: ticks_def timer_expires_def)

lemma ticks_timer: "t_C sc = Some now \<Longrightarrow> ticks (OnStart_timer now sc) = ticks sc"
  by (simp add: ticks_def OnStart_timer_def)

lemma ticks_tick: "now \<in> set (timerChan sc) \<Longrightarrow> ticks (OnStart_tick now sc) = ticks sc"
  using length_pos_if_in_set [of now "timerChan sc"]
  by (simp add: ticks_def OnStart_tick_def Let_def length_remove1)

lemma ticks_ResetClock: "ticks sc \<le> 1 \<Longrightarrow> t_active sc \<or> ticks sc = 0 \<Longrightarrow> ticks (ResetClock d sc) = 1"
  by (auto simp: ticks_def ResetClock_def)

lemma curslot_ResetClock [simp]: "curslot (ResetClock d sc) = curslot sc" "tockChan (ResetClock d sc) = tockChan sc"
  "timerChan (ResetClock d sc) = timerChan sc" "t_active (ResetClock d sc)"
  by (simp_all add: ResetClock_def)

end
