(* ===== verification/Consensus.thy ===== *)
theory Consensus
  imports ExecutorFacts VoteSets Privval SlotClocks
begin

text \<open>
  The consensus state machine of consensus/state.go, with the round state of
  consensus/types/round\_state.go and the broadcast side of consensus/reactor.go. A handler
  takes the world (the consensus state, the heap of shared blocks, the database and what has been
  sent) and returns the new world or the run-time failure it ends in.
\<close>

section \<open>State\<close>

datatype RoundEventType = RoundEventNewSlot | RoundEventApply | RoundEventPropose | RoundEventOther "8 word"

fun RoundEventType_String :: "RoundEventType \<Rightarrow> string" where
  "RoundEventType_String RoundEventNewSlot = ''RoundEventNewSlot''"
| "RoundEventType_String RoundEventApply = ''RoundEventApply''"
| "RoundEventType_String RoundEventPropose = ''RoundEventPropose''"
| "RoundEventType_String (RoundEventOther _) = ''RoundEventUnkown''"

record RoundEvent =
  ev_Type :: RoundEventType
  ev_Slot :: LTime

text \<open>The messages of the peer and the internal queue.\<close>

datatype Message = ProposalMessage Proposal | VoteMessage Vote

text \<open>What the reactor broadcasts: the proposal with its block as it is at that moment, or a vote.\<close>

datatype Broadcast = SentProposal Proposal Block | SentVote Vote

record RoundState =
  CurSlot :: LTime
  LastSlot :: LTime
  Step :: RoundStepType
  ValIndex :: int32
  PrivVal :: "PrivValidator option"
  cs_Validators :: ValidatorSet
  Proposer :: "Validator option"
  cs_Proposal :: "Proposal option"
  VoteSet :: SlotVoteSet
  LastCommit :: "Commit option"

record ConsensusState = RoundState +
  cs_state :: State
  cs_lastState :: "State option"
  slot_clock :: slotClock
  futureProposal :: "LTime \<rightharpoonup> Proposal"
  curSlotStartTime :: Time

text \<open>
  The world. \<open>eventQueue\<close> and \<open>internalQueue\<close> are the messages sent on the two queues and not
  yet received: a send that would block is made by a goroutine, so messages may be received in any order.
\<close>

record 'db World =
  cs :: ConsensusState
  heap :: Heap
  db :: 'db
  eventQueue :: "RoundEvent list"
  internalQueue :: "Message list"
  sent :: "Broadcast list"

definition updCs :: "(ConsensusState \<Rightarrow> ConsensusState) \<Rightarrow> 'db World \<Rightarrow> 'db World" where
  "updCs f w = w\<lparr>cs := f (cs w)\<rparr>"

definition setHeap :: "Heap \<Rightarrow> 'db World \<Rightarrow> 'db World" where
  "setHeap h w = w\<lparr>heap := h\<rparr>"

text \<open>
  What a handler gets from outside: readings of the physical clock (by place and number) and the transactions that the mempool
  returns; and the bound on the rounds of the loop of \<open>updateEvidences\<close>.
\<close>

record Input =
  clock :: "nat \<Rightarrow> nat \<Rightarrow> Time"
  reaped :: "Tx list"
  fuel :: nat

definition Threshold :: int64 where
  "Threshold = 3"

definition SlotTimeOut :: Duration where
  "SlotTimeOut = 2 * Second"

definition DefaultBlockParent :: bytes where
  "DefaultBlockParent = ''single unused block''"

definition SetValidtorSet :: "ValidatorSet \<Rightarrow> ConsensusState \<Rightarrow> ConsensusState" where
  "SetValidtorSet vals c = c\<lparr>cs_Validators := vals\<rparr>"

definition SetValidtor :: "('s, 'g) Crypto \<Rightarrow> PrivValidator \<Rightarrow> ConsensusState \<Rightarrow> ConsensusState res" where
  "SetValidtor e validator c = rbind (deref (GetPubKey e validator)) (\<lambda>pub.
     Inr (c\<lparr>ValIndex := fst (GetByAddress (cs_Validators c) (pkAddress e pub)), PrivVal := Some validator\<rparr>))"

definition NewConsensusState :: "LTime \<Rightarrow> State \<Rightarrow> Time \<Rightarrow> ConsensusState" where
  "NewConsensusState initSlot st now =
     \<lparr>CurSlot = initSlot, LastSlot = initSlot, Step = RoundStepWait, ValIndex = 0, PrivVal = None,
      cs_Validators = NewValidatorSet [], Proposer = None, cs_Proposal = None, VoteSet = MakeSlotVoteSet,
      LastCommit = None, cs_state = st, cs_lastState = None, slot_clock = NewSlotClock LtimeZero now,
      futureProposal = Map.empty, curSlotStartTime = zeroTime\<rparr>"

definition NewDefaultConsensusState :: "('s, 'g) Crypto \<Rightarrow> LTime \<Rightarrow> PrivValidator \<Rightarrow> ValidatorSet \<Rightarrow> State \<Rightarrow> Time \<Rightarrow> ConsensusState res" where
  "NewDefaultConsensusState e initSlot privVal vals st now =
     SetValidtor e privVal (SetValidtorSet vals (NewConsensusState initSlot st now))"

section \<open>Helpers\<close>

definition sendEventMessage :: "RoundEventType \<Rightarrow> LTime \<Rightarrow> 'db World \<Rightarrow> 'db World" where
  "sendEventMessage ty slot w = w\<lparr>eventQueue := eventQueue w @ [\<lparr>ev_Type = ty, ev_Slot = slot\<rparr>]\<rparr>"

definition sendInternalMessage :: "Message \<Rightarrow> 'db World \<Rightarrow> 'db World" where
  "sendInternalMessage m w = w\<lparr>internalQueue := internalQueue w @ [m]\<rparr>"

definition updateStep :: "RoundStepType \<Rightarrow> 'db World \<Rightarrow> 'db World" where
  "updateStep step w = updCs (\<lambda>c. c\<lparr>Step := step\<rparr>) w"

definition updateSlot :: "LTime \<Rightarrow> 'db World \<Rightarrow> 'db World" where
  "updateSlot slot w = updCs (\<lambda>c. c\<lparr>CurSlot := slot\<rparr>) w"

text \<open>The reactor stamps what it sends; the proposal and the vote are the ones the consensus state keeps.\<close>

definition broadcastProposal :: "Time \<Rightarrow> Proposal \<Rightarrow> 'db World \<Rightarrow> Proposal \<times> 'db World" where
  "broadcastProposal now p w =
     (let p' = p\<lparr>p_SendTime := now, p_Round := p_Round p + 1, p_From := scast (ValIndex (cs w))\<rparr>
      in (p', w\<lparr>sent := sent w @ [SentProposal p' (blocks (heap w) (p_Block p'))]\<rparr>))"

definition broadcastVote :: "Time \<Rightarrow> Vote \<Rightarrow> 'db World \<Rightarrow> Vote \<times> 'db World" where
  "broadcastVote now v w =
     (let v' = v\<lparr>v_SendTime := now, v_Round := v_Round v + 1, v_From := scast (ValIndex (cs w))\<rparr>
      in (v', w\<lparr>sent := sent w @ [SentVote v']\<rparr>))"

text \<open>The vote just added is the last one of its slot; its stamps change with the broadcast.\<close>

definition restampVote :: "Vote \<Rightarrow> ConsensusState \<Rightarrow> ConsensusState" where
  "restampVote v c = (case VoteSet c (v_Slot v) of
      None \<Rightarrow> c
    | Some vs \<Rightarrow> c\<lparr>VoteSet := (VoteSet c)(v_Slot v \<mapsto> vs\<lparr>votes := butlast (votes vs) @ [v]\<rparr>)\<rparr>)"

definition hasProposal :: "'db World \<Rightarrow> bool" where
  "hasProposal w = (case cs_Proposal (cs w) of
      None \<Rightarrow> False
    | Some p \<Rightarrow> if BlockState (blocks (heap w) (p_Block p)) \<noteq> DefaultBlock then True else False)"

text \<open>The log line reads the address of the proposer, which must not be nil.\<close>

definition decideProposer :: "ConsensusState \<Rightarrow> ConsensusState res" where
  "decideProposer c = rbind (GetProposer (cs_Validators c) (CurSlot c)) (\<lambda>p.
     rbind (deref p) (\<lambda>_. Inr (c\<lparr>Proposer := p\<rparr>)))"

text \<open>\<open>Equals\<close> of a nil key panics; compared with a nil key it is false.\<close>

definition isProposer :: "Validator option \<Rightarrow> ConsensusState \<Rightarrow> (ConsensusState \<times> bool) res" where
  "isProposer val c = (case val of
      None \<Rightarrow> Inr (c, False)
    | Some v \<Rightarrow>
        rbind (if Proposer c = None then decideProposer c else Inr c) (\<lambda>c'.
        rbind (deref (Proposer c')) (\<lambda>p.
        rbind (deref (val_PubKey p)) (\<lambda>pk.
        Inr (c', val_PubKey v = Some pk)))))"

section \<open>Votes\<close>

text \<open>\<open>TryAddVote\<close>; the error is the message of the code.\<close>

definition TryAddVote :: "('s, 'g) Crypto \<Rightarrow> Vote \<Rightarrow> 'db World \<Rightarrow> ('db World \<times> bool \<times> string option) res" where
  "TryAddVote e vote w =
     (let (valIdx, val) = GetByAddress (cs_Validators (cs w)) (ValidatorAddress vote) in
      if valIdx \<noteq> ValidatorIndex vote then Inr (w, False, Some ''vote validator has wrong index'')
      else
        rbind (deref val) (\<lambda>v.
        rbind (deref (val_PubKey v)) (\<lambda>pk.
        if \<not> pkVerify e pk (VoteSignBytes e (st_ChainID (cs_state (cs w))) vote) (v_Signature vote)
        then Inr (w, False, Some ''vote signature error'')
        else
          let (vs, err) = AddVote (VoteSet (cs w)) vote;
              w' = updCs (\<lambda>c. c\<lparr>VoteSet := vs\<rparr>) w
          in case err of
               Some ErrDuplicateVote \<Rightarrow> Inr (w', False, Some ''duplicate vote'')
             | None \<Rightarrow> Inr (w', True, None))))"

text \<open>The vote before it is signed.\<close>

definition draftVote :: "ConsensusState \<Rightarrow> bytes \<Rightarrow> bool \<Rightarrow> Validator \<Rightarrow> Time \<Rightarrow> Time \<Rightarrow> Time \<Rightarrow> Vote" where
  "draftVote c hash isApproved val now0 now1 now2 =
     \<lparr>v_Slot = CurSlot c, v_BlockHash = hash, v_Type = (if isApproved = False then AgainstVote else SupportVote),
      v_Timestamp = now0, ValidatorAddress = val_Address val, ValidatorIndex = ValIndex c, v_Signature = ''signature'',
      v_SendTime = now1, v_Round = 0, v_From = scast (ValIndex c), v_ReceiveTime = now2\<rparr>"

definition signVote :: "('s, 'g) Crypto \<Rightarrow> Time \<Rightarrow> Time \<Rightarrow> Time \<Rightarrow> Proposal \<Rightarrow> bool \<Rightarrow> 'db World \<Rightarrow> 'db World res" where
  "signVote e now0 now1 now2 proposal isApproved w =
     (let (h, hash) = hashBlock e (p_Block proposal) (heap w);
          w1 = setHeap h w;
          c = cs w1
      in rbind (deref (st_Validator (cs_state c))) (\<lambda>val.
         rbind (deref (PrivVal c)) (\<lambda>pv.
         case SignVote e pv (st_ChainID (cs_state c)) (draftVote c hash isApproved val now0 now1 now2) of
           Inl err \<Rightarrow> Inr w1
         | Inr vote \<Rightarrow> Inr (sendInternalMessage (VoteMessage vote) w1))))"

section \<open>Proposals\<close>

definition TryAddFutureProposal :: "LTime \<Rightarrow> Proposal \<Rightarrow> ConsensusState \<Rightarrow> ConsensusState \<times> string option" where
  "TryAddFutureProposal slot proposal c = (case futureProposal c slot of
      Some _ \<Rightarrow> (c, Some ''slot already exist'')
    | None \<Rightarrow> (c\<lparr>futureProposal := (futureProposal c)(slot \<mapsto> proposal)\<rparr>, None))"

text \<open>The loop over the transactions: \<open>False\<close> at the first invalid one.\<close>

fun allValid :: "('s, 'g) Crypto \<Rightarrow> Tx list \<Rightarrow> bool res" where
  "allValid e [] = Inr True"
| "allValid e (tx # txs) = rbind (Valid e tx) (\<lambda>ok. if \<not> ok then Inr False else allValid e txs)"

text \<open>The deferred part of \<open>defaultSetProposal\<close>.\<close>

definition voteOnProposal :: "('s, 'g) Crypto \<Rightarrow> Input \<Rightarrow> Proposal \<Rightarrow> 'db World \<Rightarrow> 'db World res" where
  "voteOnProposal e inp proposal w =
     rbind (IsMatch e (cs_state (cs w)) proposal (heap w)) (\<lambda>(h, match).
     signVote e (clock inp 1 0) (clock inp 1 1) (clock inp 1 2) proposal match (setHeap h w))"

text \<open>The part of \<open>defaultSetProposal\<close> from the signature check on, with the author's key.\<close>

definition acceptProposal :: "('s, 'g) Crypto \<Rightarrow> Input \<Rightarrow> PubKey \<Rightarrow> Proposal \<Rightarrow> 'db World \<Rightarrow> ('db World \<times> string option) res" where
  "acceptProposal e inp pk proposal w =
     (let (h2, signBytes) = ProposalSignBytes e (st_ChainID (cs_state (cs w))) proposal (heap w);
          w2 = setHeap h2 w
      in if \<not> pkVerify e pk signBytes (bytes_of (Signature (blocks h2 (p_Block proposal))))
         then Inr (w2, Some ''verifying proposal signature failed'')
         else
           case UpdateState (clock inp 0) (cs_state (cs w)) (p_Block proposal) h2 of
             (h3, Some err) \<Rightarrow> Inr (setHeap h3 w2, Some err)
           | (h3, None) \<Rightarrow>
               let (p', w3) = broadcastProposal (clock inp 2 0) proposal (setHeap h3 w2);
                   w4 = updCs (\<lambda>c. c\<lparr>cs_Proposal := Some p'\<rparr>) w3
               in rbind (voteOnProposal e inp p' w4) (\<lambda>w5. Inr (w5, None)))"

definition defaultSetProposal :: "('s, 'g) Crypto \<Rightarrow> Input \<Rightarrow> Proposal \<Rightarrow> 'db World \<Rightarrow> ('db World \<times> string option) res" where
  "defaultSetProposal e inp proposal w =
     (let block = blocks (heap w) (p_Block proposal);
          c = cs w
      in if \<not> Equal (Slot block) (CurSlot c) then
           if Greater (Slot block) (CurSlot c) then
             case TryAddFutureProposal (Slot block) proposal c of
               (c', Some err) \<Rightarrow> Inr (w\<lparr>cs := c'\<rparr>, Some err)
             | (c', None) \<Rightarrow> Inr (w\<lparr>cs := c'\<rparr>, Some ''receive future proposal'')
           else Inr (w, Some ''proposal slot is not same'')
         else
           let (_, val) = GetByAddress (cs_Validators c) (ValidatorAddr block) in
           rbind (isProposer val c) (\<lambda>(c1, leader).
           let w1 = w\<lparr>cs := c1\<rparr> in
           if \<not> leader then Inr (w1, Some ''not this slot leader'')
           else
             rbind (allValid e (Txs block)) (\<lambda>ok.
             if \<not> ok then Inr (w1, Some ''block contains invaild transaction'')
             else
               rbind (deref val) (\<lambda>v.
               rbind (deref (val_PubKey v)) (\<lambda>pk.
               acceptProposal e inp pk proposal w1)))))"

definition triggleFutureProposal :: "('s, 'g) Crypto \<Rightarrow> Input \<Rightarrow> LTime \<Rightarrow> 'db World \<Rightarrow> 'db World res" where
  "triggleFutureProposal e inp slot w = (case futureProposal (cs w) slot of
      None \<Rightarrow> Inr w
    | Some proposal \<Rightarrow> rbind (defaultSetProposal e inp proposal w) (\<lambda>(w', _). Inr w'))"

definition defaultProposal :: "('s, 'g) Crypto \<Rightarrow> Input \<Rightarrow> 'db World \<Rightarrow> ('db World \<times> Proposal option) res" where
  "defaultProposal e inp w =
     (let w1 = updateStep RoundStepPropose w;
          c = cs w1
      in rbind (CreateProposal e (clock inp 3) (reaped inp) (cs_state c) (CurSlot c) (heap w1)) (\<lambda>(proposal, h1).
         let h2 = updBlock (p_Block proposal) (\<lambda>b. b\<lparr>SlotStartTime := curSlotStartTime c\<rparr>) h1;
             p = proposal\<lparr>p_From := scast (ValIndex c)\<rparr>
         in rbind (deref (PrivVal c)) (\<lambda>pv.
            case SignProposal e pv (st_ChainID (cs_state c)) p h2 of
              (h3, Some err) \<Rightarrow> Inr (setHeap h3 w1, None)
            | (h3, None) \<Rightarrow>
                let h4 = fst (hashBlock e (p_Block p) h3)
                in Inr (sendInternalMessage (ProposalMessage p) (setHeap h4 w1), Some p))))"

section \<open>Messages\<close>

definition handleMsg :: "('s, 'g) Crypto \<Rightarrow> Input \<Rightarrow> Message \<Rightarrow> 'db World \<Rightarrow> 'db World res" where
  "handleMsg e inp msg w = (case msg of
      ProposalMessage p \<Rightarrow>
        (case ValidteBasic (blocks (heap w) (p_Block p)) of
           Some err \<Rightarrow> Inr (setHeap (fst (hashBlock e (p_Block p) (heap w))) w)
         | None \<Rightarrow>
             if cs_Proposal (cs w) = None
                \<or> BlockState (blocks (heap w) (p_Block (the (cs_Proposal (cs w))))) = DefaultBlock
             then rbind (defaultSetProposal e inp p w) (\<lambda>(w', _). Inr w')
             else Inr w)
    | VoteMessage v \<Rightarrow>
        rbind (TryAddVote e v w) (\<lambda>(w', added, err).
        if err \<noteq> None then Inr w'
        else if added then
          let (v', w'') = broadcastVote (clock inp 4 0) v w'
          in Inr (updCs (restampVote v') w'')
        else Inr w'))"

section \<open>Evidence\<close>

text \<open>
  \<open>updateEvidence\<close>. The loop variable is one cell, whose address every block of the round gets: \<open>q\<close>. The log
  line hashes the block and the witness.
\<close>

fun updateEvidence_loop :: "('s, 'g) Crypto \<Rightarrow> State \<Rightarrow> addr \<Rightarrow> addr \<Rightarrow> Quorum list \<Rightarrow> addr list \<Rightarrow> Heap \<Rightarrow> Heap \<times> addr list" where
  "updateEvidence_loop e st witness q [] acc h = (h, acc)"
| "updateEvidence_loop e st witness q (evidence # evs) acc h0 =
     (let h = putQuorum q evidence h0 in
      if q_Type evidence \<noteq> SupportQuorum then updateEvidence_loop e st witness q evs acc h
      else
        case BlockSet_QueryBlockByHash h (sets h (UnCommitBlocks st)) (q_BlockHash evidence) of
          None \<Rightarrow> updateEvidence_loop e st witness q evs acc h
        | Some block \<Rightarrow>
            if BlockState (blocks h block) = CommittedBlock then updateEvidence_loop e st witness q evs acc h
            else
              let c0 = (case Block_Commit (blocks h block) of None \<Rightarrow> Commit None None None | Some c \<Rightarrow> c);
                  h1 = updBlock block (\<lambda>b. b\<lparr>Block_Commit := Some (SetWitness (Some witness) (SetQuorum (Some q) c0))\<rparr>) h;
                  h2 = fst (hashBlock e block h1);
                  h3 = fst (hashBlock e witness h2)
              in updateEvidence_loop e st witness q evs (acc @ [block]) h3)"

definition updateEvidence :: "('s, 'g) Crypto \<Rightarrow> State \<Rightarrow> addr \<Rightarrow> Heap \<Rightarrow> Heap \<times> addr list" where
  "updateEvidence e st witness h =
     (let (q, h1) = newQuorum NewQuorum h
      in updateEvidence_loop e st witness q (Evidences (blocks h1 witness)) [] h1)"

text \<open>The work list is used as a stack: its last element is taken first.\<close>

fun updateEvidences_loop :: "('s, 'g) Crypto \<Rightarrow> State \<Rightarrow> nat \<Rightarrow> addr list \<Rightarrow> Heap \<Rightarrow> Heap res" where
  "updateEvidences_loop e st n [] h = Inr h"
| "updateEvidences_loop e st 0 (b # bs) h = Inl NoFuel"
| "updateEvidences_loop e st (Suc n) (b # bs) h =
     (let checkstack = b # bs;
          block = last checkstack;
          (h', more) = updateEvidence e st block h
      in updateEvidences_loop e st n (butlast checkstack @ more) h')"

definition updateEvidences :: "('s, 'g) Crypto \<Rightarrow> nat \<Rightarrow> 'db World \<Rightarrow> 'db World res" where
  "updateEvidences e n w =
     (if \<not> hasProposal w then Inr w
      else rbind (deref (cs_Proposal (cs w))) (\<lambda>p.
           rbind (updateEvidences_loop e (cs_state (cs w)) n [p_Block p] (heap w)) (\<lambda>h.
           Inr (setHeap h w))))"

section \<open>The steps of a slot\<close>

fun addSlots :: "nat \<Rightarrow> Time \<Rightarrow> Time" where
  "addSlots 0 t = t"
| "addSlots (Suc n) t = addSlots n (t + SlotTimeOut)"

definition reviseSlotTime :: "Time \<Rightarrow> Time \<Rightarrow> 'db World \<Rightarrow> 'db World" where
  "reviseSlotTime now0 now1 w =
     (let c = cs w in
      case LastCommitedBlock (cs_state c) of
        None \<Rightarrow> w
      | Some b \<Rightarrow>
          let slotdiff = Sub (CurSlot c) (Slot (blocks (heap w) b)) in
          if sint slotdiff \<le> 0 then w
          else
            let slotStartTime = addSlots (nat (sint slotdiff)) (SlotStartTime (blocks (heap w) b));
                slotEndTime = slotStartTime + SlotTimeOut
            in if now0 > slotEndTime then w
               else updCs (\<lambda>c. c\<lparr>curSlotStartTime := slotStartTime,
                                  slot_clock := ResetClock (slotEndTime - now1) (slot_clock c)\<rparr>) w)"

text \<open>The deferred step change comes last.\<close>

definition enterNewSlot :: "Input \<Rightarrow> LTime \<Rightarrow> 'db World \<Rightarrow> 'db World res" where
  "enterNewSlot inp slot w =
     (let w1 = updCs (\<lambda>c. c\<lparr>LastSlot := CurSlot c, CurSlot := GetSlot (slot_clock c), curSlotStartTime := clock inp 5 0\<rparr>) w in
      rbind (decideProposer (cs w1)) (\<lambda>c2.
      let w2 = w1\<lparr>cs := c2\<lparr>slot_clock := ResetClock SlotTimeOut (slot_clock c2)\<rparr>\<rparr>;
          w3 = reviseSlotTime (clock inp 5 1) (clock inp 5 2) w2;
          w4 = sendEventMessage RoundEventApply (CurSlot (cs w3)) w3
      in Inr (updateStep RoundStepSlot w4)))"

text \<open>The deferred part of \<open>enterApply\<close>, when the step is right: a fresh empty proposal, the next step and its event.\<close>

definition finishApply :: "('s, 'g) Crypto \<Rightarrow> 'db World \<Rightarrow> 'db World res" where
  "finishApply e w =
     (let (p, h1) = MakeEmptyProposal (heap w); c = cs w in
      rbind (deref (Proposer c)) (\<lambda>proposer.
      let h2 = updBlock (p_Block p) (Fill (st_ChainID (cs_state c)) (CurSlot c) DefaultBlock DefaultBlockParent
                 (val_Address proposer) (ValidatorSet_Hash e (st_Validators (cs_state c))) (curSlotStartTime c)) h1;
          w1 = updCs (\<lambda>c. c\<lparr>cs_Proposal := Some p\<rparr>) (setHeap h2 w);
          w2 = updateStep RoundStepApply w1
      in Inr (sendEventMessage RoundEventPropose (CurSlot (cs w2)) w2)))"

text \<open>The quorum of the last slot's votes and the state it gives the proposal's block.\<close>

definition judgeProposal :: "('s, 'g) Crypto \<Rightarrow> Input \<Rightarrow> addr \<Rightarrow> 'db World \<Rightarrow> 'db World" where
  "judgeProposal e inp block w =
     (case GetVotesBySlot (VoteSet (cs w)) (LastSlot (cs w)) of
        None \<Rightarrow> setHeap (UpdateBlockState (clock inp 6 0) block SuspectBlock (heap w)) w
      | Some vs \<Rightarrow>
          let quorum = (TryGenQuorum e vs Threshold)\<lparr>q_SLot := Slot (blocks (heap w) block)\<rparr>;
              h1 = updBlock block (\<lambda>b. b\<lparr>VoteQuorum := quorum\<rparr>) (heap w);
              st = (if q_Type quorum = SupportQuorum then PrecommitBlock
                    else if q_Type quorum = AgainstQuorum then ErrorBlock else SuspectBlock)
          in setHeap (UpdateBlockState (clock inp 6 0) block st h1) w)"

text \<open>The body of \<open>enterApply\<close> after its checks.\<close>

definition applyProposal :: "('s, 'g) Crypto \<Rightarrow> 'db Store \<Rightarrow> Input \<Rightarrow> 'db World \<Rightarrow> 'db World res" where
  "applyProposal e store inp w =
     rbind (triggleFutureProposal e inp (CurSlot (cs w)) w) (\<lambda>w1.
     rbind (deref (cs_Proposal (cs w1))) (\<lambda>p.
     let w2 = judgeProposal e inp (p_Block p) w1 in
     rbind (updateEvidences e (fuel inp) w2) (\<lambda>w3.
     rbind (deref (cs_Proposal (cs w3))) (\<lambda>p3.
     rbind (ApplyBlock e store (clock inp 7) (State_Copy (cs_state (cs w3))) (p_Block p3) (heap w3) (db w3))
       (\<lambda>(newState, err, h, d).
        let w4 = w3\<lparr>heap := h, db := d\<rparr> in
        if err \<noteq> None then Inr w4
        else Inr (updCs (\<lambda>c. c\<lparr>cs_lastState := Some (cs_state c), cs_state := newState\<rparr>) w4))))))"

definition wrong_step :: string where
  "wrong_step = ''wrong step''"

definition enterApply :: "('s, 'g) Crypto \<Rightarrow> 'db Store \<Rightarrow> Input \<Rightarrow> 'db World \<Rightarrow> 'db World res" where
  "enterApply e store inp w =
     (if Step (cs w) \<noteq> RoundStepSlot then Inl (Panic wrong_step)
      else if \<not> hasProposal w then finishApply e w
      else rbind (applyProposal e store inp w) (finishApply e))"

definition enterPropose :: "('s, 'g) Crypto \<Rightarrow> Input \<Rightarrow> 'db World \<Rightarrow> 'db World res" where
  "enterPropose e inp w =
     (if Step (cs w) \<noteq> RoundStepApply then Inl (Panic wrong_step)
      else
        let (_, val) = GetByIndex (cs_Validators (cs w)) (ValIndex (cs w)) in
        rbind (isProposer val (cs w)) (\<lambda>(c, leader).
        let w1 = w\<lparr>cs := c\<rparr> in
        if \<not> leader then Inr (updateStep RoundStepWait w1)
        else rbind (defaultProposal e inp w1) (\<lambda>(w2, _). Inr (updateStep RoundStepWait w2))))"

definition handleEvent :: "('s, 'g) Crypto \<Rightarrow> 'db Store \<Rightarrow> Input \<Rightarrow> RoundEvent \<Rightarrow> 'db World \<Rightarrow> 'db World res" where
  "handleEvent e store inp event w =
     (if \<not> Equal (CurSlot (cs w)) (ev_Slot event) \<and> ev_Type event \<noteq> RoundEventNewSlot then Inr w
      else case ev_Type event of
             RoundEventNewSlot \<Rightarrow> enterNewSlot inp (ev_Slot event) w
           | RoundEventApply \<Rightarrow> enterApply e store inp w
           | RoundEventPropose \<Rightarrow> enterPropose e inp w
           | RoundEventOther _ \<Rightarrow> Inr w)"

definition handleTimeOut :: "timeoutInfo \<Rightarrow> 'db World \<Rightarrow> 'db World" where
  "handleTimeOut ti w = (case ti_Step ti of
      RoundStepSlot \<Rightarrow> sendEventMessage RoundEventNewSlot (ti_Slot ti) w
    | _ \<Rightarrow> w)"

section \<open>Queries\<close>

definition GetCommittedBlocks :: "'db World \<Rightarrow> addr list res" where
  "GetCommittedBlocks w = rbind (stateTree (cs_state (cs w)) (heap w)) (\<lambda>t.
     BlockTree_ForEach (\<lambda>b acc. if BlockState (blocks (heap w) b) = CommittedBlock then acc @ [b] else acc) t [])"

definition GetUnCommittedBlocks :: "'db World \<Rightarrow> addr list" where
  "GetUnCommittedBlocks w = BlockSet_ForEach (\<lambda>b acc. acc @ [b]) (sets (heap w) (UnCommitBlocks (cs_state (cs w)))) []"

definition GetAllBlocks :: "'db World \<Rightarrow> addr list res" where
  "GetAllBlocks w = rbind (GetCommittedBlocks w) (\<lambda>committed. Inr (committed @ GetUnCommittedBlocks w))"

end
