(* ===== verification/ConsensusFacts.thy ===== *)
theory ConsensusFacts
  imports Consensus
begin

text \<open>
  Lemmas about the handlers: what each may change, when a proposal or a vote is accepted, and when the update of the
  commit evidence ends.
\<close>

section \<open>What a handler leaves alone\<close>

text \<open>
  The part of the world that drives the slot machine: message handlers never touch it.
\<close>

definition same_round :: "'db World \<Rightarrow> 'db World \<Rightarrow> bool" where
  "same_round w w' \<longleftrightarrow> CurSlot (cs w') = CurSlot (cs w) \<and> LastSlot (cs w') = LastSlot (cs w) \<and> Step (cs w') = Step (cs w)
     \<and> slot_clock (cs w') = slot_clock (cs w) \<and> eventQueue w' = eventQueue w
     \<and> cs_Validators (cs w') = cs_Validators (cs w) \<and> ValIndex (cs w') = ValIndex (cs w) \<and> PrivVal (cs w') = PrivVal (cs w)"

lemma same_round_refl [simp]: "same_round w w"
  by (simp add: same_round_def)

lemma same_round_trans [trans]: "same_round w w' \<Longrightarrow> same_round w' w'' \<Longrightarrow> same_round w w''"
  by (simp add: same_round_def)

lemma same_round_setHeap [simp]: "same_round w (setHeap h w') = same_round w w'" "same_round (setHeap h w) w' = same_round w w'"
  by (simp_all add: same_round_def setHeap_def)

lemma decideProposer_frame:
  assumes "decideProposer c = Inr c'"
  obtains p where "c' = c\<lparr>Proposer := Some p\<rparr>" "GetProposer (cs_Validators c) (CurSlot c) = Inr (Some p)"
  using assms by (auto simp: decideProposer_def)

lemma isProposer_frame:
  assumes "isProposer val c = Inr (c', b)"
  shows "\<exists>p. c' = c\<lparr>Proposer := p\<rparr>"
proof -
  have "\<exists>p. c = c\<lparr>Proposer := p\<rparr>" by (rule exI [of _ "Proposer c"]) simp
  then show ?thesis using assms by (auto simp: isProposer_def elim!: decideProposer_frame split: option.splits if_splits)
qed

lemma same_round_isProposer:
  "isProposer val (cs w) = Inr (c', b) \<Longrightarrow> same_round w (w\<lparr>cs := c'\<rparr>)"
  using isProposer_frame by (fastforce simp: same_round_def)

lemma same_round_TryAddVote:
  "TryAddVote e v w = Inr (w', added, err) \<Longrightarrow> same_round w w'"
  by (auto simp: TryAddVote_def Let_def same_round_def updCs_def split: prod.splits if_splits option.splits voteErr.splits)

text \<open>Signing a vote fills in the block's hash and posts at most the one vote.\<close>

lemma signVote_cases:
  assumes "signVote e t0 t1 t2 p b w = Inr w'"
  obtains (failed) "w' = setHeap (fst (hashBlock e (p_Block p) (heap w))) w"
  | (voted) v where "w' = sendInternalMessage (VoteMessage v) (setHeap (fst (hashBlock e (p_Block p) (heap w))) w)"
      "v_Slot v = CurSlot (cs w)" "v_BlockHash v = snd (hashBlock e (p_Block p) (heap w))"
      "v_Type v = (if b then SupportVote else AgainstVote)" "ValidatorIndex v = ValIndex (cs w)"
proof -
  obtain h hash where hb: "hashBlock e (p_Block p) (heap w) = (h, hash)" by fastforce
  from assms obtain val pv where pv: "st_Validator (cs_state (cs w)) = Some val" "PrivVal (cs w) = Some pv"
    by (auto simp: signVote_def hb Let_def setHeap_def)
  show ?thesis
  proof (cases "SignVote e pv (st_ChainID (cs_state (cs w))) (draftVote (cs w) hash b val t0 t1 t2)")
    case (Inl err)
    then show ?thesis using assms pv failed by (simp add: signVote_def hb Let_def setHeap_def)
  next
    case (Inr v)
    then show ?thesis using assms pv SignVote_keeps [OF Inr] voted
      by (auto simp: signVote_def hb Let_def setHeap_def draftVote_def)
  qed
qed

lemma same_round_signVote:
  "signVote e t0 t1 t2 p b w = Inr w' \<Longrightarrow> same_round w w'"
  by (erule signVote_cases) (simp_all add: same_round_def setHeap_def sendInternalMessage_def)

lemma same_round_voteOnProposal:
  "voteOnProposal e inp p w = Inr w' \<Longrightarrow> same_round w w'"
  by (auto simp: voteOnProposal_def dest!: same_round_signVote)

lemma same_round_broadcastProposal: "same_round w (snd (broadcastProposal now p w))"
  by (simp add: broadcastProposal_def same_round_def Let_def)

lemma same_round_setProposal: "same_round w (updCs (\<lambda>c. c\<lparr>cs_Proposal := p\<rparr>) w') = same_round w w'"
  by (simp add: same_round_def updCs_def)

text \<open>
  What it takes for a proposal to be accepted: the slot is the current one, its author is the proposer of the slot, every
  transaction is valid, and the proposer's signature covers the block's hash.
\<close>

definition proposal_checked :: "('s, 'g) Crypto \<Rightarrow> Proposal \<Rightarrow> 'db World \<Rightarrow> bool" where
  "proposal_checked e p w \<longleftrightarrow>
     (let b = blocks (heap w) (p_Block p); c = cs w in
      Slot b = CurSlot c \<and> allValid e (Txs b) = Inr True
      \<and> (\<exists>v pk. snd (GetByAddress (cs_Validators c) (ValidatorAddr b)) = Some v \<and> val_PubKey v = Some pk
           \<and> (\<exists>c'. isProposer (Some v) c = Inr (c', True))
           \<and> pkVerify e pk (snd (Block_Hash e b)) (bytes_of (Signature b))))"

lemma TryAddFutureProposal_frame:
  assumes "TryAddFutureProposal slot p c = (c', err)"
  shows "\<exists>f. c' = c\<lparr>futureProposal := f\<rparr>"
proof -
  have "\<exists>f. c = c\<lparr>futureProposal := f\<rparr>" by (rule exI [of _ "futureProposal c"]) simp
  then show ?thesis using assms by (auto simp: TryAddFutureProposal_def split: option.splits)
qed

text \<open>A rejected proposal changes nothing but hashes kept in blocks, the cached proposer and the early proposals.\<close>

definition rejected :: "'db World \<Rightarrow> 'db World \<Rightarrow> bool" where
  "rejected w w' \<longleftrightarrow> same_round w w' \<and> cs_Proposal (cs w') = cs_Proposal (cs w) \<and> sent w' = sent w
     \<and> internalQueue w' = internalQueue w \<and> cs_state (cs w') = cs_state (cs w) \<and> db w' = db w
     \<and> cs_lastState (cs w') = cs_lastState (cs w) \<and> VoteSet (cs w') = VoteSet (cs w)"

definition accepted :: "('s, 'g) Crypto \<Rightarrow> Input \<Rightarrow> Proposal \<Rightarrow> 'db World \<Rightarrow> 'db World \<Rightarrow> bool" where
  "accepted e inp p w w' \<longleftrightarrow> (\<exists>w2 p' w3. same_round w w2 \<and> sent w2 = sent w \<and> internalQueue w2 = internalQueue w
     \<and> cs_state (cs w2) = cs_state (cs w) \<and> db w2 = db w \<and> futureProposal (cs w2) = futureProposal (cs w)
     \<and> cs_lastState (cs w2) = cs_lastState (cs w) \<and> VoteSet (cs w2) = VoteSet (cs w)
     \<and> heap w2 = fst (UpdateState (clock inp 0) (cs_state (cs w)) (p_Block p) (fst (hashBlock e (p_Block p) (heap w))))
     \<and> broadcastProposal (clock inp 2 0) p w2 = (p', w3)
     \<and> voteOnProposal e inp p' (updCs (\<lambda>c. c\<lparr>cs_Proposal := Some p'\<rparr>) w3) = Inr w')"

lemma acceptProposal_cases:
  assumes "acceptProposal e inp pk p w = Inr (w', err)"
  shows "err \<noteq> None \<and> rejected w w' \<and> futureProposal (cs w') = futureProposal (cs w)
       \<and> heap w' = fst (hashBlock e (p_Block p) (heap w))
    \<or> err = None \<and> PubVal (cs_state (cs w)) \<noteq> None \<and> accepted e inp p w w'
       \<and> pkVerify e pk (snd (Block_Hash e (blocks (heap w) (p_Block p)))) (bytes_of (Signature (blocks (heap w) (p_Block p))))"
proof -
  let ?h = "fst (hashBlock e (p_Block p) (heap w))" and ?x = "snd (hashBlock e (p_Block p) (heap w))"
  have hb: "ProposalSignBytes e c p (heap w) = (?h, ?x)" for c by (simp add: ProposalSignBytes_def del: snd_hashBlock)
  have sg: "Signature (blocks ?h (p_Block p)) = Signature (blocks (heap w) (p_Block p))" by (simp add: blocks_hashBlock)
  show ?thesis
  proof (cases "pkVerify e pk ?x (bytes_of (Signature (blocks ?h (p_Block p)))) \<and> PubVal (cs_state (cs w)) \<noteq> None")
    case False
    then show ?thesis using assms unfolding acceptProposal_def hb
      by (auto simp: Let_def UpdateState_def rejected_def same_round_def setHeap_def split: if_splits)
  next
    case True
    then obtain h3 where u: "UpdateState (clock inp 0) (cs_state (cs w)) (p_Block p) ?h = (h3, None)" by (simp add: UpdateState_def)
    let ?w2 = "setHeap h3 (setHeap ?h w)"
    obtain p' w3 where b: "broadcastProposal (clock inp 2 0) p ?w2 = (p', w3)" by fastforce
    have v: "voteOnProposal e inp p' (updCs (\<lambda>c. c\<lparr>cs_Proposal := Some p'\<rparr>) w3) = Inr w'" "err = None"
      using assms True u b unfolding acceptProposal_def hb by (auto simp: Let_def)
    have "accepted e inp p w w' \<and> err = None"
      unfolding accepted_def using b v u by (intro conjI exI [of _ ?w2] exI [of _ p'] exI [of _ w3]) (simp_all add: setHeap_def same_round_def)
    then show ?thesis using True sg by simp
  qed
qed

lemma defaultSetProposal_cases:
  assumes "defaultSetProposal e inp p w = Inr (w', err)"
  shows "err \<noteq> None \<and> rejected w w' \<or> err = None \<and> proposal_checked e p w \<and> accepted e inp p w w'"
proof (cases "Slot (blocks (heap w) (p_Block p)) = CurSlot (cs w)")
  case False
  then show ?thesis using assms
    by (auto simp: defaultSetProposal_def Let_def rejected_def same_round_def split: if_splits prod.splits option.splits
        dest!: TryAddFutureProposal_frame)
next
  case True
  let ?b = "blocks (heap w) (p_Block p)"
  obtain i val where val: "GetByAddress (cs_Validators (cs w)) (ValidatorAddr ?b) = (i, val)" by fastforce
  from assms True val obtain c1 leader where ip: "isProposer val (cs w) = Inr (c1, leader)"
    by (auto simp: defaultSetProposal_def Let_def)
  have sr: "rejected w (w\<lparr>cs := c1\<rparr>)" using isProposer_frame [OF ip] by (auto simp: rejected_def same_round_def)
  show ?thesis
  proof (cases "leader \<and> allValid e (Txs ?b) = Inr True")
    case False
    then show ?thesis using assms True val ip sr by (auto simp: defaultSetProposal_def Let_def split: if_splits)
  next
    case ok: True
    from assms True val ip ok obtain v pk where v: "val = Some v" "val_PubKey v = Some pk"
      and acc: "acceptProposal e inp pk p (w\<lparr>cs := c1\<rparr>) = Inr (w', err)"
      by (auto simp: defaultSetProposal_def Let_def)
    obtain q where q: "c1 = (cs w)\<lparr>Proposer := q\<rparr>" using isProposer_frame [OF ip] by blast
    have "proposal_checked e p w" if "pkVerify e pk (snd (Block_Hash e ?b)) (bytes_of (Signature ?b))"
      using that True ok val v ip by (auto simp: proposal_checked_def Let_def)
    moreover have "accepted e inp p (w\<lparr>cs := c1\<rparr>) w' \<Longrightarrow> accepted e inp p w w'"
      using q unfolding accepted_def by (auto simp: same_round_def)
    moreover have "rejected (w\<lparr>cs := c1\<rparr>) w' \<Longrightarrow> rejected w w'" using q by (simp add: rejected_def same_round_def)
    ultimately show ?thesis using acceptProposal_cases [OF acc] by auto
  qed
qed

lemma same_round_accepted:
  assumes "accepted e inp p w w'"
  shows "same_round w w'"
proof -
  obtain w2 p' w3 where w2: "same_round w w2" "broadcastProposal (clock inp 2 0) p w2 = (p', w3)"
    and v: "voteOnProposal e inp p' (updCs (\<lambda>c. c\<lparr>cs_Proposal := Some p'\<rparr>) w3) = Inr w'"
    using assms unfolding accepted_def by blast
  have "same_round w2 w3" using same_round_broadcastProposal [of w2 "clock inp 2 0" p] w2(2) by simp
  then have "same_round w (updCs (\<lambda>c. c\<lparr>cs_Proposal := Some p'\<rparr>) w3)" using w2(1) same_round_trans by (simp add: same_round_setProposal) blast
  from same_round_trans [OF this same_round_voteOnProposal [OF v]] show ?thesis .
qed

lemma same_round_rejected: "rejected w w' \<Longrightarrow> same_round w w'"
  by (simp add: rejected_def)

lemma same_round_defaultSetProposal: "defaultSetProposal e inp p w = Inr (w', err) \<Longrightarrow> same_round w w'"
  using defaultSetProposal_cases same_round_accepted same_round_rejected by blast

lemma same_round_handleMsg:
  assumes "handleMsg e inp m w = Inr w'"
  shows "same_round w w'"
proof (cases m)
  case (ProposalMessage p)
  then show ?thesis using assms by (auto simp: handleMsg_def split: option.splits if_splits dest!: same_round_defaultSetProposal)
next
  case (VoteMessage v)
  then obtain w1 added err where t: "TryAddVote e v w = Inr (w1, added, err)"
    using assms by (auto simp: handleMsg_def)
  have "same_round w1 w'" using assms VoteMessage t
    by (auto simp: handleMsg_def Let_def same_round_def updCs_def restampVote_def broadcastVote_def split: if_splits option.splits)
  then show ?thesis using same_round_trans [OF same_round_TryAddVote [OF t]] by blast
qed

lemma same_round_triggle: "triggleFutureProposal e inp slot w = Inr w' \<Longrightarrow> same_round w w'"
  by (auto simp: triggleFutureProposal_def split: option.splits dest!: same_round_defaultSetProposal)

lemma same_round_judgeProposal: "same_round w (judgeProposal e inp b w)"
  by (simp add: judgeProposal_def Let_def split: option.split)

lemma same_round_updateEvidences: "updateEvidences e n w = Inr w' \<Longrightarrow> same_round w w'"
  by (auto simp: updateEvidences_def split: if_splits)

lemma cs_judgeProposal [simp]: "cs (judgeProposal e inp b w) = cs w"
  by (simp add: judgeProposal_def setHeap_def Let_def split: option.split)

lemma cs_updateEvidences: "updateEvidences e n w = Inr w' \<Longrightarrow> cs w' = cs w"
  by (auto simp: updateEvidences_def setHeap_def split: if_splits)

lemma applyProposal_steps:
  assumes "applyProposal e store inp w = Inr w'"
  obtains w1 p w3 newState err h d where
    "triggleFutureProposal e inp (CurSlot (cs w)) w = Inr w1" "cs_Proposal (cs w1) = Some p"
    "updateEvidences e (fuel inp) (judgeProposal e inp (p_Block p) w1) = Inr w3" "cs_Proposal (cs w3) = Some p"
    "ApplyBlock e store (clock inp 7) (State_Copy (cs_state (cs w3))) (p_Block p) (heap w3) (db w3) = Inr (newState, err, h, d)"
    "w' = (if err \<noteq> None then w3\<lparr>heap := h, db := d\<rparr>
           else updCs (\<lambda>c. c\<lparr>cs_lastState := Some (cs_state c), cs_state := newState\<rparr>) (w3\<lparr>heap := h, db := d\<rparr>))"
proof -
  from assms obtain w1 p w3 q newState err h d where *:
    "triggleFutureProposal e inp (CurSlot (cs w)) w = Inr w1" "cs_Proposal (cs w1) = Some p"
    "updateEvidences e (fuel inp) (judgeProposal e inp (p_Block p) w1) = Inr w3" "cs_Proposal (cs w3) = Some q"
    "ApplyBlock e store (clock inp 7) (State_Copy (cs_state (cs w3))) (p_Block q) (heap w3) (db w3) = Inr (newState, err, h, d)"
    "w' = (if err \<noteq> None then w3\<lparr>heap := h, db := d\<rparr>
           else updCs (\<lambda>c. c\<lparr>cs_lastState := Some (cs_state c), cs_state := newState\<rparr>) (w3\<lparr>heap := h, db := d\<rparr>))"
    by (auto simp: applyProposal_def Let_def split: if_splits)
  moreover have "q = p" using *(2,4) cs_updateEvidences [OF *(3)] by simp
  ultimately show ?thesis using that by blast
qed

lemma same_round_applyProposal:
  assumes "applyProposal e store inp w = Inr w'"
  shows "same_round w w'"
  using assms
proof (rule applyProposal_steps)
  fix w1 p w3 newState err h d
  assume a: "triggleFutureProposal e inp (CurSlot (cs w)) w = Inr w1"
    "updateEvidences e (fuel inp) (judgeProposal e inp (p_Block p) w1) = Inr w3"
    "w' = (if err \<noteq> None then w3\<lparr>heap := h, db := d\<rparr>
           else updCs (\<lambda>c. c\<lparr>cs_lastState := Some (cs_state c), cs_state := newState\<rparr>) (w3\<lparr>heap := h, db := d\<rparr>))"
  note same_round_triggle [OF a(1)]
  also note same_round_judgeProposal
  also note same_round_updateEvidences [OF a(2)]
  also have "same_round w3 w'" using a(3) by (simp add: same_round_def updCs_def)
  finally show ?thesis .
qed

text \<open>The end of \<open>enterApply\<close>: the step becomes \<open>RoundStepApply\<close> and one propose event is posted.\<close>

definition to_step :: "RoundStepType \<Rightarrow> RoundEvent list \<Rightarrow> 'db World \<Rightarrow> 'db World \<Rightarrow> bool" where
  "to_step st evs w w' \<longleftrightarrow> CurSlot (cs w') = CurSlot (cs w) \<and> LastSlot (cs w') = LastSlot (cs w) \<and> Step (cs w') = st
     \<and> slot_clock (cs w') = slot_clock (cs w) \<and> eventQueue w' = eventQueue w @ evs \<and> cs_Validators (cs w') = cs_Validators (cs w)"

lemma finishApply_step:
  assumes "finishApply e w = Inr w'"
  shows "to_step RoundStepApply [\<lparr>ev_Type = RoundEventPropose, ev_Slot = CurSlot (cs w)\<rparr>] w w'"
  using assms by (auto simp: finishApply_def Let_def to_step_def sendEventMessage_def updateStep_def updCs_def setHeap_def split: prod.splits)

lemma enterApply_step:
  assumes "enterApply e store inp w = Inr w'"
  shows "Step (cs w) = RoundStepSlot" "to_step RoundStepApply [\<lparr>ev_Type = RoundEventPropose, ev_Slot = CurSlot (cs w)\<rparr>] w w'"
proof -
  show "Step (cs w) = RoundStepSlot" using assms by (auto simp: enterApply_def split: if_splits)
  have "\<exists>w1. same_round w w1 \<and> finishApply e w1 = Inr w'"
    using assms by (auto simp: enterApply_def intro: same_round_refl split: if_splits dest: same_round_applyProposal)
  then obtain w1 where "same_round w w1" "finishApply e w1 = Inr w'" by blast
  then show "to_step RoundStepApply [\<lparr>ev_Type = RoundEventPropose, ev_Slot = CurSlot (cs w)\<rparr>] w w'"
    using finishApply_step [of e w1 w'] by (simp add: to_step_def same_round_def)
qed

text \<open>The proposer posts one proposal to itself, unless it cannot sign.\<close>

lemma defaultProposal_cases:
  assumes "defaultProposal e inp w = Inr (w', r)"
  obtains (unsigned) proposal h1 pv h3 err where
      "CreateProposal e (clock inp 3) (reaped inp) (cs_state (cs w)) (CurSlot (cs w)) (heap w) = Inr (proposal, h1)"
      "SignProposal e pv (st_ChainID (cs_state (cs w))) (proposal\<lparr>p_From := scast (ValIndex (cs w))\<rparr>)
         (updBlock (p_Block proposal) (\<lambda>b. b\<lparr>SlotStartTime := curSlotStartTime (cs w)\<rparr>) h1) = (h3, Some err)"
      "w' = setHeap h3 (updateStep RoundStepPropose w)" "r = None"
  | (signed) proposal h1 pv h3 where
      "CreateProposal e (clock inp 3) (reaped inp) (cs_state (cs w)) (CurSlot (cs w)) (heap w) = Inr (proposal, h1)"
      "SignProposal e pv (st_ChainID (cs_state (cs w))) (proposal\<lparr>p_From := scast (ValIndex (cs w))\<rparr>)
         (updBlock (p_Block proposal) (\<lambda>b. b\<lparr>SlotStartTime := curSlotStartTime (cs w)\<rparr>) h1) = (h3, None)"
      "w' = sendInternalMessage (ProposalMessage (proposal\<lparr>p_From := scast (ValIndex (cs w))\<rparr>))
         (setHeap (fst (hashBlock e (p_Block proposal) h3)) (updateStep RoundStepPropose w))"
      "r = Some (proposal\<lparr>p_From := scast (ValIndex (cs w))\<rparr>)"
proof -
  from assms obtain proposal h1 pv where c: "PrivVal (cs w) = Some pv"
    "CreateProposal e (clock inp 3) (reaped inp) (cs_state (cs w)) (CurSlot (cs w)) (heap w) = Inr (proposal, h1)"
    by (auto simp: defaultProposal_def Let_def updateStep_def updCs_def)
  obtain h3 err where sp: "SignProposal e pv (st_ChainID (cs_state (cs w))) (proposal\<lparr>p_From := scast (ValIndex (cs w))\<rparr>)
      (updBlock (p_Block proposal) (\<lambda>b. b\<lparr>SlotStartTime := curSlotStartTime (cs w)\<rparr>) h1) = (h3, err)" by fastforce
  show ?thesis
  proof (cases err)
    case None
    then show ?thesis using assms c sp signed by (simp add: defaultProposal_def Let_def updateStep_def updCs_def)
  next
    case (Some x)
    then show ?thesis using assms c sp unsigned by (simp add: defaultProposal_def Let_def updateStep_def updCs_def)
  qed
qed

lemma defaultProposal_step:
  assumes "defaultProposal e inp w = Inr (w', p)"
  shows "to_step RoundStepPropose [] w w'"
  using assms
  by (cases rule: defaultProposal_cases) (simp_all add: to_step_def updateStep_def updCs_def setHeap_def sendInternalMessage_def)

lemma enterPropose_step:
  assumes "enterPropose e inp w = Inr w'"
  shows "Step (cs w) = RoundStepApply" "to_step RoundStepWait [] w w'"
proof -
  show "Step (cs w) = RoundStepApply" using assms by (auto simp: enterPropose_def split: if_splits)
  then obtain val c leader where ip: "isProposer val (cs w) = Inr (c, leader)"
    and rest: "(if \<not> leader then Inr (updateStep RoundStepWait (w\<lparr>cs := c\<rparr>))
        else rbind (defaultProposal e inp (w\<lparr>cs := c\<rparr>)) (\<lambda>(w2, _). Inr (updateStep RoundStepWait w2))) = Inr w'"
    using assms by (auto simp: enterPropose_def Let_def split: prod.splits)
  have "same_round w (w\<lparr>cs := c\<rparr>)" using same_round_isProposer [OF ip] .
  then show "to_step RoundStepWait [] w w'"
    using rest by (auto simp: to_step_def same_round_def updateStep_def updCs_def split: if_splits dest!: defaultProposal_step)
qed

lemma reviseSlotTime_clock:
  "\<exists>f g. reviseSlotTime t0 t1 w = w\<lparr>cs := (cs w)\<lparr>curSlotStartTime := f, slot_clock := g\<rparr>\<rparr> \<and>
     (g = slot_clock (cs w) \<or> (\<exists>d. g = ResetClock d (slot_clock (cs w))))"
proof -
  have id: "w = w\<lparr>cs := (cs w)\<lparr>curSlotStartTime := curSlotStartTime (cs w), slot_clock := slot_clock (cs w)\<rparr>\<rparr>" by simp
  show ?thesis
  proof (cases "reviseSlotTime t0 t1 w = w")
    case True
    then show ?thesis using id by metis
  next
    case False
    then show ?thesis by (auto simp: reviseSlotTime_def Let_def updCs_def split: option.splits if_splits)
  qed
qed

lemma enterNewSlot_step:
  assumes "enterNewSlot inp slot w = Inr w'"
  shows "CurSlot (cs w') = curslot (slot_clock (cs w))" "LastSlot (cs w') = CurSlot (cs w)" "Step (cs w') = RoundStepSlot"
    "eventQueue w' = eventQueue w @ [\<lparr>ev_Type = RoundEventApply, ev_Slot = curslot (slot_clock (cs w))\<rparr>]"
    "\<exists>d d'. slot_clock (cs w') = ResetClock d (slot_clock (cs w)) \<or> slot_clock (cs w') = ResetClock d (ResetClock d' (slot_clock (cs w)))"
proof -
  let ?w1 = "updCs (\<lambda>c. c\<lparr>LastSlot := CurSlot c, CurSlot := GetSlot (slot_clock c), curSlotStartTime := clock inp 5 0\<rparr>) w"
  obtain c2 where "decideProposer (cs ?w1) = Inr c2" using assms by (auto simp: enterNewSlot_def Let_def)
  then obtain p where c2: "decideProposer (cs ?w1) = Inr c2" "c2 = (cs ?w1)\<lparr>Proposer := Some p\<rparr>" by (blast elim: decideProposer_frame)
  let ?w2 = "?w1\<lparr>cs := c2\<lparr>slot_clock := ResetClock SlotTimeOut (slot_clock c2)\<rparr>\<rparr>"
  obtain f g where r: "reviseSlotTime (clock inp 5 1) (clock inp 5 2) ?w2 = ?w2\<lparr>cs := (cs ?w2)\<lparr>curSlotStartTime := f, slot_clock := g\<rparr>\<rparr>"
    and g: "g = slot_clock (cs ?w2) \<or> (\<exists>d. g = ResetClock d (slot_clock (cs ?w2)))" using reviseSlotTime_clock by blast
  have w': "w' = updateStep RoundStepSlot (sendEventMessage RoundEventApply (CurSlot (cs ?w2)) (?w2\<lparr>cs := (cs ?w2)\<lparr>curSlotStartTime := f, slot_clock := g\<rparr>\<rparr>))"
    using assms c2(1) r by (simp add: enterNewSlot_def Let_def)
  show "CurSlot (cs w') = curslot (slot_clock (cs w))" "LastSlot (cs w') = CurSlot (cs w)" "Step (cs w') = RoundStepSlot"
    "eventQueue w' = eventQueue w @ [\<lparr>ev_Type = RoundEventApply, ev_Slot = curslot (slot_clock (cs w))\<rparr>]"
    by (simp_all add: w' c2(2) updateStep_def sendEventMessage_def updCs_def GetSlot_def)
  show "\<exists>d d'. slot_clock (cs w') = ResetClock d (slot_clock (cs w)) \<or> slot_clock (cs w') = ResetClock d (ResetClock d' (slot_clock (cs w)))"
    using g by (auto simp: w' c2(2) updateStep_def sendEventMessage_def updCs_def)
qed

end
