(* ===== verification/Genesis.thy ===== *)
theory Genesis
  imports ChainState Privval
begin

text \<open>
  The genesis document of types/genesis.go, the state a node starts from (node/node.go,
  \<open>loadStateFromFile\<close>) and the document that cmd/commands/gen\_genesis.go generates.
  JSON and files are outside the model.
\<close>

section \<open>Model\<close>

record GenesisValidator =
  gv_Address :: Address
  gv_PubKey :: "PubKey option"
  gv_Name :: string

record GenesisDoc =
  GenesisTime :: Time
  gd_ChainID :: string
  gd_InitialSlot :: LTime
  gd_Validators :: "GenesisValidator list"
  PubValidator :: GenesisValidator
  gd_SupportQuorum :: Quorum
  AppHash :: bytes

definition MaxChainIDLen :: nat where
  "MaxChainIDLen = 50"

datatype genErr = ErrEmptyChainID | ErrLongChainID | ErrNegativeSlot | ErrWrongAddress GenesisValidator

fun completeValidators :: "('s, 'g) Crypto \<Rightarrow> GenesisValidator list \<Rightarrow> (genErr + GenesisValidator list) res" where
  "completeValidators e [] = Inr (Inr [])"
| "completeValidators e (v # vs) =
     rbind (deref (gv_PubKey v)) (\<lambda>pk.
       if length (gv_Address v) > 0 \<and> pkAddress e pk \<noteq> gv_Address v then Inr (Inl (ErrWrongAddress v))
       else
         let v' = (if length (gv_Address v) = 0 then v\<lparr>gv_Address := pkAddress e pk\<rparr> else v) in
         rbind (completeValidators e vs) (\<lambda>r. Inr (case r of Inl err \<Rightarrow> Inl err | Inr vs' \<Rightarrow> Inr (v' # vs'))))"

text \<open>An error leaves a document that the caller drops.\<close>

definition ValidateAndComplete :: "('s, 'g) Crypto \<Rightarrow> Time \<Rightarrow> GenesisDoc \<Rightarrow> (genErr + GenesisDoc) res" where
  "ValidateAndComplete e now genDoc =
     (if gd_ChainID genDoc = [] then Inr (Inl ErrEmptyChainID)
      else if length (gd_ChainID genDoc) > MaxChainIDLen then Inr (Inl ErrLongChainID)
      else if sint (gd_InitialSlot genDoc) < 0 then Inr (Inl ErrNegativeSlot)
      else rbind (completeValidators e (gd_Validators genDoc)) (\<lambda>r. case r of
             Inl err \<Rightarrow> Inr (Inl err)
           | Inr vs \<Rightarrow> Inr (Inr (genDoc\<lparr>gd_Validators := vs,
                         GenesisTime := (if GenesisTime genDoc = zeroTime then now else GenesisTime genDoc)\<rparr>))))"

fun newValidators :: "('s, 'g) Crypto \<Rightarrow> GenesisValidator list \<Rightarrow> Validator list res" where
  "newValidators e [] = Inr []"
| "newValidators e (v # vs) = rbind (NewValidator e (gv_PubKey v)) (\<lambda>val. rbind (newValidators e vs) (\<lambda>vals. Inr (val # vals)))"

definition GenesisDoc_ValidatorSet :: "('s, 'g) Crypto \<Rightarrow> GenesisDoc \<Rightarrow> ValidatorSet res" where
  "GenesisDoc_ValidatorSet e genDoc = rbind (newValidators e (gd_Validators genDoc)) (\<lambda>vals. Inr (NewValidatorSet vals))"

definition PublicValidator :: "('s, 'g) Crypto \<Rightarrow> GenesisDoc \<Rightarrow> Validator res" where
  "PublicValidator e genDoc = NewValidator e (gv_PubKey (PubValidator genDoc))"

text \<open>\<open>loadStateFromFile\<close>, given the validated document.\<close>

definition loadState :: "('s, 'g) Crypto \<Rightarrow> GenesisDoc \<Rightarrow> Heap \<Rightarrow> (State \<times> Heap) res" where
  "loadState e genDoc h =
     (let (genblock, h1) = newBlock (MakeGenesisBlock (gd_ChainID genDoc) (GenesisTime genDoc)) h in
      rbind (PublicValidator e genDoc) (\<lambda>pub.
      rbind (GenesisDoc_ValidatorSet e genDoc) (\<lambda>vals.
      Inr (MakeGenesisState (gd_ChainID genDoc) (gd_InitialSlot genDoc) genblock None (Some pub) vals h1))))"

text \<open>
  The validators of \<open>genGenesisFile\<close>, numbered from 1. An error of \<open>GetValue\<close> is logged and the key is
  then nil, whose \<open>PubKey\<close> fails. The chain id passes through \<open>fmt.Sprintf\<close> as a format without arguments,
  which leaves ids without a percent sign alone; the cluster size is not negative.
\<close>

fun genValidators :: "('s, 'g) Crypto \<Rightarrow> ('s, 'g, 'p) Kyber \<Rightarrow> 's Polynome \<Rightarrow> nat list \<Rightarrow> GenesisValidator list res" where
  "genValidators e K poly [] = Inr []"
| "genValidators e K poly (k # ids) =
     rbind (GetValue K poly (of_nat k)) (\<lambda>r.
     let priv = (case r of Inl err \<Rightarrow> [] | Inr x \<Rightarrow> x) in
     rbind (deref (PrivKey_PubKey K priv)) (\<lambda>pub.
     rbind (genValidators e K poly ids) (\<lambda>vs.
     Inr (\<lparr>gv_Address = pkAddress e pub, gv_PubKey = Some pub, gv_Name = ''validator-'' @ Itoa (of_nat k)\<rparr> # vs))))"

definition genGenesisDoc :: "('s, 'g) Crypto \<Rightarrow> ('s, 'g, 'p) Kyber \<Rightarrow> string \<Rightarrow> int64 \<Rightarrow> nat \<Rightarrow> int64 \<Rightarrow> Time \<Rightarrow> Time \<Rightarrow> GenesisDoc res" where
  "genGenesisDoc e K chainID thres cluster_count seed now0 now1 =
     (let primary_priv = GenPrivKeyWithSeed K seed in
      rbind (Master K primary_priv thres seed) (\<lambda>poly.
      rbind (deref poly) (\<lambda>p.
      rbind (genValidators e K p [1..<Suc cluster_count]) (\<lambda>val_list.
      let (genBlock, signBytes) = Block_Hash e (MakeGenesisBlock chainID now0);
          signature = (case PrivKey_Sign K primary_priv signBytes of Inl err \<Rightarrow> [] | Inr sig \<Rightarrow> sig);
          quorum = \<lparr>q_SLot = 0, q_BlockHash = snd (Block_Hash e genBlock), q_Type = SupportQuorum, q_Signature = signature\<rparr>
      in rbind (deref (PrivKey_PubKey K primary_priv)) (\<lambda>primary_pub.
         Inr \<lparr>GenesisTime = now1, gd_ChainID = chainID, gd_InitialSlot = 0, gd_Validators = val_list,
              PubValidator = \<lparr>gv_Address = pkAddress e primary_pub, gv_PubKey = Some primary_pub, gv_Name = ''cluster-primary''\<rparr>,
              gd_SupportQuorum = quorum, AppHash = ''app hash''\<rparr>)))))"

end
