(* ===== verification/Machine.thy ===== *)
theory Machine
  imports ConsensusFacts Genesis
begin

text \<open>
  The consensus node as a transition system. A step is one delivery: the timer or one of the clock's channels, a
  timeout, a state-machine event, or a message from a peer or from the node itself. The handlers hold
  the mutex of the consensus state, so each runs as one step; pending messages are delivered in any order.
\<close>

section \<open>Model\<close>

definition updClock :: "(slotClock \<Rightarrow> slotClock) \<Rightarrow> 'db World \<Rightarrow> 'db World" where
  "updClock f w = updCs (\<lambda>c. c\<lparr>slot_clock := f (slot_clock c)\<rparr>) w"

text \<open>
  \<open>Receive\<close> of the reactor decodes a proposal into a block of its own. The slot number is assumed not to
  reach the end of its 64 bits.
\<close>

inductive step :: "('s, 'g) Crypto \<Rightarrow> 'db Store \<Rightarrow> 'db World \<Rightarrow> 'db World \<Rightarrow> bool" for e store where
  expire: "t_active (slot_clock (cs w)) \<Longrightarrow> step e store w (updClock (timer_expires now) w)"
| timer: "t_C (slot_clock (cs w)) = Some now \<Longrightarrow> step e store w (updClock (OnStart_timer now) w)"
| tick: "now \<in> set (timerChan (slot_clock (cs w))) \<Longrightarrow> sint (curslot (slot_clock (cs w))) < 2 ^ 63 - 1
    \<Longrightarrow> step e store w (updClock (OnStart_tick now) w)"
| timeout: "ti \<in> set (tockChan (slot_clock (cs w)))
    \<Longrightarrow> step e store w (handleTimeOut ti (updClock (\<lambda>sc. sc\<lparr>tockChan := remove1 ti (tockChan sc)\<rparr>) w))"
| event: "ev \<in> set (eventQueue w) \<Longrightarrow> handleEvent e store inp ev (w\<lparr>eventQueue := remove1 ev (eventQueue w)\<rparr>) = Inr w'
    \<Longrightarrow> step e store w w'"
| internal: "m \<in> set (internalQueue w) \<Longrightarrow> handleMsg e inp m (w\<lparr>internalQueue := remove1 m (internalQueue w)\<rparr>) = Inr w'
    \<Longrightarrow> step e store w w'"
| peer_vote: "handleMsg e inp (VoteMessage v) w = Inr w' \<Longrightarrow> step e store w w'"
| peer_proposal: "newBlock b (heap w) = (a, h) \<Longrightarrow> handleMsg e inp (ProposalMessage (p\<lparr>p_Block := a\<rparr>)) (setHeap h w) = Inr w'
    \<Longrightarrow> step e store w w'"

inductive_cases stepE: "step e store w w'"

text \<open>The world in which \<open>OnStart\<close> of the reactor leaves a fresh node: the clock is running.\<close>

definition started :: "'db World \<Rightarrow> bool" where
  "started w \<longleftrightarrow> eventQueue w = [] \<and> internalQueue w = [] \<and> sent w = [] \<and> Step (cs w) = RoundStepWait
     \<and> cs_Proposal (cs w) = None \<and> futureProposal (cs w) = Map.empty \<and> VoteSet (cs w) = MakeSlotVoteSet
     \<and> (\<exists>now d. slot_clock (cs w) = ResetClock d (NewSlotClock LtimeZero now))"

inductive reachable :: "('s, 'g) Crypto \<Rightarrow> 'db Store \<Rightarrow> 'db World \<Rightarrow> 'db World \<Rightarrow> bool" for e store w0 where
  init: "reachable e store w0 w0"
| step: "reachable e store w0 w \<Longrightarrow> step e store w w' \<Longrightarrow> reachable e store w0 w'"

interpretation node: transition_system "step e store" "reachable e store" for e store
proof
  show "reachable e store s t \<Longrightarrow> P s \<Longrightarrow> (\<And>t u. P t \<Longrightarrow> step e store t u \<Longrightarrow> P u) \<Longrightarrow> P t" for s t P
    by (induction rule: reachable.induct) blast+
qed (auto intro: reachable.intros)

section \<open>The slot machine\<close>

abbreviation newSlots :: "RoundEvent list \<Rightarrow> RoundEvent list" where
  "newSlots evs \<equiv> filter (\<lambda>ev. ev_Type ev = RoundEventNewSlot) evs"

definition mkEv :: "RoundEventType \<Rightarrow> LTime \<Rightarrow> RoundEvent" where
  "mkEv ty slot = \<lparr>ev_Type = ty, ev_Slot = slot\<rparr>"

text \<open>The events of the given slot that move the machine within it.\<close>

definition inSlot :: "LTime \<Rightarrow> RoundEvent list \<Rightarrow> RoundEvent list" where
  "inSlot slot q = filter (\<lambda>x. ev_Type x \<noteq> RoundEventNewSlot \<and> ev_Slot x = slot) q"

text \<open>
  One tick is always on its way: through the timer, the clock's channels or the event queue. No event is of a slot that the clock has not
  reached; and of the current slot there is an apply event only in step \<open>RoundStepSlot\<close>, a propose event only in step
  \<open>RoundStepApply\<close>, and never two.
\<close>

definition slot_invar :: "slotClock \<Rightarrow> RoundEvent list \<Rightarrow> LTime \<Rightarrow> RoundStepType \<Rightarrow> bool" where
  "slot_invar sc q cur st \<longleftrightarrow>
     ticks sc + length (newSlots q) = 1
   \<and> (\<forall>ti \<in> set (tockChan sc). ti_Step ti = RoundStepSlot)
   \<and> (\<forall>x \<in> set q. ev_Type x \<noteq> RoundEventNewSlot \<longrightarrow> sint (ev_Slot x) + int (tocked sc + length (newSlots q)) \<le> sint (curslot sc))
   \<and> length (inSlot cur q) \<le> 1
   \<and> (mkEv RoundEventApply cur \<in> set q \<longrightarrow> st = RoundStepSlot)
   \<and> (mkEv RoundEventPropose cur \<in> set q \<longrightarrow> st = RoundStepApply)"

lemma slot_invarD:
  assumes "slot_invar sc q cur st"
  shows "ticks sc + length (newSlots q) = 1" "length (inSlot cur q) \<le> 1"
  using assms by (simp_all only: slot_invar_def)

abbreviation machine_invar :: "'db World \<Rightarrow> bool" where
  "machine_invar w \<equiv> slot_invar (slot_clock (cs w)) (eventQueue w) (CurSlot (cs w)) (Step (cs w))"

lemma machine_invar_same_round: "machine_invar w \<Longrightarrow> same_round w w' \<Longrightarrow> machine_invar w'"
  by (simp add: same_round_def)

lemma slot_invar_started: "started w \<Longrightarrow> machine_invar w"
  by (auto simp: started_def slot_invar_def ticks_def ResetClock_def NewSlotClock_def inSlot_def)

subsection \<open>Steps of the clock\<close>

lemma slot_invar_expire: "slot_invar sc q cur st \<Longrightarrow> t_active sc \<Longrightarrow> slot_invar (timer_expires now sc) q cur st"
  by (auto simp: slot_invar_def ticks_def timer_expires_def tocked_def)

lemma slot_invar_timer: "slot_invar sc q cur st \<Longrightarrow> t_C sc = Some now \<Longrightarrow> slot_invar (OnStart_timer now sc) q cur st"
  by (auto simp: slot_invar_def ticks_def OnStart_timer_def tocked_def)

lemma slot_invar_tick:
  assumes inv: "slot_invar sc q cur st" and now: "now \<in> set (timerChan sc)" and b: "sint (curslot sc) < 2 ^ 63 - 1"
  shows "slot_invar (OnStart_tick now sc) q cur st"
proof -
  have one: "length (timerChan sc) \<ge> 1" using now by (rule member_length)
  then have "length (tockChan sc) = 0" "length (newSlots q) = 0" using slot_invarD(1) [OF inv] unfolding ticks_def by linarith+
  then have z: "tockChan sc = []" "newSlots q = []" by simp_all
  have t: "ticks (OnStart_tick now sc) = ticks sc" using ticks_tick [OF now] .
  have s: "sint (curslot (OnStart_tick now sc)) = sint (curslot sc) + 1"
    using sint_Update_one [OF b] by (simp add: OnStart_tick_def Let_def)
  have k: "tocked (OnStart_tick now sc) = 1" using z by (simp add: OnStart_tick_def Let_def tocked_def)
  have "\<forall>ti \<in> set (tockChan (OnStart_tick now sc)). ti_Step ti = RoundStepSlot" using z by (simp add: OnStart_tick_def Let_def)
  then show ?thesis using inv z s t k by (auto simp: slot_invar_def tocked_def)
qed

lemma inSlot_append [simp]: "inSlot s (p @ q) = inSlot s p @ inSlot s q"
  by (simp add: inSlot_def)

lemma slot_invar_timeout:
  assumes inv: "slot_invar sc q cur st" and ti: "ti \<in> set (tockChan sc)"
  shows "slot_invar (sc\<lparr>tockChan := remove1 ti (tockChan sc)\<rparr>) (q @ [mkEv RoundEventNewSlot s]) cur st"
proof -
  have "length (tockChan sc) \<ge> 1" using ti by (rule member_length)
  then have "length (tockChan sc) = 1" "length (newSlots q) = 0" "ticks sc = 1"
    using slot_invarD(1) [OF inv] unfolding ticks_def by linarith+
  then have z: "length (tockChan sc) = 1" "newSlots q = []" "ticks sc = 1" by simp_all
  then have t: "tockChan sc = [ti]" using ti by (cases "tockChan sc") auto
  then have "ticks (sc\<lparr>tockChan := remove1 ti (tockChan sc)\<rparr>) = 0" using z by (simp add: ticks_def)
  then show ?thesis using inv z t by (auto simp: slot_invar_def tocked_def mkEv_def inSlot_def)
qed

subsection \<open>Steps of the machine\<close>

lemma newSlots_remove1: "ev_Type x \<noteq> RoundEventNewSlot \<Longrightarrow> newSlots (remove1 x q) = newSlots q"
  by (induction q) auto

lemma inSlot_remove1_le: "length (inSlot s (remove1 x q)) \<le> length (inSlot s q)"
  by (induction q) (auto simp: inSlot_def)

lemma inSlot_remove1: "x \<in> set q \<Longrightarrow> ev_Type x \<noteq> RoundEventNewSlot \<Longrightarrow> ev_Slot x = s \<Longrightarrow>
    Suc (length (inSlot s (remove1 x q))) = length (inSlot s q)"
  by (induction q) (auto simp: inSlot_def)

lemma slot_invar_remove:
  assumes inv: "slot_invar sc q cur st" and x: "ev_Type x \<noteq> RoundEventNewSlot"
  shows "slot_invar sc (remove1 x q) cur st"
  using inv inSlot_remove1_le [of cur x q] newSlots_remove1 [OF x] set_remove1_subset [of x q]
  by (auto simp: slot_invar_def)

lemma inSlot_Nil_iff: "inSlot s q = [] \<longleftrightarrow> (\<forall>x \<in> set q. ev_Slot x = s \<longrightarrow> ev_Type x = RoundEventNewSlot)"
  by (auto simp: inSlot_def filter_empty_conv)

text \<open>Handling an event of the current slot leaves none of that slot; the next one may be posted.\<close>

lemma slot_invar_next:
  assumes inv: "slot_invar sc q cur st" and x: "x \<in> set q" "ev_Type x \<noteq> RoundEventNewSlot" "ev_Slot x = cur"
  shows "slot_invar sc (remove1 x q) cur st'" "slot_invar sc (remove1 x q @ [mkEv RoundEventPropose cur]) cur RoundStepApply"
proof -
  have z: "inSlot cur (remove1 x q) = []" using inSlot_remove1 [OF x] slot_invarD(2) [OF inv] by (metis Suc_le_mono One_nat_def le_zero_eq length_0_conv)
  have n: "newSlots (remove1 x q) = newSlots q" using newSlots_remove1 [OF x(2)] .
  have sub: "set (remove1 x q) \<subseteq> set q" by (rule set_remove1_subset)
  have none: "mkEv RoundEventApply cur \<notin> set (remove1 x q)" "mkEv RoundEventPropose cur \<notin> set (remove1 x q)"
    using z by (auto simp: inSlot_Nil_iff mkEv_def)
  show "slot_invar sc (remove1 x q) cur st'" using inv z n sub none by (auto simp: slot_invar_def)
  have "sint cur + int (tocked sc + length (newSlots q)) \<le> sint (curslot sc)" using inv x by (auto simp: slot_invar_def)
  moreover have "mkEv RoundEventApply cur \<noteq> mkEv RoundEventPropose cur" by (simp add: mkEv_def)
  ultimately show "slot_invar sc (remove1 x q @ [mkEv RoundEventPropose cur]) cur RoundStepApply"
    using inv z n sub none by (auto simp: slot_invar_def inSlot_def mkEv_def)
qed

lemma ticks_resets:
  assumes "ticks sc = 0" "sc' = ResetClock d sc \<or> sc' = ResetClock d (ResetClock d' sc)"
  shows "ticks sc' = 1" "curslot sc' = curslot sc" "tockChan sc' = []"
  using assms by (auto simp: ticks_def ResetClock_def)

text \<open>A new slot: the event is consumed, the clock is started again and the apply event of the new slot is posted.\<close>

lemma slot_invar_newSlot:
  assumes inv: "slot_invar sc q cur st" and x: "x \<in> set q" "ev_Type x = RoundEventNewSlot"
    and sc': "sc' = ResetClock d sc \<or> sc' = ResetClock d (ResetClock d' sc)"
  shows "slot_invar sc' (remove1 x q @ [mkEv RoundEventApply (curslot sc)]) (curslot sc) RoundStepSlot"
proof -
  have "x \<in> set (newSlots q)" using x by simp
  then have one: "length (newSlots q) = 1" "ticks sc = 0" using slot_invarD(1) [OF inv] member_length [of x "newSlots q"] by linarith+
  have n: "newSlots (remove1 x q) = []"
    using one(1) x by (metis filter_remove1 length_0_conv length_remove1 One_nat_def diff_Suc_1 \<open>x \<in> set (newSlots q)\<close>)
  have old: "y \<in> set (remove1 x q) \<Longrightarrow> ev_Type y \<noteq> RoundEventNewSlot \<and> sint (ev_Slot y) < sint (curslot sc)" for y
  proof -
    assume y: "y \<in> set (remove1 x q)"
    then have "ev_Type y \<noteq> RoundEventNewSlot" using n by (auto simp: filter_empty_conv)
    then show ?thesis using inv one y set_remove1_subset [of x q] by (auto simp: slot_invar_def)
  qed
  note t = ticks_resets [OF one(2) sc']
  have "inSlot (curslot sc) (remove1 x q) = []" using old unfolding inSlot_Nil_iff by (metis less_irrefl)
  moreover have "mkEv RoundEventPropose (curslot sc) \<notin> set (remove1 x q)" using old [of "mkEv RoundEventPropose (curslot sc)"] by (auto simp: mkEv_def)
  ultimately show ?thesis using t n old by (auto simp: slot_invar_def tocked_def inSlot_def mkEv_def intro: less_imp_le)
qed


lemma updClock_simps [simp]:
  "slot_clock (cs (updClock f w)) = f (slot_clock (cs w))" "eventQueue (updClock f w) = eventQueue w"
  "CurSlot (cs (updClock f w)) = CurSlot (cs w)" "Step (cs (updClock f w)) = Step (cs w)" "heap (updClock f w) = heap w"
  "LastSlot (cs (updClock f w)) = LastSlot (cs w)"
  by (simp_all add: updClock_def updCs_def)

lemma machine_invar_event:
  assumes inv: "machine_invar w" and x: "x \<in> set (eventQueue w)"
    and h: "handleEvent e store inp x (w\<lparr>eventQueue := remove1 x (eventQueue w)\<rparr>) = Inr w'"
  shows "machine_invar w'"
proof (cases "ev_Type x")
  case RoundEventNewSlot
  then have n: "enterNewSlot inp (ev_Slot x) (w\<lparr>eventQueue := remove1 x (eventQueue w)\<rparr>) = Inr w'" using h by (simp add: handleEvent_def)
  note st = enterNewSlot_step [OF n]
  obtain d d' where "slot_clock (cs w') = ResetClock d (slot_clock (cs w)) \<or> slot_clock (cs w') = ResetClock d (ResetClock d' (slot_clock (cs w)))"
    using st(5) by auto
  from slot_invar_newSlot [OF inv x RoundEventNewSlot this] show ?thesis using st(1,3,4) by (simp add: mkEv_def)
next
  case RoundEventApply
  then show ?thesis
  proof (cases "ev_Slot x = CurSlot (cs w)")
    case True
    then have a: "enterApply e store inp (w\<lparr>eventQueue := remove1 x (eventQueue w)\<rparr>) = Inr w'"
      using h RoundEventApply by (simp add: handleEvent_def)
    from enterApply_step(2) [OF a] show ?thesis
      using slot_invar_next(2) [OF inv x _ True] RoundEventApply by (simp add: to_step_def mkEv_def)
  next
    case False
    then have "w' = w\<lparr>eventQueue := remove1 x (eventQueue w)\<rparr>" using h RoundEventApply by (auto simp: handleEvent_def)
    then show ?thesis using slot_invar_remove [OF inv] RoundEventApply by simp
  qed
next
  case RoundEventPropose
  then show ?thesis
  proof (cases "ev_Slot x = CurSlot (cs w)")
    case True
    then have a: "enterPropose e inp (w\<lparr>eventQueue := remove1 x (eventQueue w)\<rparr>) = Inr w'"
      using h RoundEventPropose by (simp add: handleEvent_def)
    from enterPropose_step(2) [OF a] show ?thesis
      using slot_invar_next(1) [OF inv x _ True] RoundEventPropose by (simp add: to_step_def)
  next
    case False
    then have "w' = w\<lparr>eventQueue := remove1 x (eventQueue w)\<rparr>" using h RoundEventPropose by (auto simp: handleEvent_def)
    then show ?thesis using slot_invar_remove [OF inv] RoundEventPropose by simp
  qed
next
  case (RoundEventOther k)
  then have "w' = w\<lparr>eventQueue := remove1 x (eventQueue w)\<rparr>" using h by (auto simp: handleEvent_def split: if_splits)
  then show ?thesis using slot_invar_remove [OF inv] RoundEventOther by simp
qed

lemma machine_invar_step:
  assumes "step e store w w'" "machine_invar w"
  shows "machine_invar w'"
  using assms
proof (induction rule: step.induct)
  case (timeout ti w)
  then have "ti_Step ti = RoundStepSlot" by (auto simp: slot_invar_def)
  then show ?case using slot_invar_timeout [OF timeout(2,1)] by (simp add: handleTimeOut_def sendEventMessage_def mkEv_def)
next
  case (event x w inp w')
  then show ?case using machine_invar_event by blast
next
  case (internal m w inp w')
  then show ?case using machine_invar_same_round [OF _ same_round_handleMsg [OF internal(2)]] by simp
next
  case (peer_vote inp v w w')
  then show ?case using machine_invar_same_round [OF _ same_round_handleMsg [OF peer_vote(1)]] by blast
next
  case (peer_proposal b w a h inp p w')
  then show ?case using machine_invar_same_round [OF _ same_round_handleMsg [OF peer_proposal(2)]] by (simp add: setHeap_def)
qed (simp_all add: slot_invar_expire slot_invar_timer slot_invar_tick)

lemma machine_invar_reachable:
  assumes "reachable e store w0 w" "started w0"
  shows "machine_invar w"
  using assms by (auto intro: node.run_invar [where I = machine_invar] slot_invar_started machine_invar_step)


end
