(* ===== verification/ChainProps.thy ===== *)
theory ChainProps
  imports ExecutorFacts PlainEnv
begin

text \<open>
  The properties of the block tree, the replicated state and the block executor, with a small chain on which they are evaluated: a
  committed genesis block \<open>g\<close>, a pre-committed block \<open>a\<close> above it and a block \<open>b\<close> above that, which witnesses \<open>a\<close>.
\<close>

section \<open>A small chain\<close>

definition demoBlock :: "string \<Rightarrow> string \<Rightarrow> LTime \<Rightarrow> BlockState \<Rightarrow> Block" where
  "demoBlock hash parent slot s = zeroBlock\<lparr>BlockHash := Some hash, Signature := Some ''sig'', LastBlockHash := parent, Slot := slot, BlockState := s\<rparr>"

definition demoTree :: BlockTree where
  "demoTree = \<lparr>bt_nodes = [\<lparr>tn_parent = None, tn_children = [1], tn_data = 0\<rparr>, \<lparr>tn_parent = Some 0, tn_children = [2], tn_data = 1\<rparr>,
      \<lparr>tn_parent = Some 1, tn_children = [], tn_data = 2\<rparr>], bt_size = 3, bt_root = Some 0, bt_lastNode = 2\<rparr>"

definition demoHeap :: Heap where
  "demoHeap = emptyHeap\<lparr>
     blocks := (\<lambda>i. if i = 0 then demoBlock ''g'' '''' 0 CommittedBlock
                 else if i = 1 then (demoBlock ''a'' ''g'' 1 PrecommitBlock)\<lparr>Block_Commit := Some (Commit None (Some 0) (Some 2))\<rparr>
                 else if i = 2 then demoBlock ''b'' ''a'' 2 PrecommitBlock
                 else if i = 3 then demoBlock ''c'' ''b'' 3 SuspectBlock else zeroBlock),
     blocksNext := 4, quorums := (\<lambda>i. NewQuorum\<lparr>q_Type := SupportQuorum, q_BlockHash := ''a''\<rparr>), quorumsNext := 1,
     trees := (\<lambda>_. demoTree), treesNext := 1, sets := (\<lambda>_. \<lparr>bs_blocks = [1, 2]\<rparr>), setsNext := 1\<rparr>"

definition demoState :: State where
  "demoState = fst (NewState ''chain'' 0 None None (NewValidatorSet []) emptyHeap)\<lparr>st_BlockTree := Some 0\<rparr>"

lemma demo_blocks [simp]:
  "blocks demoHeap 0 = demoBlock ''g'' '''' 0 CommittedBlock" "blocks demoHeap 2 = demoBlock ''b'' ''a'' 2 PrecommitBlock"
  "blocks demoHeap (Suc 0) = (demoBlock ''a'' ''g'' 1 PrecommitBlock)\<lparr>Block_Commit := Some (Commit None (Some 0) (Some 2))\<rparr>"
  "blocks demoHeap 3 = demoBlock ''c'' ''b'' 3 SuspectBlock"
  by (simp_all add: demoHeap_def)

lemma demo_stores [simp]:
  "trees demoHeap x = demoTree" "bs_blocks (sets demoHeap x) = [1, 2]" "st_BlockTree demoState = Some 0" "UnCommitBlocks demoState = 0"
  "quorums demoHeap x = NewQuorum\<lparr>q_Type := SupportQuorum, q_BlockHash := ''a''\<rparr>"
  by (simp_all add: demoHeap_def demoState_def NewState_def newSet_def emptyHeap_def putSet_def)

lemma demo_nodes [simp]:
  "bt_nodes demoTree = [\<lparr>tn_parent = None, tn_children = [1], tn_data = 0\<rparr>, \<lparr>tn_parent = Some 0, tn_children = [2], tn_data = 1\<rparr>,
      \<lparr>tn_parent = Some 1, tn_children = [], tn_data = 2\<rparr>]" "bt_root demoTree = Some 0"
  by (simp_all add: demoTree_def)

lemma demo_wf: "wf_tree demoTree"
  by (auto simp: wf_tree_def wf_nodes_def demoTree_def less_Suc_eq)

lemma demo_chain: "chain_invar demoHeap demoTree"
  using demo_wf by (auto simp: chain_invar_def tree_invar_def unique_hashes_def linked_def hashed_def uncommitted_def
      node_hash_def node_block_def inj_on_def demoBlock_def less_Suc_eq split: if_splits)

section \<open>The block tree\<close>

text \<open>
  (C15) Inserting a block: it succeeds exactly when the parent is known and the hash is new; then the tree still is a chain of hashes rooted in
  a committed block, the new block is found under its hash, and so is every block that was there; otherwise the error says why and the
  tree is unchanged.
\<close>

theorem AddBlocks_outcome:
  assumes "chain_invar h t" "BlockHash (blocks h a) \<noteq> None"
  shows "\<exists>t' err. AddBlocks h (LastBlockHash (blocks h a)) a t = Inr (t', err) \<and> chain_invar h t' \<and> (case err of
      None \<Rightarrow> QueryBlockByHash h t' (bytes_of (BlockHash (blocks h a))) = Inr (Some a) \<and> BlockTree_Size t' = BlockTree_Size t + 1
        \<and> (\<forall>x b. QueryBlockByHash h t x = Inr (Some b) \<longrightarrow> QueryBlockByHash h t' x = Inr (Some b))
    | Some ErrDuplicatedBlock \<Rightarrow> t' = t \<and> (\<exists>b. QueryBlockByHash h t (bytes_of (BlockHash (blocks h a))) = Inr (Some b))
    | Some ErrNoQueryBlock \<Rightarrow> t' = t \<and> QueryBlockByHash h t (LastBlockHash (blocks h a)) = Inr None)"
proof -
  note inv = chain_invarD(1,4) [OF assms(1)]
  obtain t' err where res: "AddBlocks h (LastBlockHash (blocks h a)) a t = Inr (t', err)" using tree_index.insertion_total [OF inv(1)] by blast
  have c: "chain_invar h t'" using chain_invar_AddBlocks [OF assms res] .
  show ?thesis
  proof (cases err)
    case None
    note r = res [unfolded None]
    have "QueryBlockByHash h t' (bytes_of (BlockHash (blocks h a))) = Inr (Some a)" using tree_index.insertion_query [OF inv(1) r] by simp
    moreover have "bt_size t' = bt_size t + 1" using AddBlocks_cases [OF inv(2), of h "LastBlockHash (blocks h a)" a] r by auto
    ultimately show ?thesis using res c None tree_index.query_monotone [OF inv(1) res] by (auto simp: BlockTree_Size_def)
  next
    case (Some x)
    then show ?thesis using res c AddBlocks_cases [OF inv(2), of h "LastBlockHash (blocks h a)" a] QueryBlockByHash_node [OF inv(1)]
      by (cases x) (auto simp: QueryBlockByHash_def queryNodeByHash_find [OF inv(2)] find_None_iff set_level_order [OF inv(2)])
  qed
qed

theorem AddBlocks_outcome_witness:
  "\<exists>t' err. AddBlocks demoHeap ''b'' 3 demoTree = Inr (t', err) \<and> chain_invar demoHeap t'"
  using AddBlocks_outcome [OF demo_chain, of 3] by (auto simp: demoBlock_def)

text \<open>
  (C16) The block a proposal extends is chosen by the rule of the protocol: among the blocks of the tree take the newest pre-committed one (the
  root if there is none), and then the newest of it and its descendants. The code's traversal computes exactly that.
\<close>

theorem GetLatestBlock_rule:
  assumes "wf_tree t"
  shows "\<exists>P k. GetLatestBlock h t = Inr (tn_data (bt_nodes t ! k)) \<and> latest_in h (bt_nodes t) {..<length (bt_nodes t)} P k"
  by (rule GetLatestBlock_spec [OF assms])

theorem GetLatestBlock_rule_witness:
  "\<exists>P k. GetLatestBlock demoHeap demoTree = Inr (tn_data (bt_nodes demoTree ! k)) \<and> latest_in demoHeap (bt_nodes demoTree) {..<3} P k"
  using GetLatestBlock_rule [OF demo_wf, of demoHeap] by (simp add: numeral_3_eq_3)

text \<open>
  (C17) The traversal of the tree ends within as many rounds as there are nodes, visits every node exactly once, and every parent before its
  children.
\<close>

theorem ForEach_visits:
  assumes "wf_tree t"
  shows "\<exists>order. distinct order \<and> set order = {..<length (bt_nodes t)} \<and> parents_first (bt_nodes t) order
    \<and> BlockTree_ForEach f t x = Inr (foldl (\<lambda>x n. f (tn_data (bt_nodes t ! n)) x) x order)"
proof (intro exI conjI)
  have wf: "wf_nodes (bt_nodes t)" using assms by (simp add: wf_tree_def)
  show "distinct (level_order (bt_nodes t))" "set (level_order (bt_nodes t)) = {..<length (bt_nodes t)}"
    "parents_first (bt_nodes t) (level_order (bt_nodes t))" using level_order(2-4) [OF wf] .
qed (rule BlockTree_ForEach_foldl [OF assms])

theorem ForEach_visits_witness:
  "\<exists>order. distinct order \<and> BlockTree_ForEach (\<lambda>b acc. acc @ [b]) demoTree [] = Inr (foldl (\<lambda>x n. x @ [tn_data (bt_nodes demoTree ! n)]) [] order)"
  using ForEach_visits [OF demo_wf, of "\<lambda>b acc. acc @ [b]" "[]"] by blast

section \<open>The replicated state\<close>


lemma demo_commits: "decideCommitBlocks demoState 2 demoHeap = Inr [1]"
  by code_simp


lemma NewBranch_spec:
  assumes "st_BlockTree st = Some ta" "chain_invar h (trees h ta)"
  shows "\<exists>P k. latest_in h (bt_nodes (trees h ta)) {..<length (bt_nodes (trees h ta))} P k
    \<and> NewBranch e st h = Inr (fst (hashBlock e (tn_data (bt_nodes (trees h ta) ! k)) h), tn_data (bt_nodes (trees h ta) ! k),
        map (\<lambda>n. tn_data (bt_nodes (trees h ta) ! n)) (filter (\<lambda>n. isPrecommit (node_block h (trees h ta) n))
          (takeWhile (uncommitted h (trees h ta)) (up (bt_nodes (trees h ta)) k))))"
proof -
  let ?t = "trees h ta"
  note inv = chain_invarD [OF assms(2)]
  obtain P k where k: "GetLatestBlock h ?t = Inr (tn_data (bt_nodes ?t ! k))" "latest_in h (bt_nodes ?t) {..<length (bt_nodes ?t)} P k"
    using GetLatestBlock_spec [OF inv(4)] by blast
  let ?b = "tn_data (bt_nodes ?t ! k)" and ?h = "fst (hashBlock e (tn_data (bt_nodes ?t ! k)) h)"
  have "bt_nodes ?t \<noteq> []" using inv(5) unfolding wf_nodes_def by (elim conjE)
  then have len: "k < length (bt_nodes ?t)" using k(2) unfolding latest_in_def Let_def by (elim conjE disjE) simp_all
  have hash: "node_hash ?h ?t n = node_hash h ?t n" if "n < length (bt_nodes ?t)" for n
    using node_hash_links [OF inv(6) same_links_hashBlock that] .
  obtain x where x: "BlockHash (blocks h ?b) = Some x" using inv(6) len by (auto simp: hashed_def node_block_def)
  have s: "snd (hashBlock e ?b h) = x" using Block_Hash_cached [OF x] by simp
  have "tree_invar ?h ?t" using inv(1) hash by (auto simp: tree_invar_def unique_hashes_def inj_on_def)
  moreover have "node_hash ?h ?t k = x" using hash [OF len] x by (simp add: node_hash_def)
  ultimately have q: "queryNodeByHash ?h ?t x = Inr (Some k)" using queryNodeByHash_unique [of ?h ?t k] len by simp
  have nb: "BlockState (node_block ?h ?t n) = BlockState (node_block h ?t n)" for n by (simp add: node_block_def)
  have "NewBranch e st h = Inr (?h, ?b, map (\<lambda>n. tn_data (bt_nodes ?t ! n)) (filter (\<lambda>n. isPrecommit (node_block h ?t n))
          (takeWhile (uncommitted h ?t) (up (bt_nodes ?t) k))))"
    using k(1) s GetBlockByFilter_up [OF inv(4) q, of isPrecommit] assms(1) nb
    by (simp add: NewBranch_def stateTree_def uncommitted_def [abs_def] isPrecommit_def split_beta)
  with k(2) show ?thesis by blast
qed



section \<open>The executor\<close>

lemma ApplyBlock_keeps_committed:
  assumes ta: "st_BlockTree st = Some ta" and res: "ApplyBlock e commitBlock now st a h db = Inr (st', err, h', db')" and c: "committed h b"
  shows "committed h' b"
  using ta res
proof (cases rule: ApplyBlock_cases)
  case (applied t x h2 bl l)
  obtain ok where "commit_outcome st h2 ok (st', l) h'" using Executor_Commit_outcome [OF applied(6)] by blast
  then show ?thesis using c applied(4) by (simp add: commit_outcome_def committed_def)
qed (use c in \<open>simp add: committed_def\<close>)

text \<open>
  (C4) Applying a block is total and safe: with a store that reports no error and accepts the pending blocks, and evidence that can be read, \<open>ApplyBlock\<close> returns; the tree
  remains a chain of hashes rooted in a committed block, the ancestors of every committed block are committed, what was committed
  stays committed, and the validators, the chain id and the shared structures of the state are the same.
\<close>

theorem ApplyBlock_safe:
  assumes "st_BlockTree st = Some ta" "chain_invar h (trees h ta)" "commits_closed h (trees h ta)"
    and "BlockHash (blocks h a) \<noteq> None" "\<not> committed h a" "block_store commitBlock accepts"
    and "\<And>b. b \<in> set (bs_blocks (sets h (UnCommitBlocks st))) \<union> {a} \<Longrightarrow> readable h b"
    and "\<And>b. b \<in> tn_data ` set (bt_nodes (trees h ta)) \<union> set (bs_blocks (sets h (UnCommitBlocks st))) \<union> {a} \<Longrightarrow> accepts (Txs (blocks h b))"
  shows "\<exists>st' err h' db'. ApplyBlock e commitBlock now st a h db = Inr (st', err, h', db')
    \<and> chain_invar h' (trees h' ta) \<and> commits_closed h' (trees h' ta) \<and> same_config st st' \<and> (\<forall>b. committed h b \<longrightarrow> committed h' b)"
proof -
  have si: "state_invar st h" using assms(1,2) by (auto simp: state_invar_def)
  obtain st' err h' db' where res: "ApplyBlock e commitBlock now st a h db = Inr (st', err, h', db')"
    using block_store.ApplyBlock_total [OF assms(6) si assms(1,4,7,8)] by blast
  have "same_config st st'" using ApplyBlock_config [OF res] .
  moreover from this have "chain_invar h' (trees h' ta)"
    using ApplyBlock_invar [OF si assms(4) res] assms(1) by (auto simp: state_invar_def same_config_def)
  moreover have "commits_closed h' (trees h' ta)" using ApplyBlock_closed [OF assms(1-5) block_store.errs [OF assms(6)] res] .
  ultimately show ?thesis using res ApplyBlock_keeps_committed [OF assms(1) res] by blast
qed

definition okStore :: "unit Store" where
  "okStore st b db = Inr ((), Inr ''result hash'')"

interpretation okStore: block_store okStore "\<lambda>_. True"
  by unfold_locales (simp_all add: okStore_def)

theorem ApplyBlock_safe_witness:
  "\<exists>st' err h' db'. ApplyBlock plainCrypto okStore (\<lambda>_. 0) demoState 3 demoHeap () = Inr (st', err, h', db')
    \<and> commits_closed h' (trees h' 0)"
proof -
  have "commits_closed demoHeap demoTree"
    by (auto simp: commits_closed_def uncommitted_def node_block_def less_Suc_eq demoBlock_def)
  moreover have "readable demoHeap b" if "b \<in> set (bs_blocks (sets demoHeap (UnCommitBlocks demoState))) \<union> {3}" for b
    using that by (auto simp: readable_def demoBlock_def zeroBlock_def IsReady_def Let_def NewQuorum_def)
  ultimately show ?thesis
    using ApplyBlock_safe [OF _ _ _ _ _ okStore.block_store_axioms, of demoState 0 demoHeap 3 plainCrypto "\<lambda>_. 0" "()"] demo_chain
    by (auto simp: committed_def demoBlock_def)
qed

text \<open>
  Evidence in a proposal is believed: the signature of a quorum is not looked at, so any support quorum that names a pending block by
  its hash makes that block pre-committed, whoever made it and whatever its signature.
\<close>

theorem UpdateState_believes_evidence:
  assumes "PubVal st \<noteq> None" "Evidences (blocks h p) = [\<lparr>q_SLot = s, q_BlockHash = x, q_Type = SupportQuorum, q_Signature = sig\<rparr>]"
    and "BlockSet_QueryBlockByHash h (sets h (UnCommitBlocks st)) x = Some a" "\<not> committed h a"
  shows "snd (UpdateState now st p h) = None \<and> BlockState (blocks (fst (UpdateState now st p h)) a) = PrecommitBlock"
  using assms by (auto simp: UpdateState_def UpdateState_evidence_def committed_def Let_def)

theorem UpdateState_believes_evidence_witness:
  "BlockState (blocks (fst (UpdateState (\<lambda>_. 0) (demoState\<lparr>PubVal := Some \<lparr>val_Address = [], val_PubKey = None\<rparr>\<rparr>) 3
     (putBlock 3 ((blocks demoHeap 3)\<lparr>Evidences := [\<lparr>q_SLot = 0, q_BlockHash = ''b'', q_Type = SupportQuorum, q_Signature = ''forged''\<rparr>]\<rparr>) demoHeap))) 2)
   = PrecommitBlock"
  using UpdateState_believes_evidence [of "demoState\<lparr>PubVal := Some \<lparr>val_Address = [], val_PubKey = None\<rparr>\<rparr>"
      "putBlock 3 ((blocks demoHeap 3)\<lparr>Evidences := [\<lparr>q_SLot = 0, q_BlockHash = ''b'', q_Type = SupportQuorum, q_Signature = ''forged''\<rparr>]\<rparr>) demoHeap"
      3 0 "''b''" "''forged''" 2 "\<lambda>_. 0"]
  by (simp add: BlockSet_QueryBlockByHash_def committed_def demoBlock_def)

text \<open>
  Committed blocks are final for evidence: whatever quorums a proposal carries, no committed block changes, no parent link, hash or slot of
  any block changes, and neither the tree nor the set of pending blocks does.
\<close>

theorem UpdateState_final:
  "same_links h (fst (UpdateState now st p h)) \<and> trees (fst (UpdateState now st p h)) = trees h \<and> sets (fst (UpdateState now st p h)) = sets h
    \<and> {(a, blocks (fst (UpdateState now st p h)) a) | a. committed h a} = {(a, blocks h a) | a. committed h a}"
proof -
  have "blocks (fst (UpdateState now st p h)) a = blocks h a" if "committed h a" for a
    using UpdateState_loop_committed [OF that] by (simp add: UpdateState_def)
  then show ?thesis by (auto simp: same_links_UpdateState)
qed

text \<open>
  Hashing is idempotent: the first call of \<open>Hash\<close> fills the cached hashes of a block, every later one returns the same value and
  changes nothing, and the fields that consensus decides on are never touched.
\<close>

theorem Block_Hash_stable:
  "snd (Block_Hash e (fst (Block_Hash e b))) = snd (Block_Hash e b) \<and> fst (Block_Hash e (fst (Block_Hash e b))) = fst (Block_Hash e b)
    \<and> BlockHash (fst (Block_Hash e b)) = Some (snd (Block_Hash e b)) \<and> Slot (fst (Block_Hash e b)) = Slot b
    \<and> BlockState (fst (Block_Hash e b)) = BlockState b \<and> LastBlockHash (fst (Block_Hash e b)) = LastBlockHash b"
  using Block_Hash_idem [of e b "fst (Block_Hash e b)" "snd (Block_Hash e b)"] by (simp add: BlockHash_Block_Hash)

section \<open>Leaders and transactions\<close>

lemma sint_add_nat:
  assumes "0 \<le> sint (t :: int64)" "sint t + int k < 2 ^ 63"
  shows "sint (t + of_nat k) = sint t + int k"
proof -
  have "word_of_int (sint t + int k) = t + of_nat k" by simp
  then show ?thesis using assms sint_word_of_int_64 [of "sint t + int k"] by simp
qed

text \<open>
  (C29) Leaders take turns: in as many consecutive slots as there are validators, starting anywhere, the leaders are the validators in their order,
  beginning with the one whose index is the slot modulo their number; so each leads exactly once.
\<close>

theorem proposer_rotation:
  assumes "n = length (Validators vals)" "0 < n" "0 \<le> sint t" "sint t + int n < 2 ^ 63"
  shows "map (\<lambda>k. GetProposer vals (t + of_nat k)) [0..<n] = map (Inr \<circ> Some) (rotate (nat (sint t mod int n)) (Validators vals))"
proof (rule nth_equalityI)
  fix k assume "k < length (map (\<lambda>k. GetProposer vals (t + of_nat k)) [0..<n])"
  then have k: "k < n" by simp
  then have s: "sint (t + of_nat k) = sint t + int k" using assms(3,4) by (intro sint_add_nat) linarith+
  have "int n < 2 ^ 63" using assms(3,4) by linarith
  then have "GetProposer vals (t + of_nat k) = Inr (Some (Validators vals ! nat ((sint t + int k) mod int n)))"
    using GetProposer_nonneg [of "t + of_nat k" vals] assms(1-3) s by auto
  moreover have "nat ((sint t + int k) mod int n) = (nat (sint t mod int n) + k) mod n"
    using assms(2,3) by (simp add: nat_mod_distrib nat_add_distrib mod_add_left_eq)
  ultimately show "map (\<lambda>k. GetProposer vals (t + of_nat k)) [0..<n] ! k = map (Inr \<circ> Some) (rotate (nat (sint t mod int n)) (Validators vals)) ! k"
    using k assms(1) by (simp add: nth_rotate)
qed (simp add: assms(1))

theorem proposer_rotation_witness:
  "map (\<lambda>k. GetProposer (NewValidatorSet [\<lparr>val_Address = ''a'', val_PubKey = None\<rparr>, \<lparr>val_Address = ''b'', val_PubKey = None\<rparr>]) (7 + of_nat k)) [0..<2]
   = [Inr (Some \<lparr>val_Address = ''b'', val_PubKey = None\<rparr>), Inr (Some \<lparr>val_Address = ''a'', val_PubKey = None\<rparr>)]"
  using proposer_rotation [of 2 "NewValidatorSet [\<lparr>val_Address = ''a'', val_PubKey = None\<rparr>, \<lparr>val_Address = ''b'', val_PubKey = None\<rparr>]" 7]
  by (simp add: NewValidatorSet_def)

text \<open>
  (C39) A transaction signature does not fix the arguments: with the characters of the arguments cut into pieces at other places, and any
  other send time, the signature is valid exactly when it was before, although the transaction is a different one.
\<close>

theorem signature_allows_other_arguments:
  assumes "concat args = concat (Args tx)" "args \<noteq> Args tx"
  shows "Valid e (tx\<lparr>Args := args, TxSendTimestamp := ts\<rparr>) = Valid e tx \<and> tx\<lparr>Args := args, TxSendTimestamp := ts\<rparr> \<noteq> tx"
proof
  show "tx\<lparr>Args := args, TxSendTimestamp := ts\<rparr> \<noteq> tx"
    using assms(2) by (cases tx) auto
qed (rule Valid_boundary [OF assms(1)])

theorem signature_allows_other_arguments_witness:
  "Valid plainCrypto (NewTx\<lparr>TxType := SBDepositCheckingTx, Args := [''user1'', ''00''], TxSendTimestamp := 1\<rparr>)
   = Valid plainCrypto (NewTx\<lparr>TxType := SBDepositCheckingTx, Args := [''user'', ''100'']\<rparr>)"
  using signature_allows_other_arguments [of "[''user1'', ''00'']" "NewTx\<lparr>TxType := SBDepositCheckingTx, Args := [''user'', ''100'']\<rparr>" plainCrypto 1] by simp

end
