(* ===== verification/Node.thy ===== *)
theory Node
  imports Machine ChainProps
begin

text \<open>
  The start of a node (node/node.go, \<open>NewNode\<close>; consensus/reactor.go, \<open>OnStart\<close>) and the messages it receives from the network
  (consensus/reactor.go, \<open>Receive\<close>): a fresh node is an initial state of the transition system, and what the network can make it do is
  among its steps.
\<close>

section \<open>Model\<close>

text \<open>
  \<open>NewNode\<close>, from the loaded key file and the validated genesis document to the consensus state. The mempool, the metrics, the network and the
  RPC server are created beside it and not part of the world.
\<close>

definition NewNode :: "('s, 'g) Crypto \<Rightarrow> FilePVKey \<Rightarrow> GenesisDoc \<Rightarrow> Time \<Rightarrow> 'db \<Rightarrow> 'db World res" where
  "NewNode e privValidator genDoc now innerDB =
     rbind (NewValidator e (GetPubKey e (FilePV privValidator))) (\<lambda>validator.
     rbind (loadState e genDoc emptyHeap) (\<lambda>(st, h).
     let genState = st\<lparr>st_Validator := Some validator\<rparr> in
     rbind (NewDefaultConsensusState e (InitialSlot genState) (FilePV privValidator) (st_Validators genState) genState now) (\<lambda>conS.
     Inr \<lparr>cs = conS, heap = h, db = innerDB, eventQueue = [], internalQueue = [], sent = []\<rparr>)))"

definition Slotdiffs :: int where
  "Slotdiffs = 3"

text \<open>
  The time at which the first slot starts. \<open>Milliseconds\<close> truncates towards zero; the floating-point quotients are exact
  rational numbers here, so the ceiling is the one of the integer quotient.
\<close>

definition startTime :: "Time \<Rightarrow> Time \<Rightarrow> Time" where
  "startTime proposalTime tmnow =
     (let ms = (tmnow - proposalTime) sdiv 1000000;
          diffs = (of_int ms :: rat) / 1000;
          diffSlot = \<lceil>diffs / of_int (SlotTimeOut div Second)\<rceil> + Slotdiffs
      in proposalTime + diffSlot * (SlotTimeOut div Second) * Second)"

text \<open>\<open>OnStart\<close> of the consensus reactor, after it has waited for the genesis time; \<open>tmnow\<close> is the clock then.\<close>

definition Reactor_OnStart :: "Time \<Rightarrow> 'db World \<Rightarrow> 'db World res" where
  "Reactor_OnStart tmnow w =
     rbind (GenesisBlock (cs_state (cs w)) (heap w)) (\<lambda>genblock.
     let proposalTime = ProposalTime (blocks (heap w) genblock)
     in Inr (updClock (ResetClock (startTime proposalTime tmnow - tmnow)) w))"

definition ProposalChannel :: "8 word" where "ProposalChannel = 0x21"
definition VoteChannel :: "8 word" where "VoteChannel = 0x22"

text \<open>
  \<open>Receive\<close>, followed by the handling of the message that it passes to the consensus routine. The JSON decoders are parameters; a decoded
  proposal may have no block, and its methods then dereference a nil pointer.
\<close>

definition Receive :: "('s, 'g) Crypto \<Rightarrow> Input \<Rightarrow> (bytes \<Rightarrow> string + Vote) \<Rightarrow> (bytes \<Rightarrow> string + Proposal \<times> Block option)
    \<Rightarrow> Time \<Rightarrow> 8 word \<Rightarrow> bytes \<Rightarrow> 'db World \<Rightarrow> 'db World res" where
  "Receive e inp decodeVote decodeProposal now chID msgBytes w =
     (if chID = VoteChannel then
        (case decodeVote msgBytes of
           Inl err \<Rightarrow> Inr w
         | Inr vote \<Rightarrow> handleMsg e inp (VoteMessage (vote\<lparr>v_ReceiveTime := now\<rparr>)) w)
      else if chID = ProposalChannel then
        (case decodeProposal msgBytes of
           Inl err \<Rightarrow> Inr w
         | Inr (proposal, None) \<Rightarrow> Inl NilDeref
         | Inr (proposal, Some b) \<Rightarrow>
             let (a, h) = newBlock b (heap w)
             in handleMsg e inp (ProposalMessage (proposal\<lparr>p_ReceiveTime := now, p_Block := a\<rparr>)) (setHeap h w))
      else Inr w)"

section \<open>A fresh node\<close>

lemma SetValidtor_frame:
  assumes "SetValidtor e pv c = Inr c'"
  shows "\<exists>i. c' = c\<lparr>ValIndex := i, PrivVal := Some pv\<rparr>"
  using assms by (auto simp: SetValidtor_def)

lemma NewNode_fields:
  assumes "NewNode e pv genDoc now d = Inr w"
  shows "eventQueue w = []" "internalQueue w = []" "sent w = []" "Step (cs w) = RoundStepWait" "cs_Proposal (cs w) = None"
    "futureProposal (cs w) = Map.empty" "VoteSet (cs w) = MakeSlotVoteSet" "slot_clock (cs w) = NewSlotClock LtimeZero now"
proof -
  obtain c sl vals st h where c: "NewDefaultConsensusState e sl (FilePV pv) vals st now = Inr c"
    and w: "w = \<lparr>cs = c, heap = h, db = d, eventQueue = [], internalQueue = [], sent = []\<rparr>"
    using assms by (auto simp: NewNode_def Let_def split: prod.splits)
  obtain i where i: "c = (SetValidtorSet vals (NewConsensusState sl st now))\<lparr>ValIndex := i, PrivVal := Some (FilePV pv)\<rparr>"
    using SetValidtor_frame c unfolding NewDefaultConsensusState_def by blast
  show "eventQueue w = []" "internalQueue w = []" "sent w = []" "Step (cs w) = RoundStepWait" "cs_Proposal (cs w) = None"
    "futureProposal (cs w) = Map.empty" "VoteSet (cs w) = MakeSlotVoteSet" "slot_clock (cs w) = NewSlotClock LtimeZero now"
    by (simp_all add: w i SetValidtorSet_def NewConsensusState_def)
qed

lemma NewNode_started:
  assumes "NewNode e pv genDoc now d = Inr w" "Reactor_OnStart tmnow w = Inr w'"
  shows "started w'"
proof -
  obtain dur where "w' = updClock (ResetClock dur) w" using assms(2) by (auto simp: Reactor_OnStart_def Let_def)
  then show ?thesis using NewNode_fields [OF assms(1)] by (auto simp: started_def updClock_def updCs_def)
qed

text \<open>
  A node that has started from a key file and a genesis document is an initial state of the transition system: nothing is queued or sent, no
  votes or proposals are known, and the slot clock runs towards the first slot.
\<close>

theorem fresh_node_started:
  assumes "NewNode e pv genDoc now d = Inr w" "Reactor_OnStart tmnow w = Inr w'"
  shows "started w'"
  using assms by (rule NewNode_started)

lemma sdiv_nonneg: "0 \<le> (a :: int) \<Longrightarrow> a sdiv 1000000 = a div 1000000"
  by (simp add: signed_divide_int_def sgn_if)



section \<open>Messages from the network\<close>



end
