(* ===== verification/NodeVotes.thy ===== *)
theory NodeVotes
  imports Machine
begin

text \<open>
  Votes in a running node: every vote it keeps is authentic, no validator is counted twice in a slot, and so a quorum of a slot has as
  many different signers as the threshold asks for.
\<close>

section \<open>Votes\<close>

text \<open>
  A vote is authentic when its author is a validator at the index it names and the author's key verifies its signature over
  the chain id, the slot, the kind of vote, the author and the block hash.
\<close>

definition authentic :: "('s, 'g) Crypto \<Rightarrow> ConsensusState \<Rightarrow> Vote \<Rightarrow> bool" where
  "authentic e c v \<longleftrightarrow> (\<exists>val pk. GetByAddress (cs_Validators c) (ValidatorAddress v) = (ValidatorIndex v, Some val)
     \<and> val_PubKey val = Some pk \<and> pkVerify e pk (VoteSignBytes e (st_ChainID (cs_state c)) v) (v_Signature v))"

definition votes_ok :: "('s, 'g) Crypto \<Rightarrow> ConsensusState \<Rightarrow> bool" where
  "votes_ok e c \<longleftrightarrow> wf_votes (VoteSet c) \<and> (\<forall>slot vs v. VoteSet c slot = Some vs \<longrightarrow> v \<in> set (votes vs) \<longrightarrow> authentic e c v)"

lemma votes_ok_cong:
  assumes "votes_ok e c" "VoteSet c' = VoteSet c" "cs_Validators c' = cs_Validators c" "st_ChainID (cs_state c') = st_ChainID (cs_state c)"
  shows "votes_ok e c'"
  using assms by (auto simp: votes_ok_def authentic_def)

text \<open>What \<open>TryAddVote\<close> accepts, and when it fails.\<close>

lemma TryAddVote_cases:
  assumes "TryAddVote e vote w = Inr (w', added, err)"
  shows "w' = updCs (\<lambda>c. c\<lparr>VoteSet := VoteSet (cs w')\<rparr>) w \<and> added = (err = None)
    \<and> (added \<longrightarrow> authentic e (cs w) vote \<and> AddVote (VoteSet (cs w)) vote = (VoteSet (cs w'), None))
    \<and> (\<not> added \<longrightarrow> VoteSet (cs w') = VoteSet (cs w) \<or> (\<exists>x. AddVote (VoteSet (cs w)) vote = (VoteSet (cs w'), Some x)))"
proof -
  have id: "w = updCs (\<lambda>c. c\<lparr>VoteSet := VoteSet (cs w)\<rparr>) w" by (simp add: updCs_def)
  obtain i val where g: "GetByAddress (cs_Validators (cs w)) (ValidatorAddress vote) = (i, val)" by fastforce
  obtain vs x where a: "AddVote (VoteSet (cs w)) vote = (vs, x)" by fastforce
  show ?thesis using assms g a id
    by (auto simp: TryAddVote_def Let_def authentic_def updCs_def split: if_splits option.splits voteErr.splits)
qed

lemma AddVote_authentic:
  assumes "AddVote vs v = (vs', err)" "\<And>slot s x. vs slot = Some s \<Longrightarrow> x \<in> set (votes s) \<Longrightarrow> P x" "err = None \<Longrightarrow> P v"
    and "vs' slot = Some s" "x \<in> set (votes s)"
  shows "P x"
  using assms by (auto simp: AddVote_def Let_def voteSet_AddVote_def NewVoteSet_def split: if_splits option.splits prod.splits)

lemma votes_ok_TryAddVote:
  assumes ok: "votes_ok e (cs w)" and t: "TryAddVote e v w = Inr (w', added, err)"
  shows "votes_ok e (cs w')"
proof -
  note c = TryAddVote_cases [OF t]
  obtain vs where w': "w' = updCs (\<lambda>c. c\<lparr>VoteSet := vs\<rparr>) w" using c by blast
  have vs: "VoteSet (cs w') = vs" and au: "authentic e (cs w') x = authentic e (cs w) x" for x
    by (simp_all add: w' updCs_def authentic_def)
  show ?thesis
  proof (cases "vs = VoteSet (cs w)")
    case True
    then show ?thesis using ok by (intro votes_ok_cong [OF ok]) (simp_all add: w' updCs_def)
  next
    case False
    then obtain err' where a: "AddVote (VoteSet (cs w)) v = (vs, err')" "err' = None \<longrightarrow> authentic e (cs w) v"
      using c vs by (cases added) auto
    have "wf_votes vs" using wf_AddVote [OF _ a(1)] ok by (simp add: votes_ok_def)
    moreover have "authentic e (cs w) x" if "vs slot = Some s" "x \<in> set (votes s)" for slot s x
      using AddVote_authentic [OF a(1), of "authentic e (cs w)", OF _ _ that] ok a(2) by (auto simp: votes_ok_def)
    ultimately show ?thesis by (simp add: votes_ok_def vs au)
  qed
qed


lemma authentic_stamps:
  "authentic e c (v\<lparr>v_SendTime := t, v_Round := r, v_From := f\<rparr>) = authentic e c v"
  by (simp add: authentic_def VoteSignBytes_def)

lemma votes_ok_restamp:
  assumes ok: "votes_ok e c" and vs: "VoteSet c (v_Slot v) = Some s" "votes s = xs @ [v]"
    and v': "v' = v\<lparr>v_SendTime := t, v_Round := r, v_From := f\<rparr>"
  shows "votes_ok e (restampVote v' c)"
proof -
  let ?s = "s\<lparr>votes := xs @ [v']\<rparr>"
  have eq: "restampVote v' c = c\<lparr>VoteSet := (VoteSet c)(v_Slot v \<mapsto> ?s)\<rparr>" using vs v' by (simp add: restampVote_def)
  have wf: "wf_slot (v_Slot v) s" "\<And>x. x \<in> set (votes s) \<Longrightarrow> authentic e c x" using ok vs by (auto simp: votes_ok_def wf_votes_def)
  have "wf_slot (v_Slot v) ?s" using wf(1) vs(2) v' by (simp add: wf_slot_def)
  moreover have "authentic e c x" if "x \<in> set (votes ?s)" for x using that wf(2) vs(2) v' by (auto simp: authentic_stamps)
  moreover have "authentic e (restampVote v' c) = authentic e c" by (simp add: eq authentic_def fun_eq_iff)
  ultimately show ?thesis using ok by (auto simp: votes_ok_def wf_votes_def eq split: if_splits)
qed

lemma AddVote_last:
  assumes "AddVote vs v = (vs', None)"
  shows "\<exists>s xs. vs' (v_Slot v) = Some s \<and> votes s = xs @ [v]"
  using assms by (auto simp: AddVote_def Let_def voteSet_AddVote_def split: if_splits option.splits)

lemma votes_ok_VoteMessage:
  assumes ok: "votes_ok e (cs w)" and h: "handleMsg e inp (VoteMessage v) w = Inr w'"
  shows "votes_ok e (cs w')"
proof -
  obtain w1 added err where t: "TryAddVote e v w = Inr (w1, added, err)" using h by (auto simp: handleMsg_def)
  note c = TryAddVote_cases [OF t]
  have ok1: "votes_ok e (cs w1)" using votes_ok_TryAddVote [OF ok t] .
  show ?thesis
  proof (cases added)
    case False
    then show ?thesis using h t c ok1 by (auto simp: handleMsg_def split: if_splits)
  next
    case True
    obtain s xs where s: "VoteSet (cs w1) (v_Slot v) = Some s" "votes s = xs @ [v]" using AddVote_last c True by blast
    obtain v' where v': "v' = v\<lparr>v_SendTime := clock inp 4 0, v_Round := v_Round v + 1, v_From := scast (ValIndex (cs w1))\<rparr>" by blast
    have "cs w' = restampVote v' (cs w1)"
      using h t c True v' by (auto simp: handleMsg_def broadcastVote_def Let_def updCs_def)
    then show ?thesis using votes_ok_restamp [OF ok1 s v'] by simp
  qed
qed

text \<open>Everything else leaves the votes alone.\<close>

definition same_votes :: "'db World \<Rightarrow> 'db World \<Rightarrow> bool" where
  "same_votes w w' \<longleftrightarrow> VoteSet (cs w') = VoteSet (cs w) \<and> cs_Validators (cs w') = cs_Validators (cs w)
     \<and> same_config (cs_state (cs w)) (cs_state (cs w'))"

lemma same_votes_refl [simp]: "same_votes w w"
  by (simp add: same_votes_def)

lemma same_votes_trans [trans]: "same_votes w w' \<Longrightarrow> same_votes w' w'' \<Longrightarrow> same_votes w w''"
  using same_config_trans by (auto simp: same_votes_def)

lemma votes_ok_same: "votes_ok e (cs w) \<Longrightarrow> same_votes w w' \<Longrightarrow> votes_ok e (cs w')"
  using votes_ok_cong by (auto simp: same_votes_def same_config_def)

lemma same_votes_rejected: "rejected w w' \<Longrightarrow> same_votes w w'"
  by (simp add: rejected_def same_votes_def same_round_def)

lemma same_votes_voteOnProposal: "voteOnProposal e inp p w = Inr w' \<Longrightarrow> same_votes w w'"
  by (auto simp: voteOnProposal_def elim!: signVote_cases) (simp_all add: same_votes_def setHeap_def sendInternalMessage_def)

lemma same_votes_accepted:
  assumes "accepted e inp p w w'"
  shows "same_votes w w'"
proof -
  obtain w2 p' w3 where w2: "same_round w w2" "cs_state (cs w2) = cs_state (cs w)" "VoteSet (cs w2) = VoteSet (cs w)"
      "broadcastProposal (clock inp 2 0) p w2 = (p', w3)"
    and v: "voteOnProposal e inp p' (updCs (\<lambda>c. c\<lparr>cs_Proposal := Some p'\<rparr>) w3) = Inr w'"
    using assms unfolding accepted_def by blast
  have "same_votes w (updCs (\<lambda>c. c\<lparr>cs_Proposal := Some p'\<rparr>) w3)"
    using w2 by (auto simp: same_votes_def same_round_def updCs_def broadcastProposal_def Let_def)
  from same_votes_trans [OF this same_votes_voteOnProposal [OF v]] show ?thesis .
qed

lemma same_votes_defaultSetProposal: "defaultSetProposal e inp p w = Inr (w', err) \<Longrightarrow> same_votes w w'"
  using defaultSetProposal_cases same_votes_accepted same_votes_rejected by blast

lemma same_votes_ProposalMessage: "handleMsg e inp (ProposalMessage p) w = Inr w' \<Longrightarrow> same_votes w w'"
  by (auto simp: handleMsg_def split: option.splits if_splits dest!: same_votes_defaultSetProposal)
    (simp add: same_votes_def setHeap_def)

lemma same_votes_applyProposal:
  assumes "applyProposal e store inp w = Inr w'"
  shows "same_votes w w'"
  using assms
proof (rule applyProposal_steps)
  fix w1 p w3 newState err h d
  assume a: "triggleFutureProposal e inp (CurSlot (cs w)) w = Inr w1"
    "updateEvidences e (fuel inp) (judgeProposal e inp (p_Block p) w1) = Inr w3"
    "ApplyBlock e store (clock inp 7) (State_Copy (cs_state (cs w3))) (p_Block p) (heap w3) (db w3) = Inr (newState, err, h, d)"
    "w' = (if err \<noteq> None then w3\<lparr>heap := h, db := d\<rparr>
           else updCs (\<lambda>c. c\<lparr>cs_lastState := Some (cs_state c), cs_state := newState\<rparr>) (w3\<lparr>heap := h, db := d\<rparr>))"
  have "same_votes w w1" using a(1) by (auto simp: triggleFutureProposal_def split: option.splits dest!: same_votes_defaultSetProposal)
  moreover have "cs w3 = cs w1" using cs_updateEvidences [OF a(2)] by simp
  moreover have "same_config (cs_state (cs w3)) newState" using ApplyBlock_config [OF a(3)] same_config_trans [OF same_config_Copy] by blast
  ultimately show ?thesis using a(4) same_config_trans by (auto simp: same_votes_def updCs_def)
qed

lemma same_votes_finishApply: "finishApply e w = Inr w' \<Longrightarrow> same_votes w w'"
  by (auto simp: finishApply_def Let_def same_votes_def sendEventMessage_def updateStep_def updCs_def setHeap_def split: prod.splits)

lemma same_votes_isProposer: "isProposer val (cs w) = Inr (c, b) \<Longrightarrow> same_votes w (w\<lparr>cs := c\<rparr>)"
  by (auto simp: same_votes_def dest!: isProposer_frame)

lemma same_votes_updateStep [simp]: "same_votes u (updateStep st u') = same_votes u u'"
  by (simp add: same_votes_def updateStep_def updCs_def)

lemma same_votes_defaultProposal: "defaultProposal e inp u = Inr (u', p) \<Longrightarrow> same_votes u u'"
  by (erule defaultProposal_cases) (simp_all add: same_votes_def updateStep_def updCs_def setHeap_def sendInternalMessage_def)

lemma same_votes_enterPropose:
  assumes "enterPropose e inp w = Inr w'"
  shows "same_votes w w'"
proof -
  obtain val c leader where ip: "isProposer val (cs w) = Inr (c, leader)"
    and rest: "(if \<not> leader then Inr (updateStep RoundStepWait (w\<lparr>cs := c\<rparr>))
        else rbind (defaultProposal e inp (w\<lparr>cs := c\<rparr>)) (\<lambda>(w2, _). Inr (updateStep RoundStepWait w2))) = Inr w'"
    using assms by (auto simp: enterPropose_def Let_def split: prod.splits if_splits)
  show ?thesis using rest same_votes_isProposer [OF ip] by (auto split: if_splits dest!: same_votes_defaultProposal intro: same_votes_trans)
qed

lemma same_votes_enterNewSlot:
  assumes "enterNewSlot inp slot w = Inr w'"
  shows "same_votes w w'"
proof -
  let ?w1 = "updCs (\<lambda>c. c\<lparr>LastSlot := CurSlot c, CurSlot := GetSlot (slot_clock c), curSlotStartTime := clock inp 5 0\<rparr>) w"
  obtain c2 where "decideProposer (cs ?w1) = Inr c2" using assms by (auto simp: enterNewSlot_def Let_def)
  then obtain p where c2: "decideProposer (cs ?w1) = Inr c2" "c2 = (cs ?w1)\<lparr>Proposer := Some p\<rparr>" by (blast elim: decideProposer_frame)
  let ?w2 = "?w1\<lparr>cs := c2\<lparr>slot_clock := ResetClock SlotTimeOut (slot_clock c2)\<rparr>\<rparr>"
  obtain f g where r: "reviseSlotTime (clock inp 5 1) (clock inp 5 2) ?w2 = ?w2\<lparr>cs := (cs ?w2)\<lparr>curSlotStartTime := f, slot_clock := g\<rparr>\<rparr>"
    using reviseSlotTime_clock by blast
  show ?thesis using assms c2 r
    by (auto simp: enterNewSlot_def Let_def same_votes_def updateStep_def sendEventMessage_def updCs_def)
qed

lemma same_votes_handleEvent:
  assumes "handleEvent e store inp x w = Inr w'"
  shows "same_votes w w'"
proof -
  have a: "enterApply e store inp w = Inr w' \<Longrightarrow> same_votes w w'"
    using same_votes_trans [OF same_votes_applyProposal same_votes_finishApply]
    by (auto simp: enterApply_def split: if_splits dest: same_votes_finishApply)
  show ?thesis using assms a by (auto simp: handleEvent_def same_votes_enterNewSlot same_votes_enterPropose split: if_splits RoundEventType.splits)
qed

lemma votes_ok_step:
  assumes "step e store w w'" "votes_ok e (cs w)"
  shows "votes_ok e (cs w')"
  using assms
proof (induction rule: step.induct)
  case (event x w inp w')
  then show ?case using votes_ok_same [OF _ same_votes_handleEvent [OF event(2)]] by simp
next
  case (internal m w inp w')
  then have ok: "votes_ok e (cs (w\<lparr>internalQueue := remove1 m (internalQueue w)\<rparr>))" by simp
  show ?case
  proof (cases m)
    case (ProposalMessage p)
    then show ?thesis using votes_ok_same [OF ok same_votes_ProposalMessage] internal(2) by simp
  next
    case (VoteMessage v)
    then show ?thesis using votes_ok_VoteMessage [OF ok] internal(2) by simp
  qed
next
  case (peer_vote inp v w w')
  then show ?case using votes_ok_VoteMessage by blast
next
  case (peer_proposal b w a h inp p w')
  then show ?case using votes_ok_same [OF _ same_votes_ProposalMessage [OF peer_proposal(2)]] by (simp add: setHeap_def)
qed (simp_all add: updClock_def updCs_def handleTimeOut_def sendEventMessage_def votes_ok_def authentic_def split: RoundStepType.split)

lemma votes_ok_reachable:
  assumes "reachable e store w0 w" "started w0"
  shows "votes_ok e (cs w)"
proof -
  have "votes_ok e (cs w0)" using assms(2) by (simp add: started_def votes_ok_def wf_MakeSlotVoteSet) (simp add: MakeSlotVoteSet_def)
  with assms(1) show ?thesis by (rule node.run_invar) (rule votes_ok_step)
qed

text \<open>
  (C3) Quorums are real: in every reachable world, if the votes of a slot give a support quorum, then at least three different validators
  voted in favour in that slot, and every vote counted is of that slot and carries a signature that the key of the
  validator it names accepts.
\<close>

theorem quorum_authentic:
  assumes "started w0" "reachable e store w0 w"
    and "GetVotesBySlot (VoteSet (cs w)) slot = Some vs" "q_Type (TryGenQuorum e vs Threshold) = SupportQuorum"
  shows "3 \<le> card {ValidatorAddress v | v. v \<in> set (votes vs) \<and> v_Type v = SupportVote \<and> v_Slot v = slot}
    \<and> (\<forall>v \<in> set (votes vs). v_Slot v = slot \<and> authentic e (cs w) v)"
proof -
  have ok: "votes_ok e (cs w)" using votes_ok_reachable [OF assms(2,1)] .
  then have wf: "wf_slot slot vs" using assms(3) by (auto simp: votes_ok_def wf_votes_def GetVotesBySlot_def)
  have "sint Threshold = 3" by (simp add: Threshold_def)
  then have "3 \<le> card {ValidatorAddress v | v. v \<in> set (votes vs) \<and> v_Type v = SupportVote \<and> v_Slot v = slot}"
    using TryGenQuorum_backed [OF wf assms(4)] by simp
  moreover have "\<forall>v \<in> set (votes vs). v_Slot v = slot \<and> authentic e (cs w) v"
    using ok wf assms(3) by (auto simp: votes_ok_def wf_slot_def GetVotesBySlot_def)
  ultimately show ?thesis by blast
qed

end
