(* ===== verification/NodeFacts.thy ===== *)
theory NodeFacts
  imports Node NodeVotes
begin

text \<open>
  Facts about a running node that span its parts: what accepting a proposal sends, that signed votes are counted, and that the next slot
  can always be entered.
\<close>

section \<open>Proposals\<close>

lemma accepted_vote:
  assumes "accepted e inp p w w'"
  shows "internalQueue w' = internalQueue w \<or> (\<exists>v. internalQueue w' = internalQueue w @ [VoteMessage v] \<and> v_Slot v = CurSlot (cs w))"
proof -
  obtain w2 p' w3 where a: "same_round w w2" "internalQueue w2 = internalQueue w" "broadcastProposal (clock inp 2 0) p w2 = (p', w3)"
    "voteOnProposal e inp p' (updCs (\<lambda>c. c\<lparr>cs_Proposal := Some p'\<rparr>) w3) = Inr w'"
    using assms by (auto simp: accepted_def)
  have w3: "internalQueue w3 = internalQueue w" "CurSlot (cs w3) = CurSlot (cs w)"
    using a(1-3) by (auto simp: broadcastProposal_def Let_def same_round_def)
  obtain h m where "signVote e (clock inp 1 0) (clock inp 1 1) (clock inp 1 2) p' m (setHeap h (updCs (\<lambda>c. c\<lparr>cs_Proposal := Some p'\<rparr>) w3)) = Inr w'"
    using a(4) by (auto simp: voteOnProposal_def)
  then show ?thesis
    by (cases rule: signVote_cases) (auto simp: sendInternalMessage_def setHeap_def updCs_def w3)
qed

lemma accepted_sent:
  assumes "accepted e inp p w w'"
  shows "\<exists>p' b. sent w' = sent w @ [SentProposal p' b] \<and> p_Block p' = p_Block p"
proof -
  obtain w2 p' w3 where a: "sent w2 = sent w" "broadcastProposal (clock inp 2 0) p w2 = (p', w3)"
    "voteOnProposal e inp p' (updCs (\<lambda>c. c\<lparr>cs_Proposal := Some p'\<rparr>) w3) = Inr w'"
    using assms by (auto simp: accepted_def)
  have w3: "\<exists>b. sent w3 = sent w @ [SentProposal p' b]" "p_Block p' = p_Block p" using a(1,2) by (auto simp: broadcastProposal_def Let_def)
  obtain h m where "signVote e (clock inp 1 0) (clock inp 1 1) (clock inp 1 2) p' m (setHeap h (updCs (\<lambda>c. c\<lparr>cs_Proposal := Some p'\<rparr>) w3)) = Inr w'"
    using a(3) by (auto simp: voteOnProposal_def)
  then show ?thesis using w3
    by (cases rule: signVote_cases) (auto simp: sendInternalMessage_def setHeap_def updCs_def)
qed

section \<open>Votes\<close>

lemma TryAddVote_signed:
  assumes "sign_laws e" "SignVote e (FilePV k) (st_ChainID (cs_state (cs w))) v = Inr v'"
    and "GetByAddress (cs_Validators (cs w)) (ValidatorAddress v) = (ValidatorIndex v, Some val)"
    and "val_PubKey val = Some pub" "privPubKey e (pvk_PrivKey k) = Some pub"
  shows "\<exists>w' err. TryAddVote e v' w = Inr (w', err = None, err)
    \<and> (err = None \<longleftrightarrow> (\<forall>vs. VoteSet (cs w) (v_Slot v) = Some vs \<longrightarrow> (\<forall>u \<in> set (votes vs). \<not> Vote_Equal (Some u) (Some v))))
    \<and> (err = None \<longrightarrow> (\<exists>vs. VoteSet (cs w') (v_Slot v) = Some vs \<and> v' \<in> set (votes vs)))"
proof -
  obtain sg where sg: "privSign e (pvk_PrivKey k) (VoteSignBytes e (st_ChainID (cs_state (cs w))) v) = Inr sg" "v' = v\<lparr>v_Signature := sg\<rparr>"
    using assms(2) by (auto simp: signWith_def split: sum.splits)
  have ver: "pkVerify e pub (VoteSignBytes e (st_ChainID (cs_state (cs w))) v') (v_Signature v')"
    using assms(1,5) sg by (auto simp: sign_laws_def VoteSignBytes_def)
  obtain vs err where a: "AddVote (VoteSet (cs w)) v' = (vs, err)" by (cases "AddVote (VoteSet (cs w)) v'")
  have eq: "Vote_Equal (Some u) (Some v') = Vote_Equal (Some u) (Some v)" for u by (simp add: sg(2) Vote_Equal_def)
  have acc: "err = None \<longleftrightarrow> (\<forall>vs. VoteSet (cs w) (v_Slot v) = Some vs \<longrightarrow> (\<forall>u \<in> set (votes vs). \<not> Vote_Equal (Some u) (Some v)))"
    using AddVote_accepts_iff [of "VoteSet (cs w)" v'] a eq by (simp add: sg(2))
  have add: "err = None \<Longrightarrow> \<exists>s. vs (v_Slot v) = Some s \<and> v' \<in> set (votes s)" using AddVote_added [of "VoteSet (cs w)" v' vs] a by (simp add: sg(2))
  have g: "GetByAddress (cs_Validators (cs w)) (ValidatorAddress v') = (ValidatorIndex v', Some val)" using assms(3) sg(2) by simp
  show ?thesis
  proof (cases err)
    case None
    then have "TryAddVote e v' w = Inr (updCs (\<lambda>c. c\<lparr>VoteSet := vs\<rparr>) w, True, None)"
      using g ver assms(4) a by (simp add: TryAddVote_def)
    then show ?thesis using acc add None by (intro exI [of _ "updCs (\<lambda>c. c\<lparr>VoteSet := vs\<rparr>) w"] exI [of _ None]) (simp add: updCs_def)
  next
    case (Some x)
    then have "TryAddVote e v' w = Inr (updCs (\<lambda>c. c\<lparr>VoteSet := vs\<rparr>) w, False, Some ''duplicate vote'')"
      using g ver assms(4) a by (cases x) (simp add: TryAddVote_def)
    then show ?thesis using acc Some by (intro exI [of _ "updCs (\<lambda>c. c\<lparr>VoteSet := vs\<rparr>) w"] exI [of _ "Some ''duplicate vote''"]) simp
  qed
qed

section \<open>Progress\<close>

text \<open>The clock's slot number is never negative, and the validators are those of the start.\<close>

lemma validators_step:
  assumes "step e store w w'"
  shows "cs_Validators (cs w') = cs_Validators (cs w)"
  using assms
proof (induction rule: step.induct)
  case (event ev w inp w')
  then show ?case using same_votes_handleEvent [OF event(2)] by (simp add: same_votes_def)
next
  case (internal m w inp w')
  then show ?case using same_round_handleMsg [OF internal(2)] by (simp add: same_round_def)
next
  case (peer_vote inp v w w')
  then show ?case using same_round_handleMsg [OF peer_vote(1)] by (simp add: same_round_def)
next
  case (peer_proposal b w a h inp p w')
  then show ?case using same_round_handleMsg [OF peer_proposal(2)] by (simp add: same_round_def setHeap_def)
qed (auto simp: updClock_def updCs_def handleTimeOut_def sendEventMessage_def split: RoundStepType.split)

lemma curslot_handleEvent:
  assumes "handleEvent e store inp x w = Inr w'"
  shows "curslot (slot_clock (cs w')) = curslot (slot_clock (cs w))"
proof (cases "ev_Type x")
  case RoundEventNewSlot
  then have "enterNewSlot inp (ev_Slot x) w = Inr w'" using assms by (simp add: handleEvent_def)
  from enterNewSlot_step(5) [OF this] show ?thesis by auto
next
  case RoundEventApply
  then show ?thesis using assms enterApply_step(2) [of e store inp w w'] by (auto simp: handleEvent_def to_step_def split: if_splits)
next
  case RoundEventPropose
  then show ?thesis using assms enterPropose_step(2) [of e inp w w'] by (auto simp: handleEvent_def to_step_def split: if_splits)
qed (use assms in \<open>auto simp: handleEvent_def split: if_splits\<close>)

lemma curslot_step:
  assumes "step e store w w'" "0 \<le> sint (curslot (slot_clock (cs w)))"
  shows "0 \<le> sint (curslot (slot_clock (cs w')))"
  using assms
proof (induction rule: step.induct)
  case (tick now w)
  then show ?case using sint_Update_one [OF tick(2)] by (simp add: OnStart_tick_def Let_def)
next
  case (event ev w inp w')
  then show ?case using curslot_handleEvent [OF event(2)] by simp
next
  case (internal m w inp w')
  then show ?case using same_round_handleMsg [OF internal(2)] by (simp add: same_round_def)
next
  case (peer_vote inp v w w')
  then show ?case using same_round_handleMsg [OF peer_vote(1)] by (simp add: same_round_def)
next
  case (peer_proposal b w a h inp p w')
  then show ?case using same_round_handleMsg [OF peer_proposal(2)] by (simp add: same_round_def setHeap_def)
qed (auto simp: updClock_def updCs_def timer_expires_def OnStart_timer_def handleTimeOut_def sendEventMessage_def split: RoundStepType.split)

lemma reachable_clock:
  assumes "reachable e store w0 w" "started w0"
  shows "0 \<le> sint (curslot (slot_clock (cs w))) \<and> cs_Validators (cs w) = cs_Validators (cs w0)"
  using assms(1)
proof (rule node.run_invar)
  show "0 \<le> sint (curslot (slot_clock (cs w0))) \<and> cs_Validators (cs w0) = cs_Validators (cs w0)"
    using assms(2) by (auto simp: started_def ResetClock_def NewSlotClock_def LtimeZero_def)
qed (auto dest: validators_step curslot_step)

lemma enterNewSlot_total:
  assumes "0 \<le> sint (curslot (slot_clock (cs w)))" "Validators (cs_Validators (cs w)) \<noteq> []" "length (Validators (cs_Validators (cs w))) < 2 ^ 63"
  shows "\<exists>w'. enterNewSlot inp slot w = Inr w'"
  using GetProposer_nonneg [OF assms] by (simp add: enterNewSlot_def decideProposer_def updCs_def GetSlot_def Let_def)

text \<open>A world from which the next slot can be entered.\<close>

definition slot_ahead :: "('s, 'g) Crypto \<Rightarrow> 'db Store \<Rightarrow> 'db World \<Rightarrow> bool" where
  "slot_ahead e store w \<longleftrightarrow> (\<exists>w'. reachable e store w w' \<and> Step (cs w') = RoundStepSlot \<and> CurSlot (cs w') = curslot (slot_clock (cs w'))
     \<and> mkEv RoundEventApply (CurSlot (cs w')) \<in> set (eventQueue w'))"

lemma slot_ahead_step: "step e store w w1 \<Longrightarrow> slot_ahead e store w1 \<Longrightarrow> slot_ahead e store w"
  unfolding slot_ahead_def by (rule node.run_ahead)

definition alive :: "'db World \<Rightarrow> bool" where
  "alive w \<longleftrightarrow> machine_invar w \<and> 0 \<le> sint (curslot (slot_clock (cs w))) \<and> Validators (cs_Validators (cs w)) \<noteq> []
     \<and> length (Validators (cs_Validators (cs w))) < 2 ^ 63"

lemma alive_step: "step e store w w' \<Longrightarrow> alive w \<Longrightarrow> alive w'"
  using validators_step [of e store w w'] curslot_step [of e store w w'] machine_invar_step [of e store w w'] by (simp add: alive_def)

lemma ahead_event:
  assumes al: "alive w" and x: "x \<in> set (eventQueue w)" "ev_Type x = RoundEventNewSlot"
  shows "slot_ahead e store w"
proof -
  let ?w = "w\<lparr>eventQueue := remove1 x (eventQueue w)\<rparr>" and ?inp = "\<lparr>clock = (\<lambda>_ _. 0), reaped = [], fuel = 0\<rparr>"
  obtain w' where n: "enterNewSlot ?inp (ev_Slot x) ?w = Inr w'" using enterNewSlot_total [of ?w ?inp "ev_Slot x"] al by (auto simp: alive_def)
  then have "step e store w w'" using x by (intro step.event [of x]) (simp_all add: handleEvent_def)
  moreover have "curslot (slot_clock (cs w')) = curslot (slot_clock (cs w))" using enterNewSlot_step(5) [OF n] by auto
  ultimately show ?thesis using enterNewSlot_step(1,3,4) [OF n] reachable.step [OF reachable.init]
    unfolding slot_ahead_def by (intro exI [of _ w']) (simp add: mkEv_def)
qed

lemma ahead_timeout:
  assumes al: "alive w" and ti: "ti \<in> set (tockChan (slot_clock (cs w)))"
  shows "slot_ahead e store w"
proof -
  let ?w = "handleTimeOut ti (updClock (\<lambda>sc. sc\<lparr>tockChan := remove1 ti (tockChan sc)\<rparr>) w)"
  have s: "step e store w ?w" using ti by (rule step.timeout)
  have "ti_Step ti = RoundStepSlot" using al ti by (auto simp: alive_def slot_invar_def)
  then have "mkEv RoundEventNewSlot (ti_Slot ti) \<in> set (eventQueue ?w)" by (simp add: handleTimeOut_def sendEventMessage_def mkEv_def)
  then show ?thesis using slot_ahead_step [OF s ahead_event [OF alive_step [OF s al]]] by (simp add: mkEv_def)
qed

lemma ahead_tick:
  assumes al: "alive w" and now: "now \<in> set (timerChan (slot_clock (cs w)))" "sint (curslot (slot_clock (cs w))) < 2 ^ 63 - 1"
  shows "slot_ahead e store w"
proof -
  have s: "step e store w (updClock (OnStart_tick now) w)" using now by (rule step.tick)
  obtain ti where "ti \<in> set (tockChan (slot_clock (cs (updClock (OnStart_tick now) w))))" by (force simp: OnStart_tick_def Let_def)
  from ahead_timeout [OF alive_step [OF s al] this] show ?thesis by (rule slot_ahead_step [OF s])
qed

lemma ahead_timer:
  assumes al: "alive w" and now: "t_C (slot_clock (cs w)) = Some now" "sint (curslot (slot_clock (cs w))) < 2 ^ 63 - 1"
  shows "slot_ahead e store w"
proof -
  have s: "step e store w (updClock (OnStart_timer now) w)" using now(1) by (rule step.timer)
  show ?thesis using ahead_tick [OF alive_step [OF s al], of now] now(2) by (intro slot_ahead_step [OF s]) (simp add: OnStart_timer_def)
qed

lemma ahead_expire:
  assumes al: "alive w" and now: "t_active (slot_clock (cs w))" "sint (curslot (slot_clock (cs w))) < 2 ^ 63 - 1"
  shows "slot_ahead e store w"
proof -
  have s: "step e store w (updClock (timer_expires 0) w)" using now(1) by (rule step.expire)
  obtain n where "t_C (slot_clock (cs (updClock (timer_expires 0) w))) = Some n"
    by (cases "t_C (slot_clock (cs w))") (simp_all add: timer_expires_def)
  then show ?thesis using ahead_timer [OF alive_step [OF s al], of n] now(2) by (intro slot_ahead_step [OF s]) (simp add: timer_expires_def)
qed

lemma alive_ahead:
  assumes al: "alive w" and b: "sint (curslot (slot_clock (cs w))) < 2 ^ 63 - 1"
  shows "slot_ahead e store w"
proof -
  have one: "ticks (slot_clock (cs w)) + length (newSlots (eventQueue w)) = 1" using al slot_invarD(1) by (auto simp: alive_def)
  consider "t_active (slot_clock (cs w))" | n where "t_C (slot_clock (cs w)) = Some n" | n where "n \<in> set (timerChan (slot_clock (cs w)))"
    | ti where "ti \<in> set (tockChan (slot_clock (cs w)))" | x where "x \<in> set (newSlots (eventQueue w))"
  proof -
    have "\<not> (\<not> t_active (slot_clock (cs w)) \<and> t_C (slot_clock (cs w)) = None \<and> timerChan (slot_clock (cs w)) = []
        \<and> tockChan (slot_clock (cs w)) = [] \<and> newSlots (eventQueue w) = [])"
      using one by (auto simp: ticks_def)
    then show thesis using that by (metis list.set_intros(1) neq_Nil_conv not_None_eq)
  qed
  then show ?thesis
  proof cases
    case 5
    then show ?thesis using ahead_event [OF al, of x] by simp
  qed (use al b in \<open>auto intro: ahead_expire ahead_timer ahead_tick ahead_timeout\<close>)
qed

end
