(* ===== verification/Evidence.thy ===== *)
theory Evidence
  imports ConsensusFacts
begin

text \<open>
  The update of the commit evidence (\<open>updateEvidences\<close> of consensus/state.go): which blocks it visits, when its work
  list runs empty, and a case in which it never does.
\<close>

section \<open>What a round visits\<close>

text \<open>The blocks that a witness supports: its support evidence, resolved among the uncommitted blocks.\<close>

definition supported :: "State \<Rightarrow> Heap \<Rightarrow> Quorum list \<Rightarrow> addr list" where
  "supported st h evs = List.map_filter (\<lambda>ev. if q_Type ev \<noteq> SupportQuorum then None
     else case BlockSet_QueryBlockByHash h (sets h (UnCommitBlocks st)) (q_BlockHash ev) of
            None \<Rightarrow> None
          | Some b \<Rightarrow> if BlockState (blocks h b) = CommittedBlock then None else Some b) evs"

definition evidence_of :: "State \<Rightarrow> Heap \<Rightarrow> addr \<Rightarrow> addr list" where
  "evidence_of st h b = supported st h (Evidences (blocks h b))"

text \<open>A step that keeps what this depends on.\<close>

definition same_evidence :: "State \<Rightarrow> Heap \<Rightarrow> Heap \<Rightarrow> bool" where
  "same_evidence st h h' \<longleftrightarrow> sets h' = sets h \<and> (\<forall>a. Evidences (blocks h' a) = Evidences (blocks h a) \<and> BlockState (blocks h' a) = BlockState (blocks h a))
     \<and> (\<forall>a \<in> set (bs_blocks (sets h (UnCommitBlocks st))). BlockHash (blocks h' a) = BlockHash (blocks h a))"

definition set_hashed :: "State \<Rightarrow> Heap \<Rightarrow> bool" where
  "set_hashed st h \<longleftrightarrow> (\<forall>a \<in> set (bs_blocks (sets h (UnCommitBlocks st))). BlockHash (blocks h a) \<noteq> None)"

lemma same_evidence_refl [simp]: "same_evidence st h h"
  by (simp add: same_evidence_def)

lemma same_evidence_trans [trans]: "same_evidence st h h' \<Longrightarrow> same_evidence st h' h'' \<Longrightarrow> same_evidence st h h''"
  by (simp add: same_evidence_def)

lemma same_evidence_hashed: "same_evidence st h h' \<Longrightarrow> set_hashed st h \<Longrightarrow> set_hashed st h'"
  by (simp add: same_evidence_def set_hashed_def)

lemma find_cong': "(\<And>x. x \<in> set xs \<Longrightarrow> P x = Q x) \<Longrightarrow> List.find P xs = List.find Q xs"
  by (induction xs) auto

lemma query_same_evidence:
  "same_evidence st h h' \<Longrightarrow> BlockSet_QueryBlockByHash h' (sets h' (UnCommitBlocks st)) x = BlockSet_QueryBlockByHash h (sets h (UnCommitBlocks st)) x"
  by (auto simp: same_evidence_def BlockSet_QueryBlockByHash_def intro!: find_cong')

lemma supported_same_evidence: "same_evidence st h h' \<Longrightarrow> supported st h' evs = supported st h evs"
proof -
  assume s: "same_evidence st h h'"
  then have bs: "\<And>a. BlockState (blocks h' a) = BlockState (blocks h a)" by (simp add: same_evidence_def)
  show ?thesis unfolding supported_def query_same_evidence [OF s] bs by (rule refl)
qed

lemma evidence_of_same: "same_evidence st h h' \<Longrightarrow> evidence_of st h' b = evidence_of st h b"
  by (simp add: evidence_of_def supported_same_evidence) (simp add: same_evidence_def)

lemma same_evidence_putQuorum [simp]: "same_evidence st h (putQuorum q x h)"
  by (simp add: same_evidence_def)

lemma same_evidence_newQuorum: "newQuorum x h = (q, h') \<Longrightarrow> same_evidence st h h'"
  by (auto simp: same_evidence_def newQuorum_def putQuorum_def)

lemma same_evidence_Commit: "same_evidence st h (updBlock a (\<lambda>b. b\<lparr>Block_Commit := c\<rparr>) h)"
  by (simp add: same_evidence_def)

lemma same_evidence_hashBlock: "set_hashed st h \<Longrightarrow> same_evidence st h (fst (hashBlock e a h))"
  by (auto simp: same_evidence_def set_hashed_def blocks_hashBlock Block_Hash_set)

lemma updateEvidence_loop_supported:
  assumes "set_hashed st h" "updateEvidence_loop e st w q evs acc h = (h', r)"
  shows "r = acc @ supported st h evs" "same_evidence st h h'"
proof -
  have "r = acc @ supported st h evs \<and> same_evidence st h h'" using assms
  proof (induction evs arbitrary: acc h)
    case Nil
    then show ?case by (simp add: supported_def map_filter_def)
  next
    case (Cons ev evs)
    let ?h1 = "putQuorum q ev h"
    have h1: "set_hashed st ?h1" "same_evidence st h ?h1" using same_evidence_hashed [OF same_evidence_putQuorum Cons.prems(1)] by simp_all
    have sup: "supported st h1 xs = supported st h xs" if "same_evidence st h h1" for h1 xs using supported_same_evidence [OF that] .
    have eq: "supported st h (ev # evs) = supported st h [ev] @ supported st h evs" by (simp add: supported_def map_filter_def)
    show ?case
    proof (cases "supported st ?h1 [ev]")
      case Nil
      then have "updateEvidence_loop e st w q evs acc ?h1 = (h', r)"
        using Cons.prems(2) by (auto simp: supported_def map_filter_def Let_def split: if_splits option.splits)
      from Cons.IH [OF h1(1) this] show ?thesis using eq Nil sup [OF h1(2)] same_evidence_trans [OF h1(2)] by simp
    next
      case (Cons b bs)
      let ?c = "Some (SetWitness (Some w) (SetQuorum (Some q) (case Block_Commit (blocks ?h1 b) of None \<Rightarrow> Commit None None None | Some c \<Rightarrow> c)))"
      let ?h2 = "updBlock b (\<lambda>x. x\<lparr>Block_Commit := ?c\<rparr>) ?h1"
      let ?h3 = "fst (hashBlock e w (fst (hashBlock e b ?h2)))"
      have b: "bs = []" "updateEvidence_loop e st w q evs (acc @ [b]) ?h3 = (h', r)"
        using Cons Cons.prems(2) by (auto simp: supported_def map_filter_def Let_def split: if_splits option.splits)
      have e2: "same_evidence st ?h1 ?h2" by (rule same_evidence_Commit)
      have s2: "set_hashed st ?h2" using same_evidence_hashed [OF e2 h1(1)] .
      have e3: "same_evidence st ?h2 (fst (hashBlock e b ?h2))" using same_evidence_hashBlock [OF s2] .
      have e4: "same_evidence st (fst (hashBlock e b ?h2)) ?h3" using same_evidence_hashBlock [OF same_evidence_hashed [OF e3 s2]] .
      have all: "same_evidence st h ?h3" using h1(2) e2 e3 e4 same_evidence_trans by blast
      from Cons.IH [OF same_evidence_hashed [OF all Cons.prems(1)] b(2)] show ?thesis
        using eq Cons b(1) sup [OF all] sup [OF h1(2), of "[ev]"] same_evidence_trans [OF all] by simp
    qed
  qed
  then show "r = acc @ supported st h evs" "same_evidence st h h'" by blast+
qed

lemma updateEvidence_visits:
  assumes "set_hashed st h" "updateEvidence e st b h = (h', ms)"
  shows "ms = evidence_of st h b" "same_evidence st h h'"
proof -
  obtain q h1 where n: "newQuorum NewQuorum h = (q, h1)" by fastforce
  have s: "same_evidence st h h1" using same_evidence_newQuorum [OF n] .
  have l: "updateEvidence_loop e st b q (Evidences (blocks h1 b)) [] h1 = (h', ms)" using assms(2) n by (simp add: updateEvidence_def)
  from updateEvidence_loop_supported [OF same_evidence_hashed [OF s assms(1)] l]
  show "ms = evidence_of st h b" "same_evidence st h h'"
    using evidence_of_same [OF s, of b] same_evidence_trans [OF s] by (simp_all add: evidence_of_def)
qed

section \<open>Termination\<close>

text \<open>The loop started with this stack ends, whatever the heap did meanwhile to the fields it does not look at.\<close>

definition ends :: "('s, 'g) Crypto \<Rightarrow> State \<Rightarrow> Heap \<Rightarrow> addr list \<Rightarrow> bool" where
  "ends e st h0 stack \<longleftrightarrow> (\<forall>h. same_evidence st h0 h \<longrightarrow> (\<exists>n h'. updateEvidences_loop e st n stack h = Inr h' \<and> same_evidence st h0 h'))"

lemma ends_Nil: "ends e st h0 []"
  unfolding ends_def by (metis updateEvidences_loop.simps(1))

lemma ends_pop:
  assumes hs: "set_hashed st h0" and more: "ends e st h0 (rest @ evidence_of st h0 b)"
  shows "ends e st h0 (rest @ [b])"
  unfolding ends_def
proof (intro allI impI)
  fix h assume h: "same_evidence st h0 h"
  obtain h1 r where u: "updateEvidence e st b h = (h1, r)" by fastforce
  note v = updateEvidence_visits [OF same_evidence_hashed [OF h hs] u]
  have "r = evidence_of st h0 b" "same_evidence st h0 h1" using v evidence_of_same [OF h] same_evidence_trans [OF h] by simp_all
  then obtain n h' where "updateEvidences_loop e st n (rest @ r) h1 = Inr h'" "same_evidence st h0 h'" using more unfolding ends_def by blast
  moreover have "updateEvidences_loop e st (Suc n) (rest @ [b]) h = updateEvidences_loop e st n (rest @ r) h1"
    using u by (cases rest) (simp_all add: Let_def butlast_append)
  ultimately show "\<exists>n h'. updateEvidences_loop e st n (rest @ [b]) h = Inr h' \<and> same_evidence st h0 h'" by metis
qed

lemma ends_push:
  assumes hs: "set_hashed st h0" and dec: "\<And>x y. y \<in> set (evidence_of st h0 x) \<Longrightarrow> rank y < (rank x :: nat)"
  shows "ends e st h0 rest \<Longrightarrow> ends e st h0 (rest @ [b])"
proof (induction "rank b" arbitrary: rest b rule: less_induct)
  case less
  have "ends e st h0 (rest @ xs)" if "set xs \<subseteq> set (evidence_of st h0 b)" for xs
    using that
  proof (induction xs rule: rev_induct)
    case (snoc x xs)
    then show ?case using less.hyps [of x "rest @ xs"] dec [of x b] by simp
  qed (simp add: less.prems)
  then show ?case using ends_pop [OF hs] by blast
qed

lemma updateEvidences_loop_ends:
  assumes "set_hashed st h" "\<And>x y. y \<in> set (evidence_of st h x) \<Longrightarrow> rank y < (rank x :: nat)"
  shows "\<exists>n h'. updateEvidences_loop e st n [b] h = Inr h'"
proof -
  have "ends e st h ([] @ [b])" using ends_push [OF assms ends_Nil] .
  then show ?thesis unfolding ends_def using same_evidence_refl by (metis append_Nil)
qed

text \<open>A block whose evidence leads back to itself keeps the loop busy for ever.\<close>

lemma updateEvidences_loop_diverges:
  assumes "set_hashed st h" "evidence_of st h b = [b]"
  shows "updateEvidences_loop e st n [b] h = Inl NoFuel"
  using assms
proof (induction n arbitrary: h)
  case (Suc n)
  obtain h1 r where u: "updateEvidence e st b h = (h1, r)" by fastforce
  note v = updateEvidence_visits [OF Suc.prems(1) u]
  have "updateEvidences_loop e st n [b] h1 = Inl NoFuel"
    using Suc.IH [OF same_evidence_hashed [OF v(2) Suc.prems(1)]] evidence_of_same [OF v(2)] Suc.prems(2) by simp
  then show ?case using u v(1) Suc.prems(2) by simp
qed simp

end
