(* ===== verification/NodeChain.thy ===== *)
theory NodeChain
  imports Node NodeVotes Evidence
begin

text \<open>
  The chain of a running node: in every world that a node reaches, the block tree is a chain of hashes rooted in a committed block, the ancestors of
  a committed block are committed, and what is committed stays so.
\<close>

section \<open>What a handler does to blocks\<close>

text \<open>
  A change of the heap that keeps the trees, the sets, and of the blocks that exist their parent link, their slot and a hash that is set. The state
  changes only of blocks in \<open>S\<close>, and commits are made or revoked only in \<open>J\<close>.
\<close>

definition keeps :: "addr set \<Rightarrow> addr set \<Rightarrow> Heap \<Rightarrow> Heap \<Rightarrow> bool" where
  "keeps J S h h' \<longleftrightarrow> trees h' = trees h \<and> sets h' = sets h \<and> blocksNext h \<le> blocksNext h'
     \<and> (\<forall>a < blocksNext h. LastBlockHash (blocks h' a) = LastBlockHash (blocks h a) \<and> Slot (blocks h' a) = Slot (blocks h a)
         \<and> (BlockHash (blocks h a) \<noteq> None \<longrightarrow> BlockHash (blocks h' a) = BlockHash (blocks h a))
         \<and> (a \<notin> S \<longrightarrow> BlockState (blocks h' a) = BlockState (blocks h a))
         \<and> (a \<notin> J \<longrightarrow> committed h' a = committed h a))"

lemma keepsI:
  assumes "same_links h h'" "trees h' = trees h" "sets h' = sets h" "blocksNext h' = blocksNext h"
    and "\<And>a. a \<notin> S \<Longrightarrow> BlockState (blocks h' a) = BlockState (blocks h a)" "\<And>a. a \<notin> J \<Longrightarrow> committed h' a = committed h a"
  shows "keeps J S h h'"
  using assms by (simp add: keeps_def same_links_def)

lemma keepsD:
  assumes "keeps J S h h'"
  shows "trees h' = trees h" "sets h' = sets h" "blocksNext h \<le> blocksNext h'" "a < blocksNext h \<Longrightarrow> Slot (blocks h' a) = Slot (blocks h a)"
    "a < blocksNext h \<Longrightarrow> BlockHash (blocks h a) \<noteq> None \<Longrightarrow> BlockHash (blocks h' a) = BlockHash (blocks h a)"
    "a < blocksNext h \<Longrightarrow> a \<notin> S \<Longrightarrow> BlockState (blocks h' a) = BlockState (blocks h a)"
    "a < blocksNext h \<Longrightarrow> a \<notin> J \<Longrightarrow> committed h' a = committed h a"
  using assms unfolding keeps_def by blast+

lemma keeps_refl [simp]: "keeps J S h h"
  by (simp add: keeps_def)

lemma keeps_trans [trans]: "keeps J S h h' \<Longrightarrow> keeps J S h' h'' \<Longrightarrow> keeps J S h h''"
  unfolding keeps_def by (auto simp: le_trans)

lemma keeps_mono: "keeps J S h h' \<Longrightarrow> J \<subseteq> J' \<Longrightarrow> S \<subseteq> S' \<Longrightarrow> keeps J' S' h h'"
  unfolding keeps_def by blast

lemma keeps_hashBlock [simp]: "keeps J S h (fst (hashBlock e a h))"
  by (rule keepsI) (simp_all add: committed_def)

lemma keeps_newBlock: "newBlock b h = (a, h') \<Longrightarrow> keeps J S h h'"
  by (auto simp: newBlock_def keeps_def committed_def)

text \<open>A block that did not exist at the start may be changed in any way.\<close>

lemma keeps_fresh: "keeps J S h h' \<Longrightarrow> blocksNext h \<le> a \<Longrightarrow> keeps J S h (updBlock a f h')"
  by (auto simp: keeps_def committed_def)

lemma UpdateState_loop_state:
  "a \<notin> set (bs_blocks (sets h (UnCommitBlocks st))) \<Longrightarrow> BlockState (blocks (UpdateState_loop now k st qs h) a) = BlockState (blocks h a)"
proof (induction qs arbitrary: k h)
  case (Cons q qs)
  have "BlockState (blocks (UpdateState_evidence now k st q h) a) = BlockState (blocks h a)"
    using Cons.prems by (auto simp: UpdateState_evidence_def Let_def split: option.split dest!: BlockSet_QueryBlockByHash_Some)
  then show ?case using Cons by simp
qed simp

lemma keeps_UpdateState: "keeps {} (set (bs_blocks (sets h (UnCommitBlocks st)))) h (fst (UpdateState now st p h))"
  by (rule keepsI) (simp_all, simp add: UpdateState_def UpdateState_loop_state)

lemma keeps_SignProposal: "keeps J S h h' \<Longrightarrow> blocksNext h \<le> p_Block p \<Longrightarrow> keeps J S h (fst (SignProposal e pv c p h'))"
proof -
  assume a: "keeps J S h h'" "blocksNext h \<le> p_Block p"
  obtain h1 x where hb: "hashBlock e (p_Block p) h' = (h1, x)" by fastforce
  have k: "keeps J S h h1" using keeps_trans [OF a(1) keeps_hashBlock [of _ _ _ e "p_Block p"]] hb by simp
  have "keeps J S h (fst (signProposalWith e k c' p h'))" for k c'
    using k keeps_fresh [OF k a(2)] hb by (simp add: signProposalWith_def ProposalSignBytes_def split: sum.split)
  then show ?thesis using fst_SignProposal [of e pv c p h'] a(1) by metis
qed

lemma keeps_updateEvidence_loop:
  "updateEvidence_loop e st w q evs acc h = (h', r) \<Longrightarrow> keeps {} {} h h'"
proof (induction evs arbitrary: acc h)
  case (Cons ev evs)
  have q: "keeps {} {} h (putQuorum q ev h)" by (simp add: keeps_def committed_def)
  have u: "keeps {} {} h (updBlock b (\<lambda>b. b\<lparr>Block_Commit := c\<rparr>) (putQuorum q ev h))" for b c
    by (auto simp: keeps_def committed_def)
  show ?case using Cons.prems Cons.IH keeps_trans [OF q] keeps_trans [OF keeps_trans [OF keeps_trans [OF u keeps_hashBlock] keeps_hashBlock]]
    by (simp add: Let_def split: if_splits option.splits) blast+
qed simp

lemma keeps_updateEvidences_loop:
  "updateEvidences_loop e st n bs h = Inr h' \<Longrightarrow> keeps {} {} h h'"
proof (induction e st n bs h rule: updateEvidences_loop.induct)
  case (3 e st n b bs h)
  obtain h1 more where u: "updateEvidence e st (last (b # bs)) h = (h1, more)" by fastforce
  obtain q h0 where n: "newQuorum NewQuorum h = (q, h0)" by fastforce
  have "keeps {} {} h h0" using n by (auto simp: newQuorum_def keeps_def committed_def)
  also have "keeps {} {} h0 h1" using u n keeps_updateEvidence_loop by (fastforce simp: updateEvidence_def)
  finally have k: "keeps {} {} h h1" .
  show ?case using 3 u keeps_trans [OF k] by (simp add: Let_def)
qed simp_all

section \<open>The chain under such changes\<close>

text \<open>
  Until the first proposal is accepted the genesis block need not have its hash; a tree with more blocks has all of them.
\<close>

definition root_chain :: "Heap \<Rightarrow> BlockTree \<Rightarrow> bool" where
  "root_chain h t \<longleftrightarrow> tree_invar h t \<and> linked h t \<and> \<not> uncommitted h t 0 \<and> (hashed h t \<or> length (bt_nodes t) = 1)"

abbreviation tree_blocks :: "BlockTree \<Rightarrow> addr set" where
  "tree_blocks t \<equiv> tn_data ` set (bt_nodes t)"

lemma root_chain_hashed: "root_chain h t \<and> hashed h t \<longleftrightarrow> chain_invar h t"
  by (auto simp: root_chain_def chain_invar_def)

lemma chain_invar_cong:
  assumes "\<And>a. a \<in> tree_blocks t \<Longrightarrow> blocks h' a = blocks h a"
  shows "chain_invar h' t = chain_invar h t"
proof -
  have nb: "n < length (bt_nodes t) \<Longrightarrow> node_block h' t n = node_block h t n \<and> node_hash h' t n = node_hash h t n" for n
    using assms by (simp add: node_block_def node_hash_def)
  show ?thesis
  proof (cases "wf_tree t")
    case True
    then have wf: "wf_nodes (bt_nodes t)" by (simp add: wf_tree_def)
    have "0 < length (bt_nodes t)" using wf_nodes_nonempty [OF wf] by simp
    moreover have "p < length (bt_nodes t)" if "n < length (bt_nodes t)" "tn_parent (bt_nodes t ! n) = Some p" for n p
      using wf_nodes_parent(1) [OF wf that] that by force
    ultimately show ?thesis using nb
      by (auto simp: chain_invar_def tree_invar_def unique_hashes_def linked_def hashed_def uncommitted_def inj_on_def)
  qed (simp add: chain_invar_def tree_invar_def)
qed

lemma uncommitted_keeps:
  assumes "keeps J S h h'" "\<forall>a \<in> tree_blocks t. a < blocksNext h" "J \<inter> tree_blocks t = {}" "n < length (bt_nodes t)"
  shows "uncommitted h' t n = uncommitted h t n"
proof -
  have "tn_data (bt_nodes t ! n) \<in> tree_blocks t" using assms(4) by simp
  then show ?thesis using keepsD(7) [OF assms(1), of "tn_data (bt_nodes t ! n)"] assms(2,3) by (auto simp: committed_def uncommitted_def node_block_def)
qed

lemma chain_invar_keeps:
  assumes k: "keeps J S h h'" and inv: "chain_invar h t" and lt: "\<forall>a \<in> tree_blocks t. a < blocksNext h"
    and J: "J \<inter> tree_blocks t = {}"
  shows "chain_invar h' t"
proof -
  let ?h = "h\<lparr>blocks := \<lambda>a. if a < blocksNext h then blocks h' a else blocks h a\<rparr>"
  have "0 < length (bt_nodes t)" using wf_nodes_nonempty [OF chain_invarD(5) [OF inv]] by simp
  then have "\<not> uncommitted ?h t 0" using chain_invarD(3) [OF inv] uncommitted_keeps [OF k lt J, of 0] lt by (auto simp: uncommitted_def node_block_def)
  moreover have "same_links h ?h" using k by (auto simp: keeps_def same_links_def)
  ultimately have "chain_invar ?h t" using chain_invar_links [OF inv] by blast
  then show ?thesis using chain_invar_cong [of t h' ?h] lt by simp
qed

lemma commits_closed_keeps:
  assumes k: "keeps J S h h'" and wf: "wf_nodes (bt_nodes t)" and cl: "commits_closed h t" and lt: "\<forall>a \<in> tree_blocks t. a < blocksNext h"
    and J: "J \<inter> tree_blocks t = {}"
  shows "commits_closed h' t"
proof -
  note uncommitted_keeps [OF k lt J]
  moreover have "p < length (bt_nodes t)" if "n < length (bt_nodes t)" "tn_parent (bt_nodes t ! n) = Some p" for n p
    using wf_nodes_parent(1) [OF wf that] that by force
  ultimately show ?thesis using cl by (auto simp: commits_closed_def)
qed

lemma root_chain_keeps:
  assumes k: "keeps J S h h'" and inv: "root_chain h t" and lt: "\<forall>a \<in> tree_blocks t. a < blocksNext h"
    and J: "J \<inter> tree_blocks t = {}"
  shows "root_chain h' t" "hashed h t \<Longrightarrow> hashed h' t"
proof -
  have h: "hashed h t \<Longrightarrow> chain_invar h' t" using chain_invar_keeps [OF k _ lt J] inv root_chain_hashed by blast
  then show "hashed h t \<Longrightarrow> hashed h' t" using chain_invarD(6) by blast
  show "root_chain h' t"
  proof (cases "hashed h t")
    case False
    then have one: "length (bt_nodes t) = 1" and wf: "wf_tree t" "wf_nodes (bt_nodes t)" using inv by (auto simp: root_chain_def tree_invar_def wf_tree_def)
    have "\<not> uncommitted h' t 0" using inv uncommitted_keeps [OF k lt J, of 0] one by (simp add: root_chain_def)
    moreover have "linked h' t" using one wf_nodes_root [OF wf(2)] by (simp add: linked_def)
    moreover have "unique_hashes h' t" using one by (simp add: unique_hashes_def inj_on_def)
    ultimately show ?thesis using one wf by (simp add: root_chain_def tree_invar_def)
  qed (use h root_chain_hashed in blast)
qed

section \<open>The invariant\<close>

definition theTree :: "State \<Rightarrow> Heap \<Rightarrow> BlockTree" where
  "theTree st h = trees h (the (st_BlockTree st))"

definition pending :: "State \<Rightarrow> Heap \<Rightarrow> addr set" where
  "pending st h = set (bs_blocks (sets h (UnCommitBlocks st)))"

text \<open>The tree is a chain closed under parents; pending blocks, and then all blocks of the tree, have their hash.\<close>

definition tree_ok :: "State \<Rightarrow> Heap \<Rightarrow> bool" where
  "tree_ok st h \<longleftrightarrow> st_BlockTree st \<noteq> None \<and> root_chain h (theTree st h) \<and> commits_closed h (theTree st h)
     \<and> (\<forall>a \<in> tree_blocks (theTree st h). a < blocksNext h)
     \<and> (\<forall>b \<in> pending st h. b < blocksNext h \<and> BlockHash (blocks h b) \<noteq> None \<and> hashed h (theTree st h))"

text \<open>
  The blocks of proposals that the node holds are different from each other and from those of the early proposals, and not in the tree. An
  early proposal is kept under the slot of its block, and is in the tree only when its slot is over.
\<close>

definition prop_ok :: "State \<Rightarrow> Heap \<Rightarrow> (LTime \<rightharpoonup> Proposal) \<Rightarrow> (LTime \<Rightarrow> bool) \<Rightarrow> addr list \<Rightarrow> bool" where
  "prop_ok st h fut over held \<longleftrightarrow> distinct held
     \<and> (\<forall>a \<in> set held. a < blocksNext h \<and> a \<notin> tree_blocks (theTree st h) \<and> (\<forall>s p. fut s = Some p \<longrightarrow> p_Block p \<noteq> a))
     \<and> (\<forall>s p. fut s = Some p \<longrightarrow> p_Block p < blocksNext h \<and> Slot (blocks h (p_Block p)) = s
          \<and> (p_Block p \<in> tree_blocks (theTree st h) \<longrightarrow> over s))"

lemma prop_okD:
  assumes "prop_ok st h fut over held"
  shows "distinct held" "a \<in> set held \<Longrightarrow> a < blocksNext h" "a \<in> set held \<Longrightarrow> a \<notin> tree_blocks (theTree st h)"
    "a \<in> set held \<Longrightarrow> fut s = Some p \<Longrightarrow> p_Block p \<noteq> a" "fut s = Some p \<Longrightarrow> p_Block p < blocksNext h"
    "fut s = Some p \<Longrightarrow> Slot (blocks h (p_Block p)) = s" "fut s = Some p \<Longrightarrow> p_Block p \<in> tree_blocks (theTree st h) \<Longrightarrow> over s"
  using assms unfolding prop_ok_def by simp_all

lemma prop_okI:
  assumes "distinct held" "\<And>a. a \<in> set held \<Longrightarrow> a < blocksNext h" "\<And>a. a \<in> set held \<Longrightarrow> a \<notin> tree_blocks (theTree st h)"
    "\<And>a s p. a \<in> set held \<Longrightarrow> fut s = Some p \<Longrightarrow> p_Block p \<noteq> a" "\<And>s p. fut s = Some p \<Longrightarrow> p_Block p < blocksNext h"
    "\<And>s p. fut s = Some p \<Longrightarrow> Slot (blocks h (p_Block p)) = s"
    "\<And>s p. fut s = Some p \<Longrightarrow> p_Block p \<in> tree_blocks (theTree st h) \<Longrightarrow> over s"
  shows "prop_ok st h fut over held"
  using assms unfolding prop_ok_def by simp

text \<open>A proposal that is not the empty one of the slot has its hash, and so have the blocks of the tree.\<close>

definition live_ok :: "State \<Rightarrow> Heap \<Rightarrow> Proposal option \<Rightarrow> bool" where
  "live_ok st h prop \<longleftrightarrow> (\<forall>p. prop = Some p \<longrightarrow> BlockState (blocks h (p_Block p)) = DefaultBlock
     \<or> BlockHash (blocks h (p_Block p)) \<noteq> None \<and> hashed h (theTree st h))"

lemma theTree_keeps: "keeps J S h h' \<Longrightarrow> theTree st h' = theTree st h" "keeps J S h h' \<Longrightarrow> pending st h' = pending st h"
  by (simp_all add: theTree_def pending_def keepsD(1,2))

lemma tree_okD:
  assumes "tree_ok st h"
  shows "root_chain h (theTree st h)" "\<forall>a \<in> tree_blocks (theTree st h). a < blocksNext h" "wf_tree (theTree st h)" "wf_nodes (bt_nodes (theTree st h))"
    "commits_closed h (theTree st h)" "st_BlockTree st \<noteq> None"
    "b \<in> pending st h \<Longrightarrow> b < blocksNext h \<and> BlockHash (blocks h b) \<noteq> None \<and> hashed h (theTree st h)"
  using assms by (auto simp: tree_ok_def root_chain_def tree_invar_def wf_tree_def)

lemma tree_ok_keeps:
  assumes k: "keeps J S h h'" and ok: "tree_ok st h" and J: "J \<inter> tree_blocks (theTree st h) = {}"
  shows "tree_ok st h'" "hashed h (theTree st h) \<Longrightarrow> hashed h' (theTree st h')"
proof -
  note t = tree_okD [OF ok] and r = root_chain_keeps [OF k tree_okD(1,2) [OF ok] J]
  show "hashed h (theTree st h) \<Longrightarrow> hashed h' (theTree st h')" using r(2) theTree_keeps(1) [OF k, of st] by simp
  have "b < blocksNext h' \<and> BlockHash (blocks h' b) \<noteq> None \<and> hashed h' (theTree st h)" if "b \<in> pending st h" for b
    using t(7) [OF that] keepsD(3) [OF k] keepsD(5) [OF k, of b] r(2) by auto
  moreover have "commits_closed h' (theTree st h)" using commits_closed_keeps [OF k t(4,5,2) J] .
  moreover have "\<forall>a \<in> tree_blocks (theTree st h). a < blocksNext h'" using t(2) keepsD(3) [OF k] by auto
  ultimately show "tree_ok st h'" using r(1) t(6) theTree_keeps [OF k, of st] by (simp add: tree_ok_def)
qed

lemma prop_ok_keeps:
  assumes k: "keeps J S h h'" and ok: "prop_ok st h fut over held"
  shows "prop_ok st h' fut over held"
proof -
  have lt: "a < blocksNext h \<Longrightarrow> a < blocksNext h'" for a using keepsD(3) [OF k] by simp
  have sl: "a < blocksNext h \<Longrightarrow> Slot (blocks h' a) = Slot (blocks h a)" for a using keepsD(4) [OF k] .
  show ?thesis using ok lt sl unfolding prop_ok_def theTree_keeps(1) [OF k] by metis
qed

lemma prop_ok_mono: "prop_ok st h fut over held \<Longrightarrow> (\<And>s. over s \<Longrightarrow> over' s) \<Longrightarrow> prop_ok st h fut over' held"
  unfolding prop_ok_def by blast

lemma live_ok_keeps:
  assumes k: "keeps J S h h'" and ok: "live_ok st h prop" "tree_ok st h" "J \<inter> tree_blocks (theTree st h) = {}"
    and "S \<subseteq> pending st h" and p: "\<And>p. prop = Some p \<Longrightarrow> p_Block p < blocksNext h"
  shows "live_ok st h' prop"
  unfolding live_ok_def
proof (intro allI impI)
  fix q assume q: "prop = Some q"
  let ?a = "p_Block q"
  note lt = p [OF q] and hs = tree_ok_keeps(2) [OF k ok(2,3)]
  show "BlockState (blocks h' ?a) = DefaultBlock \<or> BlockHash (blocks h' ?a) \<noteq> None \<and> hashed h' (theTree st h')"
  proof (cases "BlockHash (blocks h ?a) \<noteq> None \<and> hashed h (theTree st h)")
    case True
    then show ?thesis using keepsD(5) [OF k lt] hs by auto
  next
    case False
    then have "?a \<notin> S" using tree_okD(7) [OF ok(2), of ?a] assms(5) by blast
    moreover have "BlockState (blocks h ?a) = DefaultBlock" using False ok(1) q by (auto simp: live_ok_def)
    ultimately show ?thesis using keepsD(6) [OF k lt] by simp
  qed
qed

text \<open>The tree and what is committed in it only grow.\<close>

definition grows :: "State \<Rightarrow> Heap \<Rightarrow> State \<Rightarrow> Heap \<Rightarrow> bool" where
  "grows st h st' h' \<longleftrightarrow> (\<exists>new. map tn_data (bt_nodes (theTree st' h')) = map tn_data (bt_nodes (theTree st h)) @ new)
     \<and> (\<forall>a \<in> tree_blocks (theTree st h). committed h a \<longrightarrow> committed h' a)"

lemma grows_refl [simp]: "grows st h st h"
  by (simp add: grows_def)

lemma grows_trans [trans]: "grows st h st' h' \<Longrightarrow> grows st' h' st'' h'' \<Longrightarrow> grows st h st'' h''"
proof -
  assume a: "grows st h st' h'" "grows st' h' st'' h''"
  then have "set (map tn_data (bt_nodes (theTree st h))) \<subseteq> set (map tn_data (bt_nodes (theTree st' h')))" unfolding grows_def by (metis set_append Un_upper1)
  then have "tree_blocks (theTree st h) \<subseteq> tree_blocks (theTree st' h')" by simp
  then show ?thesis using a unfolding grows_def by (metis append_assoc subsetD)
qed

lemma grows_keeps:
  assumes "keeps J S h h'" "tree_ok st h" "J \<inter> tree_blocks (theTree st h) = {}"
  shows "grows st h st h'"
proof -
  have "committed h' a" if "a \<in> tree_blocks (theTree st h)" "committed h a" for a
    using keepsD(7) [OF assms(1), of a] tree_okD(2) [OF assms(2)] assms(3) that by blast
  then show ?thesis using theTree_keeps(1) [OF assms(1)] by (simp add: grows_def)
qed

section \<open>Applying a proposal\<close>

lemma Commit_loop_next:
  "Commit_loop e commitBlock now st k bl (st0, l) h d = Inr (st', l', h', d') \<Longrightarrow> blocksNext h' = blocksNext h"
proof (induction bl arbitrary: k st0 l h d)
  case (Cons a bl)
  then obtain d1 r where c: "commitBlock st (blocks h a) d = Inr (d1, r)" by auto
  show ?case using Cons.prems c by (cases r) (auto simp: Let_def State_CommitBlock_def dest!: Cons.IH)
qed simp

text \<open>What \<open>ApplyBlock\<close> changes in the heap.\<close>

lemma ApplyBlock_heap:
  assumes ok: "tree_ok st h" and res: "ApplyBlock e commitBlock now st a h d = Inr (st', err, h', d')"
  shows "blocksNext h' = blocksNext h" "same_links h h'" "pending st h' \<subseteq> insert a (pending st h)"
    "\<exists>new. map tn_data (bt_nodes (theTree st h')) = map tn_data (bt_nodes (theTree st h)) @ new \<and> set new \<subseteq> {a}"
proof -
  obtain ta where ta: "st_BlockTree st = Some ta" using tree_okD(6) [OF ok] by blast
  have T: "theTree st x = trees x ta" for x by (simp add: theTree_def ta)
  note wf = tree_okD(3) [OF ok, unfolded T]
  have "blocksNext h' = blocksNext h \<and> same_links h h' \<and> pending st h' \<subseteq> insert a (pending st h)
    \<and> (\<exists>new. map tn_data (bt_nodes (theTree st h')) = map tn_data (bt_nodes (theTree st h)) @ new \<and> set new \<subseteq> {a})"
    using ta res
  proof (cases rule: ApplyBlock_cases)
    case (invalid t x)
    then show ?thesis using AddBlocks_blocks [OF wf invalid(1)] by (auto simp: T pending_def intro: same_links_blocks)
  next
    case (applied t x h2 bl l)
    obtain okb where c: "commit_outcome st h2 okb (st', l) h'" using Executor_Commit_outcome [OF applied(6)] by blast
    have "same_links h h2" "trees h2 ta = t" "pending st h2 \<subseteq> insert a (pending st h)" "blocksNext h2 = blocksNext h"
      by (auto simp: applied(4) pending_def BlockSet_AddBlock_def intro: same_links_blocks)
    then show ?thesis using c AddBlocks_blocks [OF wf applied(1)] Commit_loop_next [OF applied(6) [unfolded Executor_Commit_def]] same_links_trans
      by (auto simp: commit_outcome_def T pending_def)
  qed
  then show "blocksNext h' = blocksNext h" "same_links h h'" "pending st h' \<subseteq> insert a (pending st h)"
    "\<exists>new. map tn_data (bt_nodes (theTree st h')) = map tn_data (bt_nodes (theTree st h)) @ new \<and> set new \<subseteq> {a}" by blast+
qed

lemma theTree_config: "same_config st st' \<Longrightarrow> theTree st' h = theTree st h \<and> pending st' h = pending st h"
  by (simp add: same_config_def theTree_def pending_def)

lemma tree_ok_config: "same_config st st' \<Longrightarrow> tree_ok st' h = tree_ok st h" "same_config st st' \<Longrightarrow> prop_ok st' h fut over held = prop_ok st h fut over held"
  "same_config st st' \<Longrightarrow> live_ok st' h prop = live_ok st h prop" "same_config st st' \<Longrightarrow> grows st0 h0 st' h = grows st0 h0 st h"
  by (simp_all add: tree_ok_def prop_ok_def live_ok_def grows_def theTree_config) (simp add: same_config_def)

lemma ApplyBlock_chain:
  assumes ok: "tree_ok st h" "prop_ok st h fut over held" and hs: "hashed h (theTree st h)"
    and a: "a < blocksNext h" "a \<notin> set held" "BlockHash (blocks h a) \<noteq> None" "\<not> committed h a"
    and fut: "\<And>s p. fut s = Some p \<Longrightarrow> p_Block p = a \<Longrightarrow> over s"
    and store: "never_errs commitBlock" and res: "ApplyBlock e commitBlock now st a h d = Inr (st', err, h', d')"
  shows "tree_ok st h'" "prop_ok st h' fut over held" "grows st h st h'"
proof -
  obtain ta where ta: "st_BlockTree st = Some ta" using tree_okD(6) [OF ok(1)] by blast
  have T: "theTree st x = trees x ta" for x by (simp add: theTree_def ta)
  have ci: "chain_invar h (trees h ta)" using hs root_chain_hashed tree_okD(1) [OF ok(1)] by (metis T)
  have "state_invar st' h'" using ApplyBlock_invar [OF _ a(3) res] ta ci by (auto simp: state_invar_def)
  then have ci': "chain_invar h' (theTree st h')" using ta ApplyBlock_config [OF res] by (auto simp: state_invar_def same_config_def T)
  note hp = ApplyBlock_heap [OF ok(1) res]
  from hp(4) obtain new where new: "map tn_data (bt_nodes (theTree st h')) = map tn_data (bt_nodes (theTree st h)) @ new" "set new \<subseteq> {a}" by blast
  have "tree_blocks (theTree st h') = tree_blocks (theTree st h) \<union> set new" using arg_cong [OF new(1), of set] by simp
  then have tb: "tree_blocks (theTree st h') \<subseteq> insert a (tree_blocks (theTree st h))" using new(2) by auto
  have "commits_closed h' (theTree st h')"
    using ApplyBlock_closed [OF ta ci _ a(3,4) store res] tree_okD(5) [OF ok(1)] by (simp add: T)
  moreover have "b < blocksNext h' \<and> BlockHash (blocks h' b) \<noteq> None" if "b \<in> pending st h'" for b
  proof -
    have "b < blocksNext h \<and> BlockHash (blocks h b) \<noteq> None" using that hp(3) a(1,3) tree_okD(7) [OF ok(1), of b] by blast
    then show ?thesis using hp(1,2) by (metis same_links_def)
  qed
  moreover have "\<forall>b \<in> tree_blocks (theTree st h'). b < blocksNext h'" using tb a(1) tree_okD(2) [OF ok(1)] hp(1) by auto
  ultimately show "tree_ok st h'" using ci' root_chain_hashed ta by (auto simp: tree_ok_def)
  have sl: "Slot (blocks h' b) = Slot (blocks h b)" for b using hp(2) by (simp add: same_links_def)
  have tb': "b = a \<or> b \<in> tree_blocks (theTree st h)" if "b \<in> tree_blocks (theTree st h')" for b using tb that by blast
  note pk = prop_okD [OF ok(2)]
  show "prop_ok st h' fut over held"
  proof (rule prop_okI)
    fix b assume b: "b \<in> set held"
    then show "b < blocksNext h'" "b \<notin> tree_blocks (theTree st h')" "fut s = Some p \<Longrightarrow> p_Block p \<noteq> b" for s p
      using pk(2-4) [OF b] tb' [of b] a(2) hp(1) by auto
  next
    fix s p assume p: "fut s = Some p"
    then show "p_Block p < blocksNext h'" "Slot (blocks h' (p_Block p)) = s" "p_Block p \<in> tree_blocks (theTree st h') \<Longrightarrow> over s"
      using pk(5-7) [OF p] tb' [of "p_Block p"] fut [OF p] hp(1) sl by auto
  qed (rule pk(1))
  show "grows st h st h'" using new(1) ApplyBlock_keeps_committed [OF ta res] by (auto simp: grows_def)
qed

end
