(* ===== verification/NodeCommits.thy ===== *)
theory NodeCommits
  imports NodeChain
begin

text \<open>
  The invariant of \<open>NodeChain\<close> over the transition system: every handler keeps it, the tree and what is committed in it only grow, and a
  fresh node satisfies it.
\<close>

section \<open>The invariant of the world\<close>

definition queued :: "Message list \<Rightarrow> addr list" where
  "queued q = concat (map (\<lambda>m. case m of ProposalMessage p \<Rightarrow> [p_Block p] | VoteMessage v \<Rightarrow> []) q)"

definition held :: "'db World \<Rightarrow> addr list" where
  "held w = (case cs_Proposal (cs w) of None \<Rightarrow> [] | Some p \<Rightarrow> [p_Block p]) @ queued (internalQueue w)"

text \<open>A slot is over when the clock is past it, counting a tick that is on its way, or when its proposal has been applied.\<close>

definition over :: "'db World \<Rightarrow> LTime \<Rightarrow> bool" where
  "over w s \<longleftrightarrow> sint s + int (tocked (slot_clock (cs w)) + length (newSlots (eventQueue w))) \<le> sint (curslot (slot_clock (cs w)))
     \<and> (s = CurSlot (cs w) \<longrightarrow> Step (cs w) \<noteq> RoundStepSlot)"

definition chain_ok :: "'db World \<Rightarrow> bool" where
  "chain_ok w \<longleftrightarrow> tree_ok (cs_state (cs w)) (heap w) \<and> prop_ok (cs_state (cs w)) (heap w) (futureProposal (cs w)) (over w) (held w)
     \<and> live_ok (cs_state (cs w)) (heap w) (cs_Proposal (cs w))"

abbreviation grown :: "'db World \<Rightarrow> 'db World \<Rightarrow> bool" where
  "grown w w' \<equiv> grows (cs_state (cs w)) (heap w) (cs_state (cs w')) (heap w')"

lemma queued_simps [simp]:
  "queued [] = []" "queued (ProposalMessage p # q) = p_Block p # queued q" "queued (VoteMessage v # q) = queued q" "queued (q @ r) = queued q @ queued r"
  by (simp_all add: queued_def)

lemma over_same_round: "same_round w w' \<Longrightarrow> over w' = over w"
  by (simp add: over_def same_round_def fun_eq_iff)

lemma prop_ok_subset: "prop_ok st h fut ov xs \<Longrightarrow> distinct ys \<Longrightarrow> set ys \<subseteq> set xs \<Longrightarrow> prop_ok st h fut ov ys"
  unfolding prop_ok_def by blast

section \<open>Messages\<close>

text \<open>The latest block that \<open>IsMatch\<close> hashes is the genesis block when the tree has no other.\<close>

lemma IsMatch_chain:
  assumes ok: "tree_ok st h" and m: "IsMatch e st p h = Inr (h', b)"
  shows "keeps {} {} h h'" "hashed h' (theTree st h')"
proof -
  obtain ta where ta: "st_BlockTree st = Some ta" using tree_okD(6) [OF ok] by blast
  note wf = tree_okD(3,4) [OF ok]
  obtain k P where k: "GetLatestBlock h (theTree st h) = Inr (tn_data (bt_nodes (theTree st h) ! k))"
    "latest_in h (bt_nodes (theTree st h)) {..<length (bt_nodes (theTree st h))} P k" using GetLatestBlock_spec [OF wf(1)] by blast
  have h': "h' = fst (hashBlock e (tn_data (bt_nodes (theTree st h) ! k)) h)"
    using m k(1) ta by (auto simp: IsMatch_def stateTree_def theTree_def split: prod.splits)
  show kp: "keeps {} {} h h'" by (simp add: h')
  show "hashed h' (theTree st h')"
  proof (cases "hashed h (theTree st h)")
    case True
    then show ?thesis using tree_ok_keeps(2) [OF kp ok] by simp
  next
    case False
    then have "length (bt_nodes (theTree st h)) = 1" using tree_okD(1) [OF ok] by (simp add: root_chain_def)
    moreover from this have "k = 0" using latest_in_valid [OF k(2) wf_nodes_nonempty [OF wf(2)]] by auto
    ultimately show ?thesis using theTree_keeps(1) [OF kp, of st]
      by (simp add: hashed_def node_block_def h' blocks_hashBlock BlockHash_Block_Hash)
  qed
qed

lemma accepted_chain:
  assumes acc: "accepted e inp p w w'" and ok: "tree_ok (cs_state (cs w)) (heap w)" and lt: "p_Block p < blocksNext (heap w)"
  shows "keeps {} (pending (cs_state (cs w)) (heap w)) (heap w) (heap w')" "hashed (heap w') (theTree (cs_state (cs w)) (heap w'))"
    "BlockHash (blocks (heap w') (p_Block p)) \<noteq> None" "\<exists>p'. cs_Proposal (cs w') = Some p' \<and> p_Block p' = p_Block p"
    "futureProposal (cs w') = futureProposal (cs w)" "cs_state (cs w') = cs_state (cs w)" "queued (internalQueue w') = queued (internalQueue w)"
proof -
  let ?st = "cs_state (cs w)" and ?h1 = "fst (hashBlock e (p_Block p) (heap w))"
  obtain w2 p' w3 where a: "internalQueue w2 = internalQueue w" "cs_state (cs w2) = ?st" "futureProposal (cs w2) = futureProposal (cs w)"
      "heap w2 = fst (UpdateState (clock inp 0) ?st (p_Block p) ?h1)" "broadcastProposal (clock inp 2 0) p w2 = (p', w3)"
      "voteOnProposal e inp p' (updCs (\<lambda>c. c\<lparr>cs_Proposal := Some p'\<rparr>) w3) = Inr w'"
    using acc unfolding accepted_def by blast
  have w3: "p_Block p' = p_Block p" "heap w3 = heap w2" "internalQueue w3 = internalQueue w2" "cs_state (cs w3) = ?st" "futureProposal (cs w3) = futureProposal (cs w)"
    using a(2,3,5) by (auto simp: broadcastProposal_def Let_def)
  obtain h b where m: "IsMatch e ?st p' (heap w2) = Inr (h, b)"
    and s: "signVote e (clock inp 1 0) (clock inp 1 1) (clock inp 1 2) p' b (setHeap h (updCs (\<lambda>c. c\<lparr>cs_Proposal := Some p'\<rparr>) w3)) = Inr w'"
    using a(6) w3 by (auto simp: voteOnProposal_def updCs_def)
  have w': "heap w' = fst (hashBlock e (p_Block p) h)" "cs_Proposal (cs w') = Some p'" "futureProposal (cs w') = futureProposal (cs w)"
      "cs_state (cs w') = ?st" "queued (internalQueue w') = queued (internalQueue w)"
    using s by (cases rule: signVote_cases; simp add: setHeap_def updCs_def sendInternalMessage_def w3 a)+
  have pd: "pending ?st ?h1 = pending ?st (heap w)" by (simp add: pending_def)
  have k2: "keeps {} (pending ?st (heap w)) (heap w) (heap w2)"
    using keeps_trans [OF keeps_hashBlock keeps_UpdateState [of ?h1 ?st "clock inp 0" "p_Block p", folded pending_def, unfolded pd]] a(4) by simp
  note im = IsMatch_chain [OF tree_ok_keeps(1) [OF k2 ok] m]
  have k3: "keeps {} (pending ?st (heap w)) h (heap w')" by (simp add: w'(1))
  show "keeps {} (pending ?st (heap w)) (heap w) (heap w')"
    using keeps_trans [OF keeps_trans [OF k2 keeps_mono [OF im(1)]] k3] by simp
  show "hashed (heap w') (theTree ?st (heap w'))"
    using tree_ok_keeps(2) [OF k3 tree_ok_keeps(1) [OF keeps_trans [OF k2 keeps_mono [OF im(1)]] ok]] im(2) by simp
  show "BlockHash (blocks (heap w') (p_Block p)) \<noteq> None" by (simp add: w'(1) blocks_hashBlock BlockHash_Block_Hash)
  show "\<exists>p'. cs_Proposal (cs w') = Some p' \<and> p_Block p' = p_Block p" "futureProposal (cs w') = futureProposal (cs w)" "cs_state (cs w') = ?st"
    "queued (internalQueue w') = queued (internalQueue w)" using w' w3(1) by auto
qed

text \<open>A proposal that is not accepted may be kept for its slot.\<close>

lemma defaultSetProposal_rejects:
  assumes "defaultSetProposal e inp p w = Inr (w', err)" "err \<noteq> None"
  shows "(heap w' = heap w \<or> heap w' = fst (hashBlock e (p_Block p) (heap w))) \<and> (futureProposal (cs w') = futureProposal (cs w)
     \<or> futureProposal (cs w') = (futureProposal (cs w))(Slot (blocks (heap w) (p_Block p)) \<mapsto> p))"
proof (cases "Slot (blocks (heap w) (p_Block p)) = CurSlot (cs w)")
  case False
  then show ?thesis using assms(1)
    by (auto simp: defaultSetProposal_def Let_def TryAddFutureProposal_def split: if_splits option.splits)
next
  case True
  let ?b = "blocks (heap w) (p_Block p)"
  obtain i val where val: "GetByAddress (cs_Validators (cs w)) (ValidatorAddr ?b) = (i, val)" by fastforce
  from assms True val obtain c1 leader where ip: "isProposer val (cs w) = Inr (c1, leader)" by (auto simp: defaultSetProposal_def Let_def)
  obtain q where q: "c1 = (cs w)\<lparr>Proposer := q\<rparr>" using isProposer_frame [OF ip] by blast
  show ?thesis
  proof (cases "leader \<and> allValid e (Txs ?b) = Inr True")
    case False
    then show ?thesis using assms True val ip q by (auto simp: defaultSetProposal_def Let_def split: if_splits)
  next
    case ok: True
    from assms True val ip ok obtain pk where "acceptProposal e inp pk p (w\<lparr>cs := c1\<rparr>) = Inr (w', err)" by (auto simp: defaultSetProposal_def Let_def)
    from acceptProposal_cases [OF this] assms(2) q show ?thesis by auto
  qed
qed

lemma prop_ok_tl: "prop_ok st h fut ov (a # xs) \<Longrightarrow> prop_ok st h fut ov xs"
  by (rule prop_ok_subset) (auto dest: prop_okD(1))

lemma prop_ok_early:
  assumes pk: "prop_ok st h fut ov (p_Block p # xs)"
  shows "prop_ok st h (fut(Slot (blocks h (p_Block p)) \<mapsto> p)) ov xs"
proof (rule prop_okI)
  note d = prop_okD [OF pk]
  fix b assume b: "b \<in> set xs"
  then show "b < blocksNext h" "b \<notin> tree_blocks (theTree st h)" using d(2,3) [of b] by auto
  show "(fut(Slot (blocks h (p_Block p)) \<mapsto> p)) s = Some q \<Longrightarrow> p_Block q \<noteq> b" for s q using d(1) d(4) [of b s q] b by (auto split: if_splits)
next
  note d = prop_okD [OF pk]
  fix s q assume q: "(fut(Slot (blocks h (p_Block p)) \<mapsto> p)) s = Some q"
  show "p_Block q < blocksNext h" "Slot (blocks h (p_Block q)) = s" "p_Block q \<in> tree_blocks (theTree st h) \<Longrightarrow> ov s"
    using d(2,3) [of "p_Block p"] d(5-7) [of s q] q by (auto split: if_splits)
qed (use prop_okD(1) [OF pk] in simp)

text \<open>Nothing but hashes changes, and the proposal in hand is dropped or kept as an early one.\<close>

lemma chain_ok_dropped:
  assumes ok: "tree_ok (cs_state (cs w)) (heap w)" "live_ok (cs_state (cs w)) (heap w) (cs_Proposal (cs w))"
    and pk: "prop_ok (cs_state (cs w)) (heap w) (futureProposal (cs w)) (over w) (p_Block p # held w)"
    and w': "same_round w w'" "cs_state (cs w') = cs_state (cs w)" "cs_Proposal (cs w') = cs_Proposal (cs w)" "internalQueue w' = internalQueue w"
    and hp: "heap w' = heap w \<or> heap w' = fst (hashBlock e (p_Block p) (heap w))"
    and fut: "futureProposal (cs w') = futureProposal (cs w)
      \<or> futureProposal (cs w') = (futureProposal (cs w))(Slot (blocks (heap w) (p_Block p)) \<mapsto> p)"
  shows "chain_ok w' \<and> grown w w'"
proof -
  have k: "keeps {} {} (heap w) (heap w')" using hp by auto
  have hd: "held w' = held w" using w' by (simp add: held_def)
  have lt: "p_Block q < blocksNext (heap w)" if "cs_Proposal (cs w) = Some q" for q
    using prop_okD(2) [OF pk, of "p_Block q"] that by (simp add: held_def)
  have "prop_ok (cs_state (cs w)) (heap w) (futureProposal (cs w')) (over w) (held w)"
    using fut prop_ok_early [OF pk] prop_ok_tl [OF pk] by auto
  then have "prop_ok (cs_state (cs w)) (heap w') (futureProposal (cs w')) (over w') (held w')"
    using prop_ok_keeps [OF k] hd over_same_round [OF w'(1)] by simp
  moreover have "live_ok (cs_state (cs w)) (heap w') (cs_Proposal (cs w'))" using live_ok_keeps [OF k ok(2,1)] lt w' by simp
  ultimately show ?thesis using tree_ok_keeps(1) [OF k ok(1)] grows_keeps [OF k ok(1)] w' by (simp add: chain_ok_def)
qed

text \<open>
  The proposal in hand is a block of its own. Whatever becomes of it, the invariant holds afterwards.
\<close>

lemma chain_ok_ProposalMessage:
  assumes ok: "tree_ok (cs_state (cs w)) (heap w)" "live_ok (cs_state (cs w)) (heap w) (cs_Proposal (cs w))"
    and pk: "prop_ok (cs_state (cs w)) (heap w) (futureProposal (cs w)) (over w) (p_Block p # held w)"
    and h: "handleMsg e inp (ProposalMessage p) w = Inr w'"
  shows "chain_ok w' \<and> grown w w'"
proof -
  note sr = same_round_handleMsg [OF h]
  have a: "p_Block p < blocksNext (heap w)" using prop_okD(2) [OF pk, of "p_Block p"] by simp
  consider (none) "w' = w \<or> w' = setHeap (fst (hashBlock e (p_Block p) (heap w))) w" | (set) err where "defaultSetProposal e inp p w = Inr (w', err)"
    using h by (auto simp: handleMsg_def split: option.splits if_splits)
  then show ?thesis
  proof cases
    case none
    then show ?thesis by (intro chain_ok_dropped [OF ok pk sr]) (auto simp: setHeap_def)
  next
    case (set err)
    show ?thesis
    proof (cases "err = None")
      case False
      then have "rejected w w'" using defaultSetProposal_cases [OF set] by blast
      then show ?thesis using defaultSetProposal_rejects [OF set False] by (intro chain_ok_dropped [OF ok pk sr]) (auto simp: rejected_def)
    next
      case True
      then have acc: "accepted e inp p w w'" using defaultSetProposal_cases [OF set] by blast
      note c = accepted_chain [OF acc ok(1) a]
      obtain p' where p': "cs_Proposal (cs w') = Some p'" "p_Block p' = p_Block p" using c(4) by blast
      have "prop_ok (cs_state (cs w)) (heap w) (futureProposal (cs w)) (over w) (held w')"
        by (rule prop_ok_subset [OF pk]) (use prop_okD(1) [OF pk] p' c(7) in \<open>auto simp: held_def\<close>)
      from prop_ok_keeps [OF c(1) this] tree_ok_keeps(1) [OF c(1) ok(1)] grows_keeps [OF c(1) ok(1)] c(2,3,5,6) p' over_same_round [OF sr]
      show ?thesis by (simp add: chain_ok_def live_ok_def)
    qed
  qed
qed

lemma chain_ok_VoteMessage:
  assumes ok: "chain_ok w" and h: "handleMsg e inp (VoteMessage v) w = Inr w'"
  shows "chain_ok w' \<and> grown w w'"
proof -
  obtain w1 added err where t: "TryAddVote e v w = Inr (w1, added, err)" using h by (auto simp: handleMsg_def)
  obtain vs where w1: "w1 = updCs (\<lambda>c. c\<lparr>VoteSet := vs\<rparr>) w" using TryAddVote_cases [OF t] by blast
  have "cs_state (cs w') = cs_state (cs w)" "heap w' = heap w" "cs_Proposal (cs w') = cs_Proposal (cs w)" "internalQueue w' = internalQueue w"
      "futureProposal (cs w') = futureProposal (cs w)"
    using h t by (auto simp: w1 handleMsg_def Let_def updCs_def restampVote_def broadcastVote_def split: if_splits option.splits)
  then show ?thesis using ok over_same_round [OF same_round_handleMsg [OF h]] by (simp add: chain_ok_def held_def)
qed

section \<open>Applying and proposing\<close>

text \<open>A block that is allocated is in no tree and in no other proposal.\<close>

lemma prop_ok_fresh:
  assumes ok: "tree_ok st h" "prop_ok st h fut ov xs" and k: "keeps J S h h'" and n: "blocksNext h < blocksNext h'"
  shows "prop_ok st h' fut ov (blocksNext h # xs)"
proof (rule prop_okI)
  note pk = prop_ok_keeps [OF k ok(2)] and t = theTree_keeps(1) [OF k, of st]
  show "distinct (blocksNext h # xs)" using prop_okD(1) [OF pk] prop_okD(2) [OF ok(2), of "blocksNext h"] by auto
  show "p_Block q \<noteq> b" if "b \<in> set (blocksNext h # xs)" "fut s = Some q" for b s q
    using that prop_okD(4) [OF pk, of b s q] prop_okD(5) [OF ok(2), of s q] by auto
  show "b \<notin> tree_blocks (theTree st h')" if "b \<in> set (blocksNext h # xs)" for b
    using that prop_okD(3) [OF pk, of b] tree_okD(2) [OF ok(1)] t by (cases "b = blocksNext h") auto
qed (use n prop_okD [OF prop_ok_keeps [OF k ok(2)]] in auto)

lemma finishApply_chain:
  assumes ok: "tree_ok (cs_state (cs w)) (heap w)" "prop_ok (cs_state (cs w)) (heap w) (futureProposal (cs w)) ov (queued (internalQueue w))"
    and h: "finishApply e w = Inr w'" and ov: "\<And>s. ov s \<Longrightarrow> over w' s"
  shows "chain_ok w' \<and> grown w w'"
proof -
  let ?st = "cs_state (cs w)" and ?n = "blocksNext (heap w)"
  obtain h1 where h1: "newBlock zeroBlock (heap w) = (?n, h1)" by (simp add: newBlock_def)
  obtain f where w': "heap w' = updBlock ?n f h1" "cs_Proposal (cs w') = Some (zeroProposal ?n)" "cs_state (cs w') = ?st" "internalQueue w' = internalQueue w"
      "futureProposal (cs w') = futureProposal (cs w)" "BlockState (f (blocks h1 ?n)) = DefaultBlock"
    using h h1 by (auto simp: finishApply_def MakeEmptyProposal_def Let_def sendEventMessage_def updateStep_def updCs_def setHeap_def zeroProposal_def Fill_def)
  have k: "keeps {} {} (heap w) (heap w')" unfolding w'(1) by (rule keeps_fresh [OF keeps_newBlock [OF h1]]) simp
  have n: "?n < blocksNext (heap w')" using h1 by (auto simp: w'(1) newBlock_def)
  have "prop_ok ?st (heap w') (futureProposal (cs w)) (over w') (?n # queued (internalQueue w))"
    using prop_ok_mono [OF prop_ok_fresh [OF ok k n] ov] .
  then show ?thesis using tree_ok_keeps(1) [OF k ok(1)] grows_keeps [OF k ok(1)] w' by (simp add: chain_ok_def held_def live_ok_def zeroProposal_def)
qed

lemma judgeProposal_keeps:
  "keeps {a} {a} (heap w) (heap (judgeProposal e inp a w))" "\<not> committed (heap (judgeProposal e inp a w)) a"
proof -
  have u: "keeps {a} {a} h (UpdateBlockState t a s h)" for t s h by (rule keepsI) (simp_all add: committed_def)
  have q: "keeps {a} {a} h (updBlock a (\<lambda>b. b\<lparr>VoteQuorum := qu\<rparr>) h)" for qu h by (auto simp: keeps_def committed_def)
  show "keeps {a} {a} (heap w) (heap (judgeProposal e inp a w))"
    using u keeps_trans [OF q u] by (auto simp: judgeProposal_def setHeap_def Let_def split: option.split)
  show "\<not> committed (heap (judgeProposal e inp a w)) a"
    by (simp add: judgeProposal_def setHeap_def committed_def Let_def split: option.split)
qed

text \<open>The proposal that \<open>enterApply\<close> works on: the one of the last slot, or an early one of the slot that begins.\<close>

definition in_hand :: "'db World \<Rightarrow> 'db World \<Rightarrow> addr \<Rightarrow> bool" where
  "in_hand w w1 a \<longleftrightarrow> cs_state (cs w1) = cs_state (cs w) \<and> keeps {} (pending (cs_state (cs w)) (heap w)) (heap w) (heap w1)
     \<and> futureProposal (cs w1) = futureProposal (cs w) \<and> queued (internalQueue w1) = queued (internalQueue w)
     \<and> a < blocksNext (heap w) \<and> a \<notin> set (queued (internalQueue w)) \<and> a \<notin> tree_blocks (theTree (cs_state (cs w)) (heap w))
     \<and> (\<forall>s q. futureProposal (cs w) s = Some q \<longrightarrow> p_Block q = a \<longrightarrow> s = CurSlot (cs w))
     \<and> BlockHash (blocks (heap w1) a) \<noteq> None \<and> hashed (heap w1) (theTree (cs_state (cs w)) (heap w1))"

lemma triggle_chain:
  assumes ok: "chain_ok w" and st: "Step (cs w) = RoundStepSlot" "hasProposal w"
    and tr: "triggleFutureProposal e inp (CurSlot (cs w)) w = Inr w1" and p: "cs_Proposal (cs w1) = Some p"
  shows "in_hand w w1 (p_Block p)"
proof -
  let ?st = "cs_state (cs w)" and ?fut = "futureProposal (cs w)" and ?a = "p_Block p"
  have t: "tree_ok ?st (heap w)" and pk: "prop_ok ?st (heap w) ?fut (over w) (held w)" and lv: "live_ok ?st (heap w) (cs_Proposal (cs w))"
    using ok by (auto simp: chain_ok_def)
  note d = prop_okD [OF pk]
  show ?thesis
  proof (cases "\<exists>q. ?fut (CurSlot (cs w)) = Some q \<and> defaultSetProposal e inp q w = Inr (w1, None)")
    case True
    then obtain q where q: "?fut (CurSlot (cs w)) = Some q" "accepted e inp q w w1" using defaultSetProposal_cases by blast
    note c = accepted_chain [OF q(2) t d(5) [OF q(1)]]
    have a: "?a = p_Block q" using c(4) p by auto
    have "p_Block q \<notin> tree_blocks (theTree ?st (heap w))" using d(7) [OF q(1)] st(1) by (auto simp: over_def)
    moreover have "p_Block q \<notin> set (queued (internalQueue w))" using d(4) [OF _ q(1), of "p_Block q"] by (auto simp: held_def)
    moreover have "s = CurSlot (cs w)" if "?fut s = Some r" "p_Block r = p_Block q" for s r using d(6) [OF that(1)] d(6) [OF q(1)] that(2) by simp
    ultimately show ?thesis unfolding a in_hand_def using c d(5) [OF q(1)] by blast
  next
    case False
    have "\<exists>q. (heap w1 = heap w \<or> heap w1 = fst (hashBlock e q (heap w))) \<and> futureProposal (cs w1) = ?fut \<and> cs_state (cs w1) = ?st
        \<and> internalQueue w1 = internalQueue w \<and> cs_Proposal (cs w1) = cs_Proposal (cs w)"
    proof (cases "?fut (CurSlot (cs w))")
      case None
      then show ?thesis using tr by (simp add: triggleFutureProposal_def)
    next
      case (Some q)
      then obtain err where s: "defaultSetProposal e inp q w = Inr (w1, err)" using tr by (auto simp: triggleFutureProposal_def)
      then have e: "err \<noteq> None" using False Some by auto
      have "rejected w w1" using defaultSetProposal_cases [OF s] e by blast
      moreover have "?fut(Slot (blocks (heap w) (p_Block q)) \<mapsto> q) = ?fut" using d(6) [OF Some] Some by auto
      ultimately show ?thesis using defaultSetProposal_rejects [OF s e] by (auto simp: rejected_def)
    qed
    then have w1: "keeps {} (pending ?st (heap w)) (heap w) (heap w1)" "futureProposal (cs w1) = ?fut" "cs_state (cs w1) = ?st"
      "internalQueue w1 = internalQueue w" "cs_Proposal (cs w) = Some p" using p by auto
    have a: "?a \<in> set (held w)" "distinct (?a # queued (internalQueue w))" using w1(5) d(1) by (auto simp: held_def)
    have "BlockHash (blocks (heap w) ?a) \<noteq> None" "hashed (heap w) (theTree ?st (heap w))"
      using lv st(2) w1(5) by (auto simp: live_ok_def hasProposal_def)
    then have "BlockHash (blocks (heap w1) ?a) \<noteq> None \<and> hashed (heap w1) (theTree ?st (heap w1))"
      using keepsD(5) [OF w1(1) d(2) [OF a(1)]] tree_ok_keeps(2) [OF w1(1) t] by auto
    then show ?thesis using w1 a(2) d(2,3) [OF a(1)] d(4) [OF a(1)] by (auto simp: in_hand_def)
  qed
qed

lemma State_Copy_chain [simp]:
  "theTree (State_Copy st) h = theTree st h" "tree_ok (State_Copy st) h = tree_ok st h" "prop_ok (State_Copy st) h fut ov xs = prop_ok st h fut ov xs"
  "grows (State_Copy st) h (State_Copy st') h' = grows st h st' h'"
  using theTree_config [OF same_config_Copy] tree_ok_config(1,2) [OF same_config_Copy] by (simp_all add: grows_def)

lemma applyProposal_chain:
  assumes ok: "chain_ok (w :: 'db World)" and st: "Step (cs w) = RoundStepSlot" "hasProposal w" and store: "never_errs store"
    and h: "applyProposal e store inp w = Inr w'"
  shows "tree_ok (cs_state (cs w')) (heap w') \<and> grown w w'
    \<and> prop_ok (cs_state (cs w')) (heap w') (futureProposal (cs w')) (\<lambda>s. over w s \<or> s = CurSlot (cs w)) (queued (internalQueue w'))"
  using h
proof (rule applyProposal_steps)
  fix w1 w3 :: "'db World" and p :: Proposal and newState err h' d
  let ?st = "cs_state (cs w)" and ?a = "p_Block p" and ?ov = "\<lambda>s. over w s \<or> s = CurSlot (cs w)"
  assume a: "triggleFutureProposal e inp (CurSlot (cs w)) w = Inr w1" "cs_Proposal (cs w1) = Some p"
    "updateEvidences e (fuel inp) (judgeProposal e inp ?a w1) = Inr w3"
    "ApplyBlock e store (clock inp 7) (State_Copy (cs_state (cs w3))) ?a (heap w3) (db w3) = Inr (newState, err, h', d)"
    "w' = (if err \<noteq> None then w3\<lparr>heap := h', db := d\<rparr>
           else updCs (\<lambda>c. c\<lparr>cs_lastState := Some (cs_state c), cs_state := newState\<rparr>) (w3\<lparr>heap := h', db := d\<rparr>))"
  have i: "in_hand w w1 ?a" using triggle_chain [OF ok st a(1,2)] .
  have cs3: "cs w3 = cs w1" and q3: "internalQueue w3 = internalQueue w1" and k3: "keeps {} {} (heap (judgeProposal e inp ?a w1)) (heap w3)"
    using a(3) keeps_updateEvidences_loop by (auto simp: updateEvidences_def setHeap_def judgeProposal_def Let_def split: if_splits option.splits)
  have t: "tree_ok ?st (heap w)" and pk: "prop_ok ?st (heap w) (futureProposal (cs w)) (over w) (held w)" using ok by (auto simp: chain_ok_def)
  have k1: "keeps {} (pending ?st (heap w)) (heap w) (heap w1)" using i by (simp add: in_hand_def)
  note t1 = tree_ok_keeps(1) [OF k1 t]
  have aT: "{?a} \<inter> tree_blocks (theTree ?st (heap w1)) = {}" using i theTree_keeps(1) [OF k1, of ?st] by (auto simp: in_hand_def)
  note kj = keeps_trans [OF judgeProposal_keeps(1) [of ?a w1 e inp] keeps_mono [OF k3]]
  have k: "keeps {?a} {?a} (heap w1) (heap w3)" using kj by simp
  have nc: "\<not> committed (heap w3) ?a"
    using judgeProposal_keeps(2) [of e inp ?a w1] keepsD(7) [OF k3, of ?a] keepsD(3) [OF k1] keepsD(3) [OF judgeProposal_keeps(1) [of ?a w1 e inp]] i
    by (simp add: in_hand_def)
  have t3: "tree_ok ?st (heap w3)" "hashed (heap w3) (theTree ?st (heap w3))" using tree_ok_keeps [OF k t1 aT] i by (simp_all add: in_hand_def)
  have "prop_ok ?st (heap w) (futureProposal (cs w)) ?ov (queued (internalQueue w))"
    by (rule prop_ok_mono [OF prop_ok_subset [OF pk]]) (use prop_okD(1) [OF pk] in \<open>auto simp: held_def\<close>)
  then have p3: "prop_ok ?st (heap w3) (futureProposal (cs w3)) ?ov (queued (internalQueue w3))"
    using prop_ok_keeps [OF k] prop_ok_keeps [OF k1] i by (simp add: cs3 q3 in_hand_def)
  have lt: "?a < blocksNext (heap w1)" "BlockHash (blocks (heap w3) ?a) \<noteq> None" "?a < blocksNext (heap w3)"
    using i keepsD(3) [OF k1] keepsD(3) [OF k] keepsD(5) [OF k, of ?a] by (auto simp: in_hand_def)
  have s3: "cs_state (cs w3) = ?st" and q: "?a \<notin> set (queued (internalQueue w3))" using i by (simp_all add: cs3 q3 in_hand_def)
  have c: "same_config ?st (State_Copy (cs_state (cs w3)))" by (simp add: s3)
  have f: "over w s \<or> s = CurSlot (cs w)" if "futureProposal (cs w3) s = Some r" "p_Block r = ?a" for s r using i that by (simp add: cs3 in_hand_def)
  have ab: "tree_ok ?st h'" "prop_ok ?st h' (futureProposal (cs w3)) ?ov (queued (internalQueue w3))" "grows ?st (heap w3) ?st h'"
    using ApplyBlock_chain [OF _ _ _ lt(3) q lt(2) nc f store a(4)] t3 p3 by (simp_all add: s3)
  have g: "grows ?st (heap w) ?st h'" using grows_trans [OF grows_trans [OF grows_keeps [OF k1 t] grows_keeps [OF k t1 aT]] ab(3)] by simp
  have "same_config ?st (cs_state (cs w'))"
    using a(5) same_config_trans [OF c ApplyBlock_config [OF a(4)]] i by (simp add: updCs_def cs3 in_hand_def split: if_splits)
  moreover have "heap w' = h'" "futureProposal (cs w') = futureProposal (cs w3)" "internalQueue w' = internalQueue w3"
    using a(5) by (simp_all add: updCs_def split: if_splits)
  ultimately show ?thesis using ab g by (simp add: tree_ok_config)
qed

text \<open>The apply event is of the current slot, so the clock is past it when a tick is on its way.\<close>

lemma chain_ok_enterApply:
  assumes ok: "chain_ok w" and store: "never_errs store" and h: "enterApply e store inp w = Inr w'"
    and cur: "sint (CurSlot (cs w)) + int (tocked (slot_clock (cs w)) + length (newSlots (eventQueue w))) \<le> sint (curslot (slot_clock (cs w)))"
  shows "chain_ok w' \<and> grown w w'"
proof -
  note s = enterApply_step [OF h]
  have ov: "over w s \<or> s = CurSlot (cs w) \<Longrightarrow> over w' s" for s using s(2) cur by (auto simp: over_def to_step_def)
  show ?thesis
  proof (cases "hasProposal w")
    case False
    then have f: "finishApply e w = Inr w'" using h s(1) by (simp add: enterApply_def)
    have t: "tree_ok (cs_state (cs w)) (heap w)" and pk: "prop_ok (cs_state (cs w)) (heap w) (futureProposal (cs w)) (over w) (held w)"
      using ok by (auto simp: chain_ok_def)
    have "prop_ok (cs_state (cs w)) (heap w) (futureProposal (cs w)) (over w) (queued (internalQueue w))"
      by (rule prop_ok_subset [OF pk]) (use prop_okD(1) [OF pk] in \<open>auto simp: held_def\<close>)
    from finishApply_chain [OF t this f] ov show ?thesis by blast
  next
    case True
    then obtain w1 where w1: "applyProposal e store inp w = Inr w1" "finishApply e w1 = Inr w'" using h s(1) by (auto simp: enterApply_def)
    note a = applyProposal_chain [OF ok s(1) True store w1(1)]
    have "chain_ok w' \<and> grown w1 w'" by (rule finishApply_chain [OF _ _ w1(2) ov]) (use a in auto)
    then show ?thesis using a grows_trans by blast
  qed
qed

lemma chain_ok_mono:
  assumes "chain_ok w" "cs_state (cs w') = cs_state (cs w)" "heap w' = heap w" "cs_Proposal (cs w') = cs_Proposal (cs w)"
    "queued (internalQueue w') = queued (internalQueue w)" "futureProposal (cs w') = futureProposal (cs w)" "\<And>s. over w s \<Longrightarrow> over w' s"
  shows "chain_ok w' \<and> grown w w'"
proof -
  have "held w' = held w" using assms(4,5) by (simp add: held_def)
  then show ?thesis using assms prop_ok_mono [of _ _ _ "over w" _ "over w'"] by (simp add: chain_ok_def)
qed

lemma CreateProposal_chain:
  assumes "CreateProposal e now txs st slot h = Inr (p, h')"
  shows "keeps {} {} h h'" "p_Block p = blocksNext h" "blocksNext h < blocksNext h'"
proof -
  obtain h1 parent pre b where "NewBranch e st h = Inr (h1, parent, pre)" "p_Block p = fst (newBlock b h1)" "h' = snd (newBlock b h1)"
    using assms by (auto simp: CreateProposal_def Let_def zeroProposal_def split_def)
  then have nb: "NewBranch e st h = Inr (h1, parent, pre)" "newBlock b h1 = (p_Block p, h')" by simp_all
  obtain x where x: "h1 = fst (hashBlock e x h)" using nb(1) by (auto simp: NewBranch_def Let_def split_def)
  have k: "keeps {} {} h h1" by (simp add: x)
  show "keeps {} {} h h'" using keeps_trans [OF k keeps_newBlock [OF nb(2)]] .
  show "p_Block p = blocksNext h" "blocksNext h < blocksNext h'" using nb(2) by (auto simp: newBlock_def x)
qed

lemma defaultProposal_chain:
  assumes ok: "chain_ok w" and h: "defaultProposal e inp w = Inr (w', r)" and st: "Step (cs w) \<noteq> RoundStepSlot"
  shows "chain_ok w' \<and> grown w w'"
proof -
  let ?st = "cs_state (cs w)" and ?n = "blocksNext (heap w)"
  have t: "tree_ok ?st (heap w)" and pk: "prop_ok ?st (heap w) (futureProposal (cs w)) (over w) (held w)" and lv: "live_ok ?st (heap w) (cs_Proposal (cs w))"
    using ok by (auto simp: chain_ok_def)
  obtain p h1 pv h3 x where c: "CreateProposal e (clock inp 3) (reaped inp) ?st (CurSlot (cs w)) (heap w) = Inr (p, h1)"
      and sp: "SignProposal e pv (st_ChainID ?st) (p\<lparr>p_From := scast (ValIndex (cs w))\<rparr>)
         (updBlock (p_Block p) (\<lambda>b. b\<lparr>SlotStartTime := curSlotStartTime (cs w)\<rparr>) h1) = (h3, x)"
      and w': "heap w' = h3 \<and> queued (internalQueue w') = queued (internalQueue w) \<or> heap w' = fst (hashBlock e (p_Block p) h3)
         \<and> queued (internalQueue w') = queued (internalQueue w) @ [p_Block p]"
      "cs_state (cs w') = ?st" "cs_Proposal (cs w') = cs_Proposal (cs w)" "futureProposal (cs w') = futureProposal (cs w)"
    using h by (rule defaultProposal_cases; elim that) (simp_all add: updateStep_def updCs_def setHeap_def sendInternalMessage_def)
  have h3: "h3 = fst (SignProposal e pv (st_ChainID ?st) (p\<lparr>p_From := scast (ValIndex (cs w))\<rparr>)
         (updBlock (p_Block p) (\<lambda>b. b\<lparr>SlotStartTime := curSlotStartTime (cs w)\<rparr>) h1))" using sp by simp
  note cp = CreateProposal_chain [OF c]
  have "keeps {} {} (heap w) h3"
    unfolding h3 by (rule keeps_SignProposal [OF keeps_fresh [OF cp(1)]]) (simp_all add: cp(2))
  moreover have "blocksNext h3 = blocksNext h1" by (simp add: h3)
  ultimately have k: "keeps {} {} (heap w) (heap w')" and n: "?n < blocksNext (heap w')" using w'(1) cp(3) keeps_trans by auto
  have ov: "over w s \<Longrightarrow> over w' s" for s using defaultProposal_step [OF h] by (simp add: over_def to_step_def)
  have f: "prop_ok ?st (heap w') (futureProposal (cs w)) (over w') (?n # held w)" using prop_ok_mono [OF prop_ok_fresh [OF t pk k n] ov] .
  have "held w' = held w \<or> held w' = held w @ [?n]" using w'(1,3) cp(2) by (auto simp: held_def)
  then have "prop_ok ?st (heap w') (futureProposal (cs w)) (over w') (held w')"
    by (intro prop_ok_subset [OF f]) (use prop_okD(1) [OF f] in auto)
  moreover have "live_ok ?st (heap w') (cs_Proposal (cs w))"
    using live_ok_keeps [OF k lv t] prop_okD(2) [OF pk] by (simp add: held_def)
  ultimately show ?thesis using tree_ok_keeps(1) [OF k t] grows_keeps [OF k t] w' by (simp add: chain_ok_def)
qed

lemma chain_ok_enterPropose:
  assumes ok: "chain_ok w" and h: "enterPropose e inp w = Inr w'"
  shows "chain_ok w' \<and> grown w w'"
proof -
  have st: "Step (cs w) = RoundStepApply" using enterPropose_step [OF h] by blast
  then obtain val c leader where ip: "isProposer val (cs w) = Inr (c, leader)"
    and rest: "(if \<not> leader then Inr (updateStep RoundStepWait (w\<lparr>cs := c\<rparr>))
        else rbind (defaultProposal e inp (w\<lparr>cs := c\<rparr>)) (\<lambda>(w2, _). Inr (updateStep RoundStepWait w2))) = Inr w'"
    using h by (auto simp: enterPropose_def Let_def split: prod.splits)
  obtain q where q: "c = (cs w)\<lparr>Proposer := q\<rparr>" using isProposer_frame [OF ip] by blast
  have wait: "chain_ok u \<Longrightarrow> chain_ok (updateStep RoundStepWait u) \<and> grown u (updateStep RoundStepWait u)" for u :: "'a World"
    by (rule chain_ok_mono) (auto simp: updateStep_def updCs_def over_def)
  have c: "chain_ok (w\<lparr>cs := c\<rparr>) \<and> grown w (w\<lparr>cs := c\<rparr>)" by (rule chain_ok_mono [OF ok]) (simp_all add: q over_def)
  show ?thesis
  proof (cases leader)
    case True
    then obtain w2 r where w2: "defaultProposal e inp (w\<lparr>cs := c\<rparr>) = Inr (w2, r)" "w' = updateStep RoundStepWait w2" using rest by auto
    have "chain_ok w2 \<and> grown (w\<lparr>cs := c\<rparr>) w2" by (rule defaultProposal_chain [OF _ w2(1)]) (use c st q in auto)
    then show ?thesis using c wait [of w2] grows_trans unfolding w2(2) by blast
  next
    case False
    then show ?thesis using rest c wait [of "w\<lparr>cs := c\<rparr>"] grows_trans by auto
  qed
qed

lemma newSlots_remove1_NewSlot:
  "x \<in> set q \<Longrightarrow> ev_Type x = RoundEventNewSlot \<Longrightarrow> Suc (length (newSlots (remove1 x q))) = length (newSlots q)"
  by (induction q) auto

lemma chain_ok_enterNewSlot:
  assumes ok: "chain_ok w" and x: "x \<in> set (eventQueue w)" "ev_Type x = RoundEventNewSlot"
    and h: "enterNewSlot inp slot (w\<lparr>eventQueue := remove1 x (eventQueue w)\<rparr>) = Inr w'"
  shows "chain_ok w' \<and> grown w w'"
proof -
  let ?w0 = "w\<lparr>eventQueue := remove1 x (eventQueue w)\<rparr>"
  note st = enterNewSlot_step [OF h]
  have ck: "curslot (slot_clock (cs w')) = curslot (slot_clock (cs w))" "tocked (slot_clock (cs w')) = tocked (slot_clock (cs w))"
    using st(5) by (auto simp: tocked_def)
  have ov: "over w s \<Longrightarrow> over w' s" for s
    using newSlots_remove1_NewSlot [OF x] st(1,4) ck by (auto simp: over_def)
  let ?w1 = "updCs (\<lambda>c. c\<lparr>LastSlot := CurSlot c, CurSlot := GetSlot (slot_clock c), curSlotStartTime := clock inp 5 0\<rparr>) ?w0"
  obtain c2 where "decideProposer (cs ?w1) = Inr c2" using h by (auto simp: enterNewSlot_def Let_def)
  then obtain p where c2: "decideProposer (cs ?w1) = Inr c2" "c2 = (cs ?w1)\<lparr>Proposer := Some p\<rparr>" by (blast elim: decideProposer_frame)
  let ?w2 = "?w1\<lparr>cs := c2\<lparr>slot_clock := ResetClock SlotTimeOut (slot_clock c2)\<rparr>\<rparr>"
  obtain f g where r: "reviseSlotTime (clock inp 5 1) (clock inp 5 2) ?w2 = ?w2\<lparr>cs := (cs ?w2)\<lparr>curSlotStartTime := f, slot_clock := g\<rparr>\<rparr>"
    using reviseSlotTime_clock by blast
  have "w' = updateStep RoundStepSlot (sendEventMessage RoundEventApply (CurSlot (cs ?w2)) (?w2\<lparr>cs := (cs ?w2)\<lparr>curSlotStartTime := f, slot_clock := g\<rparr>\<rparr>))"
    using h c2(1) r by (simp add: enterNewSlot_def Let_def)
  then show ?thesis by (intro chain_ok_mono [OF ok _ _ _ _ _ ov]) (simp_all add: c2(2) updateStep_def sendEventMessage_def updCs_def)
qed

lemma chain_ok_event:
  assumes ok: "chain_ok w" and inv: "machine_invar w" and x: "x \<in> set (eventQueue w)" and store: "never_errs store"
    and h: "handleEvent e store inp x (w\<lparr>eventQueue := remove1 x (eventQueue w)\<rparr>) = Inr w'"
  shows "chain_ok w' \<and> grown w w'"
proof -
  let ?w = "w\<lparr>eventQueue := remove1 x (eventQueue w)\<rparr>"
  consider (new) "ev_Type x = RoundEventNewSlot" "enterNewSlot inp (ev_Slot x) ?w = Inr w'" | (none) "w' = ?w" "ev_Type x \<noteq> RoundEventNewSlot"
    | (app) "ev_Type x \<noteq> RoundEventNewSlot" "ev_Slot x = CurSlot (cs w)" "enterApply e store inp ?w = Inr w'"
    | (propose) "ev_Type x \<noteq> RoundEventNewSlot" "enterPropose e inp ?w = Inr w'"
    using h by (cases "ev_Type x"; cases "ev_Slot x = CurSlot (cs w)") (simp_all add: handleEvent_def)
  then show ?thesis
  proof cases
    case new
    then show ?thesis using chain_ok_enterNewSlot [OF ok x] by blast
  next
    case none
    then show ?thesis by (intro chain_ok_mono [OF ok]) (simp_all add: over_def newSlots_remove1)
  next
    case app
    have "chain_ok ?w" using chain_ok_mono [OF ok, of ?w] app(1) by (simp add: over_def newSlots_remove1)
    moreover have "sint (CurSlot (cs w)) + int (tocked (slot_clock (cs w)) + length (newSlots (eventQueue w))) \<le> sint (curslot (slot_clock (cs w)))"
      using inv x app(1,2) by (auto simp: slot_invar_def)
    ultimately show ?thesis using chain_ok_enterApply [OF _ store app(3)] app(1) by (simp add: newSlots_remove1)
  next
    case propose
    have "chain_ok ?w" using chain_ok_mono [OF ok, of ?w] propose(1) by (simp add: over_def newSlots_remove1)
    then show ?thesis using chain_ok_enterPropose [OF _ propose(2)] by simp
  qed
qed

lemma queued_remove1:
  assumes "m \<in> set q"
  shows "case m of ProposalMessage p \<Rightarrow> set (queued q) = insert (p_Block p) (set (queued (remove1 m q)))
        \<and> (distinct (queued q) \<longrightarrow> distinct (p_Block p # queued (remove1 m q)))
    | VoteMessage v \<Rightarrow> queued (remove1 m q) = queued q"
proof -
  obtain l r where "q = l @ m # r" "m \<notin> set l" using split_list_first [OF assms] by blast
  then show ?thesis by (auto simp: remove1_append split: Message.split)
qed

lemma chain_ok_internal:
  assumes ok: "chain_ok w" and m: "m \<in> set (internalQueue w)" and h: "handleMsg e inp m (w\<lparr>internalQueue := remove1 m (internalQueue w)\<rparr>) = Inr w'"
  shows "chain_ok w' \<and> grown w w'"
proof -
  let ?w = "w\<lparr>internalQueue := remove1 m (internalQueue w)\<rparr>"
  have o: "over ?w = over w" by (simp add: over_def fun_eq_iff)
  show ?thesis
  proof (cases m)
    case (VoteMessage v)
    then have "chain_ok ?w" using chain_ok_mono [OF ok, of ?w] queued_remove1 [OF m] o by simp
    then show ?thesis using chain_ok_VoteMessage [of ?w] h VoteMessage by simp
  next
    case (ProposalMessage p)
    note pk = ok [unfolded chain_ok_def, THEN conjunct2, THEN conjunct1]
    have "prop_ok (cs_state (cs w)) (heap w) (futureProposal (cs w)) (over w) (p_Block p # held ?w)"
      by (rule prop_ok_subset [OF pk]) (use queued_remove1 [OF m] prop_okD(1) [OF pk] ProposalMessage in \<open>auto simp: held_def split: option.splits\<close>)
    then show ?thesis using chain_ok_ProposalMessage [of ?w p e inp w'] ok h ProposalMessage o by (simp add: chain_ok_def)
  qed
qed

lemma chain_ok_peer:
  assumes ok: "chain_ok w" and n: "newBlock b (heap w) = (a, h)" and m: "handleMsg e inp (ProposalMessage (p\<lparr>p_Block := a\<rparr>)) (setHeap h w) = Inr w'"
  shows "chain_ok w' \<and> grown w w'"
proof -
  let ?st = "cs_state (cs w)"
  have t: "tree_ok ?st (heap w)" and pk: "prop_ok ?st (heap w) (futureProposal (cs w)) (over w) (held w)" and lv: "live_ok ?st (heap w) (cs_Proposal (cs w))"
    using ok by (auto simp: chain_ok_def)
  have k: "keeps {} {} (heap w) h" using keeps_newBlock [OF n] .
  have a: "a = blocksNext (heap w)" "blocksNext (heap w) < blocksNext h" using n by (auto simp: newBlock_def)
  have o: "over (setHeap h w) = over w" "held (setHeap h w) = held w" by (simp_all add: over_def held_def setHeap_def fun_eq_iff)
  have "live_ok ?st h (cs_Proposal (cs w))" using live_ok_keeps [OF k lv t] prop_okD(2) [OF pk] by (simp add: held_def)
  then have "chain_ok w' \<and> grown (setHeap h w) w'"
    using chain_ok_ProposalMessage [OF _ _ _ m] tree_ok_keeps(1) [OF k t] prop_ok_fresh [OF t pk k a(2)] a(1) o by (simp add: setHeap_def)
  then show ?thesis using grows_trans [OF grows_keeps [OF k t, simplified]] by (auto simp: setHeap_def)
qed

section \<open>Reachable worlds\<close>

lemma chain_ok_step:
  assumes "step e store w w'" "chain_ok w" "machine_invar w" "never_errs store"
  shows "chain_ok w' \<and> grown w w'"
  using assms
proof (induction rule: step.induct)
  case (expire w now)
  show ?case by (rule chain_ok_mono [OF expire(2)]) (simp_all add: updClock_def updCs_def over_def timer_expires_def tocked_def)
next
  case (timer w now)
  show ?case by (rule chain_ok_mono [OF timer(2)]) (simp_all add: updClock_def updCs_def over_def OnStart_timer_def tocked_def)
next
  case (tick now w)
  have "over w s \<Longrightarrow> over (updClock (OnStart_tick now) w) s" for s
    using sint_Update_one [OF tick(2)] by (simp add: over_def OnStart_tick_def Let_def tocked_def)
  then show ?case by (intro chain_ok_mono [OF tick(3)]) (simp_all add: updClock_def updCs_def)
next
  case (timeout ti w)
  let ?w = "updClock (\<lambda>sc. sc\<lparr>tockChan := remove1 ti (tockChan sc)\<rparr>) w"
  have "length (tockChan (slot_clock (cs w))) = Suc (length (remove1 ti (tockChan (slot_clock (cs w)))))"
    using timeout(1) length_pos_if_in_set by (fastforce simp: length_remove1)
  then have "over w s \<Longrightarrow> over (handleTimeOut ti ?w) s" for s
    by (auto simp: over_def handleTimeOut_def sendEventMessage_def tocked_def split: RoundStepType.split)
  then show ?case
    by (intro chain_ok_mono [OF timeout(2)]) (auto simp: updClock_def updCs_def handleTimeOut_def sendEventMessage_def split: RoundStepType.split)
next
  case (event x w inp w')
  then show ?case using chain_ok_event by blast
next
  case (internal m w inp w')
  then show ?case using chain_ok_internal by blast
next
  case (peer_vote inp v w w')
  then show ?case using chain_ok_VoteMessage by blast
next
  case (peer_proposal b w a h inp p w')
  then show ?case using chain_ok_peer by blast
qed

lemma chain_ok_reachable:
  assumes "reachable e store w w'" "chain_ok w" "machine_invar w" "never_errs store"
  shows "chain_ok w' \<and> machine_invar w' \<and> grown w w'"
  using node.run_relates [OF assms(1), of "\<lambda>w. chain_ok w \<and> machine_invar w" grown] assms(2-4)
    chain_ok_step machine_invar_step grows_refl grows_trans by blast

text \<open>A fresh node: the tree is the genesis block, which is committed.\<close>

lemma chain_ok_NewNode:
  assumes "NewNode e pv genDoc now d = Inr w"
  shows "chain_ok w"
proof -
  note f = NewNode_fields [OF assms]
  obtain c val st h where l: "loadState e genDoc emptyHeap = Inr (st, h)" "heap w = h" "cs w = c"
      "NewDefaultConsensusState e (InitialSlot st) (FilePV pv) (st_Validators st) (st\<lparr>st_Validator := val\<rparr>) now = Inr c"
    using assms by (auto simp: NewNode_def Let_def)
  have cst: "cs_state c = st\<lparr>st_Validator := val\<rparr>"
    using l(4) by (auto simp: NewDefaultConsensusState_def SetValidtor_def SetValidtorSet_def NewConsensusState_def)
  have T: "st_BlockTree st \<noteq> None" "theTree (cs_state c) h = NewBlockTree 0" "pending (cs_state c) h = {}" "0 < blocksNext h"
      "BlockState (blocks h 0) = CommittedBlock"
    using l(1) by (auto simp: cst loadState_def Let_def newBlock_def MakeGenesisState_def NewState_def newSet_def newTree_def NewBlockSet_def
        theTree_def pending_def emptyHeap_def MakeGenesisBlock_def)
  have "root_chain h (NewBlockTree 0)" "commits_closed h (NewBlockTree 0)" "tree_blocks (NewBlockTree 0) = {0}"
    using T(5) wf_NewBlockTree [of 0]
    by (simp_all add: root_chain_def tree_invar_def unique_hashes_def inj_on_def linked_def uncommitted_def node_block_def commits_closed_def NewBlockTree_def)
  then show ?thesis using T l(2,3) f by (simp add: chain_ok_def tree_ok_def prop_ok_def live_ok_def held_def cst)
qed

end
