(* ===== verification/Demo.thy ===== *)
theory Demo
  imports Node NodeVotes
begin

text \<open>
  A concrete node on which the properties of reachable worlds are evaluated: four validators, a node of the first one started from
  a genesis document, its first slot, and three votes that it receives.
\<close>

section \<open>A node and its first slot\<close>

definition demoKeys :: "string list" where
  "demoKeys = [''k1'', ''k2'', ''k3'', ''k4'']"

definition demoGen :: GenesisDoc where
  "demoGen = \<lparr>GenesisTime = 0, gd_ChainID = ''chain'', gd_InitialSlot = 0,
     gd_Validators = map (\<lambda>k. \<lparr>gv_Address = [], gv_PubKey = Some (pad32 k), gv_Name = k\<rparr>) demoKeys,
     PubValidator = \<lparr>gv_Address = [], gv_PubKey = Some (pad32 ''cluster''), gv_Name = ''cluster''\<rparr>,
     gd_SupportQuorum = NewQuorum, AppHash = []\<rparr>"

definition demoPV :: FilePVKey where
  "demoPV = \<lparr>pvk_Address = take 20 (pad32 ''k1''), pvk_PubKey = Some (pad32 ''k1''), pvk_PrivKey = ''k1'', filePath = []\<rparr>"

definition demoNode :: "unit World res" where
  "demoNode = NewNode plainCrypto demoPV demoGen 0 ()"

definition demoStart :: "unit World" where
  "demoStart = projr (rbind demoNode (Reactor_OnStart 5000000000))"

lemma demo_runs: "\<not> isl (rbind demoNode (Reactor_OnStart 5000000000))"
  by code_simp

lemma demo_node:
  obtains w where "NewNode plainCrypto demoPV demoGen 0 () = Inr w" "Reactor_OnStart 5000000000 w = Inr demoStart"
proof -
  have "rbind demoNode (Reactor_OnStart 5000000000) = Inr demoStart" using demo_runs unfolding demoStart_def by (rule sum.collapse(2) [symmetric])
  then show ?thesis using that unfolding demoNode_def by (auto simp: rbind_Inr_iff)
qed

lemma demo_starts: "started demoStart"
  using demo_node NewNode_started by metis

definition demoInput :: Input where
  "demoInput = \<lparr>clock = (\<lambda>_ _. 12000000000), reaped = [], fuel = 10\<rparr>"

definition demoTi :: timeoutInfo where
  "demoTi = \<lparr>ti_Duration = 7000000000, ti_Slot = 1, ti_Step = RoundStepSlot\<rparr>"

definition demoTimeout :: "unit World" where
  "demoTimeout = updClock (OnStart_tick 0) (updClock (OnStart_timer 0) (updClock (timer_expires 0) demoStart))"

definition demoDue :: "unit World" where
  "demoDue = handleTimeOut demoTi (updClock (\<lambda>sc. sc\<lparr>tockChan := remove1 demoTi (tockChan sc)\<rparr>) demoTimeout)"

definition demoSlot :: "unit World" where
  "demoSlot = projr (handleEvent plainCrypto okStore demoInput (mkEv RoundEventNewSlot 1) (demoDue\<lparr>eventQueue := []\<rparr>))"

lemma demo_timeout: "tockChan (slot_clock (cs demoTimeout)) = [demoTi]"
  by code_simp

lemma demo_due: "eventQueue demoDue = [mkEv RoundEventNewSlot 1]"
  by code_simp

lemma demo_slot_runs: "\<not> isl (handleEvent plainCrypto okStore demoInput (mkEv RoundEventNewSlot 1) (demoDue\<lparr>eventQueue := []\<rparr>))"
  by code_simp

lemma demo_slot: "eventQueue demoSlot = [mkEv RoundEventApply 1]" "CurSlot (cs demoSlot) = 1"
  by code_simp+

lemma demo_clock: "t_active (slot_clock (cs demoStart))" "t_C (slot_clock (cs (updClock (timer_expires 0) demoStart))) = Some 0"
   "timerChan (slot_clock (cs (updClock (OnStart_timer 0) (updClock (timer_expires 0) demoStart)))) = [0]"
   "sint (curslot (slot_clock (cs (updClock (OnStart_timer 0) (updClock (timer_expires 0) demoStart))))) = 0"
  by code_simp+

section \<open>Three votes\<close>

definition demoDraft :: "int32 \<Rightarrow> Vote" where
  "demoDraft i = \<lparr>v_Slot = 1, v_BlockHash = ''h'', v_Type = SupportVote, v_Timestamp = 0, ValidatorAddress = take 20 (pad32 (demoKeys ! unat i)),
     ValidatorIndex = i, v_Signature = [], v_SendTime = 0, v_Round = 0, v_From = 0, v_ReceiveTime = 0\<rparr>"

definition demoVote :: "int32 \<Rightarrow> Vote" where
  "demoVote i = projr (SignVote plainCrypto (MockPV \<lparr>mpv_PrivKey = demoKeys ! unat i, breakProposalSigning = False, breakVoteSigning = False\<rparr>)
     ''chain'' (demoDraft i))"

definition deliver :: "Vote \<Rightarrow> unit World \<Rightarrow> unit World" where
  "deliver v w = projr (handleMsg plainCrypto demoInput (VoteMessage v) w)"

definition demoVoted :: "unit World" where
  "demoVoted = deliver (demoVote 2) (deliver (demoVote 1) (deliver (demoVote 0) demoStart))"

lemma demo_v1: "\<not> isl (handleMsg plainCrypto demoInput (VoteMessage (demoVote 0)) demoStart)"
  by code_simp

lemma demo_v2: "\<not> isl (handleMsg plainCrypto demoInput (VoteMessage (demoVote 1)) (deliver (demoVote 0) demoStart))"
  by code_simp

lemma demo_v3: "\<not> isl (handleMsg plainCrypto demoInput (VoteMessage (demoVote 2)) (deliver (demoVote 1) (deliver (demoVote 0) demoStart)))"
  by code_simp

lemma demo_q: "(case GetVotesBySlot (VoteSet (cs demoVoted)) 1 of None \<Rightarrow> False | Some vs \<Rightarrow> q_Type (TryGenQuorum plainCrypto vs Threshold) = SupportQuorum)"
  by code_simp

lemma Inr_projr: "\<not> isl r \<Longrightarrow> r = Inr (projr r)"
  by (cases r) simp_all

lemma demoSlot_reachable: "reachable plainCrypto okStore demoStart demoSlot"
proof -
  note s = reachable.step
  have "reachable plainCrypto okStore demoStart (updClock (timer_expires 0) demoStart)"
    by (rule s [OF reachable.init step.expire]) (rule demo_clock(1))
  then have "reachable plainCrypto okStore demoStart (updClock (OnStart_timer 0) (updClock (timer_expires 0) demoStart))"
    by (rule s [OF _ step.timer]) (rule demo_clock(2))
  then have "reachable plainCrypto okStore demoStart demoTimeout" unfolding demoTimeout_def
    by (rule s [OF _ step.tick]) (simp_all only: demo_clock list.set, simp_all)
  then have "reachable plainCrypto okStore demoStart demoDue" unfolding demoDue_def
    by (rule s [OF _ step.timeout]) (simp add: demo_timeout)
  then show ?thesis
  proof (rule s [OF _ step.event])
    show "mkEv RoundEventNewSlot 1 \<in> set (eventQueue demoDue)" by (simp add: demo_due)
    show "handleEvent plainCrypto okStore demoInput (mkEv RoundEventNewSlot 1) (demoDue\<lparr>eventQueue := remove1 (mkEv RoundEventNewSlot 1) (eventQueue demoDue)\<rparr>) = Inr demoSlot"
      using Inr_projr [OF demo_slot_runs] by (simp add: demo_due demoSlot_def)
  qed
qed

lemma demoVoted_reachable: "reachable plainCrypto okStore demoStart demoVoted"
proof -
  have v: "reachable plainCrypto okStore demoStart (deliver v w)"
    if "reachable plainCrypto okStore demoStart w" "\<not> isl (handleMsg plainCrypto demoInput (VoteMessage v) w)" for v w
    using reachable.step [OF that(1) step.peer_vote] Inr_projr [OF that(2)] unfolding deliver_def .
  show ?thesis unfolding demoVoted_def by (intro v reachable.init demo_v1 demo_v2 demo_v3)
qed

end
