(* ===== verification/RpcStats.thy ===== *)
theory RpcStats
  imports Consensus
begin

text \<open>
  The statistics of libs/utils/math.go and the two queries of rpc/consensus.go that use them.
  A \<open>float64\<close> is an exact rational number: rounding is not modelled, and a quotient that is not finite is \<^const>\<open>None\<close>.
\<close>

section \<open>Statistics\<close>

definition utils_Max :: "rat list \<Rightarrow> rat" where
  "utils_Max data = (if length data = 0 then -1 else foldl (\<lambda>res datum. if datum > res then datum else res) (hd data) data)"

definition utils_Min :: "rat list \<Rightarrow> rat" where
  "utils_Min data = (if length data = 0 then -1 else foldl (\<lambda>res datum. if datum < res then datum else res) (hd data) data)"

definition utils_Mean :: "rat list \<Rightarrow> rat res" where
  "utils_Mean data =
     (if length data = 0 then Inr (-1)
      else
        let data' = sort data in
        if length data' mod 2 = 1 then index data' (int (length data' div 2))
        else
          let mid = int (length data' div 2) in
          rbind (index data' mid) (\<lambda>x. rbind (index data' (mid + 1)) (\<lambda>y. Inr ((x + y) / 2))))"

definition utils_Avg :: "rat list \<Rightarrow> rat" where
  "utils_Avg data = (if length data = 0 then -1 else foldl (+) 0 data / of_nat (length data))"

section \<open>Queries\<close>

record ResultLatency =
  rl_TxNum :: int
  Max_Latency :: rat
  Min_Latency :: rat
  Mean_Latency :: rat
  Avg_Latency :: rat

record ResultBlock = ResultLatency +
  rb_Slot :: LTime
  BlockStatus :: string
  rb_LastBlockHash :: bytes
  rb_BlockHash :: bytes
  TxNum :: int
  rb_ValidatorAddr :: bytes
  rb_BlockPrecommitTime :: rat
  rb_BlockCommitTime :: rat
  TotalConsensusTime :: rat
  ConsensusStartTime :: int64
  ConsensusEndTime :: int64

text \<open>The latencies of a block's transactions, in seconds, as far as they are positive; the loop occurs in both queries.\<close>

definition txsLatency :: "Block \<Rightarrow> rat list" where
  "txsLatency oblock = foldl (\<lambda>acc sbtx.
     let txLatency = (of_int (sint (BlockCommitTime oblock - TxSendTimestamp sbtx)) :: rat)
     in if txLatency > 0 then acc @ [txLatency / 1000000000] else acc) [] (Txs oblock)"

definition seconds :: "int64 \<Rightarrow> rat" where
  "seconds t = of_int (sint t) / 1000000000"

definition resultBlock :: "Block \<Rightarrow> ResultBlock res" where
  "resultBlock oblock =
     rbind (utils_Mean (txsLatency oblock)) (\<lambda>mean.
     Inr \<lparr>rl_TxNum = int (length (txsLatency oblock)), Max_Latency = utils_Max (txsLatency oblock), Min_Latency = utils_Min (txsLatency oblock),
          Mean_Latency = mean, Avg_Latency = utils_Avg (txsLatency oblock),
          rb_Slot = Slot oblock, BlockStatus = BlockState_String (BlockState oblock), rb_LastBlockHash = LastBlockHash oblock,
          rb_BlockHash = bytes_of (BlockHash oblock), TxNum = int (length (Txs oblock)), rb_ValidatorAddr = ValidatorAddr oblock,
          rb_BlockPrecommitTime = seconds (TimePrecommit oblock), rb_BlockCommitTime = seconds (TimeCommit oblock),
          TotalConsensusTime = seconds (TimeConsensus oblock), ConsensusStartTime = UnixNano (ProposalTime oblock),
          ConsensusEndTime = BlockCommitTime oblock\<rparr>)"

text \<open>The loop over the blocks; \<open>CalculateTime\<close> changes the blocks themselves.\<close>

fun rpc_BlockTree_loop :: "addr list \<Rightarrow> Heap \<Rightarrow> (ResultBlock list \<times> Heap) res" where
  "rpc_BlockTree_loop [] h = Inr ([], h)"
| "rpc_BlockTree_loop (a # as) h =
     (let h1 = updBlock a CalculateTime h in
      rbind (resultBlock (blocks h1 a)) (\<lambda>b. rbind (rpc_BlockTree_loop as h1) (\<lambda>(bs, h2). Inr (b # bs, h2))))"

definition rpc_BlockTree :: "'db World \<Rightarrow> (ResultBlock list \<times> 'db World) res" where
  "rpc_BlockTree w = rbind (GetAllBlocks w) (\<lambda>originBlocks.
     rbind (rpc_BlockTree_loop originBlocks (heap w)) (\<lambda>(bs, h). Inr (bs, setHeap h w)))"

record ResultPerformance = ResultLatency +
  rp_Start :: int
  rp_End :: int
  Tps :: "rat option"

record PerfAcc =
  pa_txs :: int64
  pa_startTime :: rat
  pa_latencies :: "rat list"
  lastCommittedBlock :: "addr option"

text \<open>One round of the loop over the slots.\<close>

definition perf_slot :: "Heap \<Rightarrow> (int \<rightharpoonup> addr) \<Rightarrow> int \<Rightarrow> PerfAcc \<Rightarrow> PerfAcc res" where
  "perf_slot h slotBlocks i acc = (case slotBlocks i of
      None \<Rightarrow> Inr acc
    | Some a \<Rightarrow>
        let oblock = blocks h a in
        if BlockState oblock \<noteq> CommittedBlock then Inr acc
        else
          let acc1 = acc\<lparr>pa_startTime := (if pa_startTime acc = 0 then seconds (UnixNano (ProposalTime oblock)) else pa_startTime acc),
                         pa_txs := pa_txs acc + of_nat (length (Txs oblock)), lastCommittedBlock := Some a\<rparr>
          in rbind (utils_Mean (txsLatency oblock)) (\<lambda>m.
             Inr (if m > 0 then acc1\<lparr>pa_latencies := pa_latencies acc1 @ [m]\<rparr> else acc1)))"

fun perf_loop :: "Heap \<Rightarrow> (int \<rightharpoonup> addr) \<Rightarrow> int list \<Rightarrow> PerfAcc \<Rightarrow> PerfAcc res" where
  "perf_loop h slotBlocks [] acc = Inr acc"
| "perf_loop h slotBlocks (i # is) acc = rbind (perf_slot h slotBlocks i acc) (perf_loop h slotBlocks is)"

text \<open>
  \<open>performance\<close>. The capacity of the slice must not be negative; the arguments are far from the ends of the 64-bit range, so that
  the arithmetic on them is exact.
\<close>

definition performance :: "'db World \<Rightarrow> int \<Rightarrow> int \<Rightarrow> ResultPerformance option res" where
  "performance w start stop =
     rbind (GetAllBlocks w) (\<lambda>bl.
     let slotBlocks = foldl (\<lambda>m a. m(sint (Int64 (Slot (blocks (heap w) a))) \<mapsto> a)) Map.empty bl in
     if stop - start + 1 < 0 then Inl (Panic ''makeslice: cap out of range'')
     else
       rbind (perf_loop (heap w) slotBlocks [start..stop] \<lparr>pa_txs = 0, pa_startTime = 0, pa_latencies = [], lastCommittedBlock = None\<rparr>) (\<lambda>acc.
       case lastCommittedBlock acc of
         None \<Rightarrow> Inr None
       | Some a \<Rightarrow>
           let endTime = seconds (BlockCommitTime (blocks (heap w) a)); diff = endTime - pa_startTime acc in
           rbind (utils_Mean (pa_latencies acc)) (\<lambda>mean.
           Inr (Some \<lparr>rl_TxNum = sint (pa_txs acc), Max_Latency = utils_Max (pa_latencies acc), Min_Latency = utils_Min (pa_latencies acc),
                      Mean_Latency = mean, Avg_Latency = utils_Avg (pa_latencies acc), rp_Start = start, rp_End = stop,
                      Tps = (if diff = 0 then None else Some (of_int (sint (pa_txs acc)) / diff))\<rparr>))))"

section \<open>Statistics of a list\<close>

lemma foldl_larger: "foldl (\<lambda>res d. if d > res then d else res) (m :: rat) xs = Max (insert m (set xs))"
proof (induction xs arbitrary: m)
  case (Cons x xs)
  have "(if x > m then x else m) = max m x" by (simp add: max_def)
  then show ?case using Cons [of "max m x"] by (cases "set xs = {}") (simp_all add: max.assoc)
qed simp

lemma foldl_smaller: "foldl (\<lambda>res d. if d < res then d else res) (m :: rat) xs = Min (insert m (set xs))"
proof (induction xs arbitrary: m)
  case (Cons x xs)
  have "(if x < m then x else m) = min m x" by (simp add: min_def)
  then show ?case using Cons [of "min m x"] by (cases "set xs = {}") (simp_all add: min.assoc)
qed simp

lemma foldl_plus: "foldl (+) (a :: rat) xs = a + sum_list xs"
  by (induction xs arbitrary: a) (simp_all add: add.assoc)

lemma utils_Mean_cases:
  "utils_Mean data =
     (if data = [] then Inr (-1)
      else if odd (length data) then Inr (sort data ! (length data div 2))
      else if length data = 2 then Inl BadIndex
      else Inr ((sort data ! (length data div 2) + sort data ! (length data div 2 + 1)) / 2))"
proof -
  have "length data div 2 + 1 < length data" if even: "even (length data)" "data \<noteq> []" "length data \<noteq> 2"
  proof -
    obtain k where k: "length data = 2 * k" using even(1) by (rule evenE)
    moreover have "length data \<noteq> 0" using even(2) by simp
    ultimately have "k \<noteq> 0" "k \<noteq> 1" using even(3) by auto
    with k show ?thesis by simp
  qed
  then show ?thesis
    by (auto simp: utils_Mean_def Let_def index_def odd_iff_mod_2_eq_one nat_add_distrib)
qed

text \<open>
  The statistics of latencies: for a list that is not empty, \<open>Max\<close> and \<open>Min\<close> are its largest and smallest element and \<open>Avg\<close> its
  average; for the empty list all are -1. \<open>Mean\<close> is the median of an odd number of values.
\<close>

theorem statistics_correct:
  "(if data = [] then utils_Max data = -1 \<and> utils_Min data = -1 \<and> utils_Avg data = -1 \<and> utils_Mean data = Inr (-1)
    else utils_Max data = Max (set data) \<and> utils_Min data = Min (set data)
       \<and> utils_Avg data = sum_list data / of_nat (length data)
       \<and> (odd (length data) \<longrightarrow> utils_Mean data = Inr (sort data ! (length data div 2))))"
proof (cases data)
  case (Cons x xs)
  then show ?thesis using foldl_larger [of x data] foldl_smaller [of x data]
    by (simp add: utils_Max_def utils_Min_def utils_Avg_def utils_Mean_cases foldl_plus)
qed (simp add: utils_Max_def utils_Min_def utils_Avg_def utils_Mean_def)

theorem statistics_correct_witness: "utils_Mean [3, 1, 2] = Inr 2"
  using statistics_correct [of "[3, 1, 2]"] by simp

text \<open>
  For an even number of values \<open>Mean\<close> looks one place too far: of two values it panics, and of four or more it averages the two
  values after the middle.
\<close>

theorem Mean_even_wrong:
  "utils_Mean [x, y] = Inl BadIndex \<and> utils_Mean [1, 2, 3, 4] = Inr (7 / 2)"
  by (simp add: utils_Mean_cases)

section \<open>Queries\<close>

lemma CalculateTime_latency [simp]: "txsLatency (CalculateTime b) = txsLatency b"
  by (simp add: txsLatency_def CalculateTime_def)

lemma loop_panics:
  "a \<in> set as \<Longrightarrow> length (txsLatency (blocks h a)) = 2 \<Longrightarrow> rpc_BlockTree_loop as h = Inl BadIndex"
proof (induction as arbitrary: h)
  case (Cons b as)
  show ?case
  proof (cases "length (txsLatency (blocks h b)) = 2")
    case True
    then show ?thesis by (auto simp: Let_def resultBlock_def utils_Mean_cases)
  next
    case False
    then have a: "a \<in> set as" using Cons.prems by auto
    have "length (txsLatency (blocks (updBlock b CalculateTime h) a)) = 2" using Cons.prems(2) by auto
    from Cons.IH [OF a this] have "rpc_BlockTree_loop as (updBlock b CalculateTime h) = Inl BadIndex" .
    moreover have "\<exists>m. utils_Mean (txsLatency (blocks h b)) = Inr m" using False utils_Mean_cases [of "txsLatency (blocks h b)"] by metis
    ultimately show ?thesis by (auto simp: Let_def resultBlock_def)
  qed
qed simp

text \<open>
  The block tree query fails because of that: as soon as one block of the chain has exactly two transactions that were sent before the block
  committed, it panics.
\<close>

theorem BlockTree_query_panics:
  assumes "GetAllBlocks w = Inr bl" "a \<in> set bl" "length (txsLatency (blocks (heap w) a)) = 2"
  shows "rpc_BlockTree w = Inl BadIndex"
  using assms(1) loop_panics [OF assms(2,3)] by (simp add: rpc_BlockTree_def)

end
