(* ===== verification/GenesisProps.thy ===== *)
theory GenesisProps
  imports ChainProps Genesis
begin

text \<open>What \<open>ValidateAndComplete\<close> of types/genesis.go guarantees of a document that it accepts.\<close>

lemma completeValidators_ok:
  "completeValidators e vs = Inr (Inr vs') \<Longrightarrow>
     map gv_PubKey vs' = map gv_PubKey vs
   \<and> (\<forall>v \<in> set vs'. \<exists>pk. gv_PubKey v = Some pk \<and> (gv_Address v = pkAddress e pk))"
proof (induction vs arbitrary: vs')
  case (Cons v vs)
  then obtain r where r: "completeValidators e vs = Inr r" by (auto split: if_split_asm)
  with Cons.prems obtain pk ws where "gv_PubKey v = Some pk" "completeValidators e vs = Inr (Inr ws)"
    "\<not> (length (gv_Address v) > 0 \<and> pkAddress e pk \<noteq> gv_Address v)"
    "vs' = (if length (gv_Address v) = 0 then v\<lparr>gv_Address := pkAddress e pk\<rparr> else v) # ws"
    by (cases r) (auto simp: Let_def split: if_split_asm)
  with Cons.IH [of ws] show ?case by auto
qed simp

lemma completeValidators_done:
  "\<forall>v \<in> set vs. \<exists>pk. gv_PubKey v = Some pk \<and> gv_Address v = pkAddress e pk \<Longrightarrow> completeValidators e vs = Inr (Inr vs)"
  by (induction vs) auto

lemma newValidators_addresses:
  "\<forall>v \<in> set vs. \<exists>pk. gv_PubKey v = Some pk \<and> gv_Address v = pkAddress e pk \<Longrightarrow>
     newValidators e vs = Inr (map (\<lambda>v. \<lparr>val_Address = gv_Address v, val_PubKey = gv_PubKey v\<rparr>) vs)"
  by (induction vs) (auto simp: NewValidator_def)

text \<open>
  (C30) A genesis document that passes the check has a chain id of 1 to 50 characters and a slot that is not negative, keeps the keys of its
  validators, and gives every validator the address of its key; checking it again changes nothing, and the validator set of the first
  state then has exactly these addresses and keys, in the same order.
\<close>

theorem ValidateAndComplete_completes:
  assumes "ValidateAndComplete e now doc = Inr (Inr doc')"
  shows "0 < length (gd_ChainID doc') \<and> length (gd_ChainID doc') \<le> 50 \<and> 0 \<le> sint (gd_InitialSlot doc')
    \<and> map gv_PubKey (gd_Validators doc') = map gv_PubKey (gd_Validators doc)
    \<and> (now \<noteq> zeroTime \<longrightarrow> ValidateAndComplete e now' doc' = Inr (Inr doc'))
    \<and> GenesisDoc_ValidatorSet e doc' = Inr \<lparr>Validators = map (\<lambda>v. \<lparr>val_Address = gv_Address v, val_PubKey = gv_PubKey v\<rparr>) (gd_Validators doc')\<rparr>"
proof -
  obtain r where r: "completeValidators e (gd_Validators doc) = Inr r"
    using assms by (auto simp: ValidateAndComplete_def split: if_split_asm)
  with assms obtain vs where vs: "completeValidators e (gd_Validators doc) = Inr (Inr vs)" and
    g: "gd_ChainID doc \<noteq> []" "length (gd_ChainID doc) \<le> 50" "0 \<le> sint (gd_InitialSlot doc)" and
    doc': "doc' = doc\<lparr>gd_Validators := vs, GenesisTime := (if GenesisTime doc = zeroTime then now else GenesisTime doc)\<rparr>"
    by (cases r) (auto simp: ValidateAndComplete_def MaxChainIDLen_def not_less split: if_split_asm)
  note c = completeValidators_ok [OF vs]
  then show ?thesis using g completeValidators_done [of vs e] newValidators_addresses [of vs e]
    by (auto simp: doc' ValidateAndComplete_def MaxChainIDLen_def GenesisDoc_ValidatorSet_def NewValidatorSet_def)
qed

definition demoDoc :: GenesisDoc where
  "demoDoc = \<lparr>GenesisTime = 0, gd_ChainID = ''chain'', gd_InitialSlot = 0,
     gd_Validators = [\<lparr>gv_Address = [], gv_PubKey = Some (pad32 ''k1''), gv_Name = []\<rparr>],
     PubValidator = \<lparr>gv_Address = [], gv_PubKey = None, gv_Name = []\<rparr>, gd_SupportQuorum = NewQuorum, AppHash = []\<rparr>"

theorem ValidateAndComplete_completes_witness:
  "\<exists>doc'. ValidateAndComplete plainCrypto 5 demoDoc = Inr (Inr doc') \<and> map gv_PubKey (gd_Validators doc') = [Some (pad32 ''k1'')]"
proof -
  obtain doc' where d: "ValidateAndComplete plainCrypto 5 demoDoc = Inr (Inr doc')"
    by (simp add: ValidateAndComplete_def demoDoc_def MaxChainIDLen_def Let_def)
  from ValidateAndComplete_completes [OF d] d show ?thesis by (simp add: demoDoc_def)
qed

end
