(* ===== verification/NodeProps.thy ===== *)
theory NodeProps
  imports NodeFacts NodeCommits Demo Evidence RpcStats GenesisProps
begin

text \<open>
  Properties of the running node: the theorems about worlds that the transition system reaches, the rules by which a proposal is voted
  on and a vote is accepted, the search for evidence, and the concrete runs of \<open>Demo\<close> on which they are applied.
\<close>

section \<open>Reachable worlds\<close>


theorem quorum_authentic_witness:
  "\<exists>vs. GetVotesBySlot (VoteSet (cs demoVoted)) 1 = Some vs
     \<and> 3 \<le> card {ValidatorAddress v | v. v \<in> set (votes vs) \<and> v_Type v = SupportVote \<and> v_Slot v = 1}"
proof -
  obtain vs where vs: "GetVotesBySlot (VoteSet (cs demoVoted)) 1 = Some vs" "q_Type (TryGenQuorum plainCrypto vs Threshold) = SupportQuorum"
    using demo_q by (auto split: option.splits)
  from quorum_authentic [OF demo_starts demoVoted_reachable vs] vs(1) show ?thesis by blast
qed

theorem fresh_node_started_witness:
  "\<exists>w w'. NewNode plainCrypto demoPV demoGen 0 () = Inr w \<and> Reactor_OnStart 5000000000 w = Inr w' \<and> started w'"
proof -
  obtain w where w: "NewNode plainCrypto demoPV demoGen 0 () = Inr w" "Reactor_OnStart 5000000000 w = Inr demoStart"
    by (rule demo_node)
  with fresh_node_started [OF w] show ?thesis by blast
qed


lemma demo_validators: "length (Validators (cs_Validators (cs demoStart))) = 4" "sint (curslot (slot_clock (cs demoStart))) = 0"
  by code_simp+


text \<open>
  (C2) Commits are final and consistent: in whatever order a node receives messages, timeouts and events, with a store that does not fail, its
  block tree has no hash twice, every block but the root names the hash of its parent, and the ancestors of a committed block are committed; and
  from one world to any later one the tree only grows and no block of it that is committed ever ceases to be.
\<close>

theorem commits_final:
  assumes "NewNode e pv genDoc now d = Inr w" "Reactor_OnStart tmnow w = Inr w0" "never_errs store"
    and "reachable e store w0 w1" "reachable e store w1 w2"
  defines "t \<equiv> \<lambda>w. theTree (cs_state (cs w)) (heap w)"
  shows "unique_hashes (heap w2) (t w2) \<and> linked (heap w2) (t w2) \<and> commits_closed (heap w2) (t w2)
    \<and> (\<exists>new. map tn_data (bt_nodes (t w2)) = map tn_data (bt_nodes (t w1)) @ new)
    \<and> (\<forall>a \<in> tree_blocks (t w1). committed (heap w1) a \<longrightarrow> committed (heap w2) a)"
proof -
  obtain dur where w0: "w0 = updClock (ResetClock dur) w" using assms(2) by (auto simp: Reactor_OnStart_def Let_def)
  have "chain_ok w0" using chain_ok_mono [OF chain_ok_NewNode [OF assms(1)], of w0] by (simp add: w0 over_def updClock_def updCs_def tocked_def)
  from chain_ok_reachable [OF assms(4) this _ assms(3)] have "chain_ok w1" "machine_invar w1"
    using slot_invar_started [OF NewNode_started [OF assms(1,2)]] by auto
  from chain_ok_reachable [OF assms(5) this assms(3)] show ?thesis
    by (simp add: chain_ok_def tree_ok_def root_chain_def tree_invar_def grows_def t_def)
qed

lemma demo_root: "committed (heap demoStart) 0" "0 \<in> tree_blocks (theTree (cs_state (cs demoStart)) (heap demoStart))"
  unfolding committed_def by code_simp+

theorem commits_final_witness: "committed (heap demoSlot) 0"
proof -
  obtain w where w: "NewNode plainCrypto demoPV demoGen 0 () = Inr w" "Reactor_OnStart 5000000000 w = Inr demoStart"
    by (rule demo_node)
  have "never_errs okStore" by (simp add: never_errs_def okStore_def)
  from commits_final [OF w this reachable.init demoSlot_reachable] demo_root show ?thesis by blast
qed

section \<open>Proposals and votes\<close>


definition wrongSlot :: Proposal where
  "wrongSlot = zeroProposal 0"

lemma demo_rejects: "(case defaultSetProposal plainCrypto demoInput wrongSlot demoSlot of Inl _ \<Rightarrow> False | Inr (w', err) \<Rightarrow> err \<noteq> None)"
  by code_simp


text \<open>
  (C21) Votes arrive: a vote that a validator signs with its key file is accepted by every node that has the same chain id and lists the validator
  with that key under the vote's index, unless the node already has a vote of this validator for the slot; and it is then counted.
\<close>

theorem signed_vote_accepted:
  assumes "sign_laws e" "SignVote e (FilePV k) (st_ChainID (cs_state (cs w))) v = Inr v'"
    and "GetByAddress (cs_Validators (cs w)) (ValidatorAddress v) = (ValidatorIndex v, Some val)"
    and "val_PubKey val = Some pub" "privPubKey e (pvk_PrivKey k) = Some pub"
  shows "\<exists>w' err. TryAddVote e v' w = Inr (w', err = None, err)
    \<and> (err = None \<longleftrightarrow> (\<forall>vs. VoteSet (cs w) (v_Slot v) = Some vs \<longrightarrow> (\<forall>u \<in> set (votes vs). \<not> Vote_Equal (Some u) (Some v))))
    \<and> (err = None \<longrightarrow> (\<exists>vs. VoteSet (cs w') (v_Slot v) = Some vs \<and> v' \<in> set (votes vs)))"
  using assms by (rule TryAddVote_signed)

lemma demo_listed:
  "st_ChainID (cs_state (cs demoStart)) = ''chain''"
  "GetByAddress (cs_Validators (cs demoStart)) (take 20 (pad32 ''k1'')) = (0, Some \<lparr>val_Address = take 20 (pad32 ''k1''), val_PubKey = Some (pad32 ''k1'')\<rparr>)"
  by code_simp+

lemma demo_draft: "ValidatorAddress (demoDraft 0) = take 20 (pad32 ''k1'')" "ValidatorIndex (demoDraft 0) = 0"
  by (simp_all add: demoDraft_def demoKeys_def)

lemma demo_signs: "SignVote plainCrypto (FilePV demoPV) ''chain'' (demoDraft 0)
    = Inr ((demoDraft 0)\<lparr>v_Signature := pad32 ''k1'' @ VoteSignBytes plainCrypto ''chain'' (demoDraft 0)\<rparr>)"
  by (simp add: signWith_def demoPV_def, simp add: plainCrypto_def)

theorem signed_vote_accepted_witness:
  "\<exists>v' w' err. SignVote plainCrypto (FilePV demoPV) ''chain'' (demoDraft 0) = Inr v' \<and> TryAddVote plainCrypto v' demoStart = Inr (w', err = None, err)"
proof -
  have "privPubKey plainCrypto (pvk_PrivKey demoPV) = Some (pad32 ''k1'')" by (simp add: demoPV_def plainCrypto_def)
  from signed_vote_accepted [OF plainCrypto_laws(2), of demoPV demoStart "demoDraft 0", unfolded demo_listed demo_draft, OF demo_signs refl _ this]
  show ?thesis using demo_signs by auto
qed

section \<open>Messages from the network\<close>

lemma demo_receive: "\<not> isl (Receive plainCrypto demoInput (\<lambda>_. Inr (demoVote 0)) (\<lambda>_. Inl []) 0 VoteChannel ''vote'' demoStart)"
  by code_simp



section \<open>Commit evidence\<close>



text \<open>
  (C27) It need not end otherwise: a pending block whose evidence is a support quorum for its own hash, which nothing in the code rules out, keeps the
  search running for ever, with the mutex of the consensus state held.
\<close>

theorem evidence_search_diverges:
  assumes "set_hashed st h" "evidence_of st h b = [b]"
  shows "updateEvidences_loop e st n [b] h = Inl NoFuel"
  using assms by (rule updateEvidences_loop_diverges)

definition loopHeap :: Heap where
  "loopHeap = updBlock 2 (\<lambda>b. b\<lparr>Evidences := [NewQuorum\<lparr>q_Type := SupportQuorum, q_BlockHash := ''b''\<rparr>]\<rparr>) demoHeap"

theorem evidence_search_diverges_witness:
  "updateEvidences_loop plainCrypto demoState 1000 [2] loopHeap = Inl NoFuel"
  by (rule evidence_search_diverges)
    (simp_all add: loopHeap_def set_hashed_def evidence_of_def supported_def map_filter_def BlockSet_QueryBlockByHash_def demoBlock_def NewQuorum_def)

section \<open>Queries\<close>

text \<open>The chain with two transactions in the pending block \<open>b\<close>, which commits after both were sent.\<close>

definition twoTxs :: "unit World" where
  "twoTxs = demoStart\<lparr>cs := (cs demoStart)\<lparr>cs_state := demoState\<rparr>,
     heap := updBlock 2 (\<lambda>b. b\<lparr>Txs := [NewTx, NewTx], BlockCommitTime := 5\<rparr>) demoHeap\<rparr>"

lemma twoTxs_blocks: "GetAllBlocks twoTxs = Inr [0, 1, 2]" "length (txsLatency (blocks (heap twoTxs) 2)) = 2"
  by code_simp+

theorem BlockTree_query_panics_witness: "rpc_BlockTree twoTxs = Inl BadIndex"
  by (rule BlockTree_query_panics [OF twoTxs_blocks(1) _ twoTxs_blocks(2)]) simp

end
