(* ===== verification/Forks.thy ===== *)
theory Forks
  imports Demo
begin

text \<open>
  Whether the committed blocks are one chain. \<open>decideCommitBlocks\<close> of state/state.go takes the newest pending block that is ready, on
  whatever branch of the tree it lies. This theory shows what that does to a chain of committed blocks, when it stays one, and how a
  proposal with evidence that nobody signed makes it fork; what the signature of a proposal covers; and how votes for different blocks are counted.
\<close>

section \<open>Branches\<close>

definition committed_nodes :: "Heap \<Rightarrow> BlockTree \<Rightarrow> nat set" where
  "committed_nodes h t = {n. n < length (bt_nodes t) \<and> \<not> uncommitted h t n}"

text \<open>Node \<open>m\<close> is on the path from \<open>n\<close> to the root.\<close>

abbreviation on_path :: "BlockTree \<Rightarrow> nat \<Rightarrow> nat \<Rightarrow> bool" where
  "on_path t m n \<equiv> m \<in> set (up (bt_nodes t) n)"

lemma up_mono:
  assumes "wf_nodes ns"
  shows "i < length ns \<Longrightarrow> j \<in> set (up ns i) \<Longrightarrow> set (up ns j) \<subseteq> set (up ns i)"
proof (induction i rule: less_induct)
  case (less i)
  show ?case
  proof (cases "tn_parent (ns ! i)")
    case None
    then show ?thesis using less.prems by (simp add: up_None)
  next
    case (Some p)
    have "p < i" using wf_nodes_parent(1) [OF assms less.prems(1) Some] .
    then show ?thesis using less.IH [of p] less.prems by (auto simp: up_Some [OF assms less.prems(1) Some])
  qed
qed

text \<open>Two nodes on one path are comparable.\<close>

lemma up_comparable:
  assumes "wf_nodes ns"
  shows "m < length ns \<Longrightarrow> i \<in> set (up ns m) \<Longrightarrow> j \<in> set (up ns m) \<Longrightarrow> i \<in> set (up ns j) \<or> j \<in> set (up ns i)"
proof (induction m rule: less_induct)
  case (less m)
  show ?case
  proof (cases "tn_parent (ns ! m)")
    case None
    then show ?thesis using less.prems by (simp add: up_None)
  next
    case (Some p)
    have "p < m" using wf_nodes_parent(1) [OF assms less.prems(1) Some] .
    then show ?thesis using less.IH [of p] less.prems by (auto simp: up_Some [OF assms less.prems(1) Some])
  qed
qed

lemma self_up [simp]: "i \<in> set (up ns i)"
  using up.simps [of ns i] by simp

lemma one_path_iff:
  assumes wf: "wf_nodes ns" and n: "n < length ns" and k: "k < length ns"
  shows "(\<exists>m < length ns. set (up ns n) \<union> set (up ns k) = set (up ns m)) \<longleftrightarrow> n \<in> set (up ns k) \<or> k \<in> set (up ns n)"
proof
  assume "\<exists>m < length ns. set (up ns n) \<union> set (up ns k) = set (up ns m)"
  then obtain m where m: "m < length ns" "set (up ns n) \<union> set (up ns k) = set (up ns m)" by blast
  then have "n \<in> set (up ns m)" "k \<in> set (up ns m)" by (metis UnI1 UnI2 self_up)+
  then show "n \<in> set (up ns k) \<or> k \<in> set (up ns n)" using up_comparable [OF wf m(1)] by blast
next
  assume "n \<in> set (up ns k) \<or> k \<in> set (up ns n)"
  then have "set (up ns n) \<union> set (up ns k) = set (up ns k) \<or> set (up ns n) \<union> set (up ns k) = set (up ns n)"
    using up_mono [OF wf k] up_mono [OF wf n] by blast
  then show "\<exists>m < length ns. set (up ns n) \<union> set (up ns k) = set (up ns m)" using n k by metis
qed

lemma up_add_node:
  assumes "wf_nodes ns" "p < length ns"
  shows "i < length ns \<Longrightarrow> up (add_node p a ns) i = up ns i"
proof (induction i rule: less_induct)
  case (less i)
  have par: "tn_parent (add_node p a ns ! i) = tn_parent (ns ! i)" using nth_add_node [OF assms(2), of i a] less.prems by (auto split: if_splits)
  show ?case using less par by (subst (1 2) up.simps) (auto split: option.split)
qed

section \<open>What a commit adds\<close>

lemma tn_data_inj:
  assumes "chain_invar h t" "i < length (bt_nodes t)" "j < length (bt_nodes t)" "tn_data (bt_nodes t ! i) = tn_data (bt_nodes t ! j)"
  shows "i = j"
  using chain_invarD(1) [OF assms(1)] assms(2-4) unfolding tree_invar_def unique_hashes_def inj_on_def node_hash_def by auto

lemma committed_AddBlocks:
  assumes inv: "chain_invar h t" and new: "\<not> committed h a" and add: "AddBlocks h x a t = Inr (t', err)"
  shows "committed_nodes h t' = committed_nodes h t" "length (bt_nodes t) \<le> length (bt_nodes t')"
    "n < length (bt_nodes t) \<Longrightarrow> up (bt_nodes t') n = up (bt_nodes t) n"
proof -
  note wf = chain_invarD(4,5) [OF inv]
  have "committed_nodes h t' = committed_nodes h t \<and> length (bt_nodes t) \<le> length (bt_nodes t')
    \<and> (n < length (bt_nodes t) \<longrightarrow> up (bt_nodes t') n = up (bt_nodes t) n)"
  proof (cases err)
    case (Some y)
    then have "t' = t" using AddBlocks_cases [OF wf(1), of h x a] add by auto
    then show ?thesis by simp
  next
    case None
    obtain q where q: "q < length (bt_nodes t)" "bt_nodes t' = add_node q a (bt_nodes t)" using AddBlocks_ok [OF wf(1)] add None by blast
    have "i \<le> length (bt_nodes t) \<Longrightarrow> uncommitted h t' i = (i = length (bt_nodes t) \<or> uncommitted h t i)" for i
      using node_block_AddBlocks [OF wf(1)] add None new by (auto simp: uncommitted_def committed_def)
    then show ?thesis using q up_add_node [OF wf(2) q(1)] by (auto simp: committed_nodes_def less_Suc_eq_le order.strict_iff_order)
  qed
  then show "committed_nodes h t' = committed_nodes h t" "length (bt_nodes t) \<le> length (bt_nodes t')"
    "n < length (bt_nodes t) \<Longrightarrow> up (bt_nodes t') n = up (bt_nodes t) n" by simp_all
qed

text \<open>A path and its uncommitted part add the same to an ancestor-closed set of committed nodes.\<close>

lemma committed_takeWhile:
  assumes wf: "wf_nodes (bt_nodes t)" and m: "m < length (bt_nodes t)" and n: "n < length (bt_nodes t)"
    and c: "committed_nodes h t = set (up (bt_nodes t) n)"
  shows "committed_nodes h t \<union> set (takeWhile (uncommitted h t) (up (bt_nodes t) m)) = committed_nodes h t \<union> set (up (bt_nodes t) m)"
  using m
proof (induction m rule: less_induct)
  case (less m)
  show ?case
  proof (cases "uncommitted h t m")
    case False
    then have "m \<in> set (up (bt_nodes t) n)" using less.prems c by (auto simp: committed_nodes_def)
    then have "set (up (bt_nodes t) m) \<subseteq> committed_nodes h t" using up_mono [OF wf n] c by simp
    moreover have "takeWhile (uncommitted h t) (up (bt_nodes t) m) = []" using False by (subst up.simps) simp
    ultimately show ?thesis by auto
  next
    case True
    show ?thesis
    proof (cases "tn_parent (bt_nodes t ! m)")
      case None
      then show ?thesis using True by (simp add: up_None)
    next
      case (Some p)
      have "p < m" using wf_nodes_parent(1) [OF wf less.prems Some] .
      then show ?thesis using less.IH [of p] less.prems True by (auto simp: up_Some [OF wf less.prems Some])
    qed
  qed
qed

text \<open>The nodes of the blocks that are committed together with \<open>b\<close>: a path.\<close>

lemma pending_path:
  assumes inv: "chain_invar h t" and n: "n < length (bt_nodes t)" and c: "committed_nodes h t = set (up (bt_nodes t) n)"
  shows "\<exists>k < length (bt_nodes t). committed_nodes h t \<union> {i. i < length (bt_nodes t) \<and> tn_data (bt_nodes t ! i) \<in> set (b # pending_above h t b)}
    = committed_nodes h t \<union> set (up (bt_nodes t) k)"
proof -
  let ?ns = "bt_nodes t" and ?C = "committed_nodes h t"
  let ?B = "{i. i < length ?ns \<and> tn_data (?ns ! i) = b}"
  note wf = chain_invarD(5) [OF inv]
  have root: "0 \<in> ?C" using chain_invarD(3) [OF inv] wf_nodes_nonempty [OF wf] by (simp add: committed_nodes_def)
  have par: "node_hash h t q = LastBlockHash (blocks h b)" "q < length ?ns" if "i \<in> ?B" "tn_parent (?ns ! i) = Some q" for i q
    using chain_invarD(2) [OF inv] that wf_nodes_parent(1) [OF wf] by (auto simp: linked_def node_block_def)
      (meson less_trans)
  have top: "i \<in> ?C" if "i \<in> ?B" "tn_parent (?ns ! i) = None" for i
    using that wf_nodes_root_only [OF wf] root by auto
  show ?thesis
  proof (cases "\<exists>m. queryNodeByHash h t (LastBlockHash (blocks h b)) = Inr (Some m)")
    case False
    then have p: "pending_above h t b = []" by (auto simp: pending_above_def split: sum.splits option.splits)
    have "?B \<subseteq> ?C"
    proof
      fix i assume i: "i \<in> ?B"
      then have "tn_parent (?ns ! i) = None"
        using par [OF i] queryNodeByHash_unique [OF chain_invarD(1) [OF inv]] False by (cases "tn_parent (?ns ! i)") metis+
      then show "i \<in> ?C" using top i by blast
    qed
    then show ?thesis using n c p by (intro exI [of _ n]) auto
  next
    case True
    then obtain m where q: "queryNodeByHash h t (LastBlockHash (blocks h b)) = Inr (Some m)" by blast
    have m: "m < length ?ns" "node_hash h t m = LastBlockHash (blocks h b)"
      using queryNodeByHash_Some [OF chain_invarD(4) [OF inv] q] by simp_all
    let ?T = "takeWhile (uncommitted h t) (up ?ns m)"
    have T: "set ?T \<subseteq> {..<length ?ns}" using up_bounds [OF wf m(1)] set_takeWhileD by fastforce
    have "{i. i < length ?ns \<and> tn_data (?ns ! i) \<in> set (b # pending_above h t b)} = ?B \<union> set ?T"
      using q T tn_data_inj [OF inv] by (auto simp: pending_above_def)
    then have sum: "?C \<union> {i. i < length ?ns \<and> tn_data (?ns ! i) \<in> set (b # pending_above h t b)} = ?B \<union> (?C \<union> set (up ?ns m))"
      using committed_takeWhile [OF wf m(1) n c] by blast
    show ?thesis
    proof (cases "?B \<subseteq> ?C")
      case True
      then show ?thesis using sum m(1) by (intro exI [of _ m]) auto
    next
      case False
      then obtain k where k: "k \<in> ?B" "k \<notin> ?C" by blast
      then obtain r where r: "tn_parent (?ns ! k) = Some r" using top by blast
      then have "r = m" using par [OF k(1) r] m chain_invarD(1) [OF inv] by (auto simp: tree_invar_def unique_hashes_def inj_on_def)
      then have "up ?ns k = k # up ?ns m" using up_Some [OF wf _ r] k(1) by simp
      moreover have "?B = {k}" using k(1) tn_data_inj [OF inv] by auto
      ultimately show ?thesis using sum k(1) by (intro exI [of _ k]) auto
    qed
  qed
qed

text \<open>Applying a block adds one path to the committed blocks, possibly none.\<close>

lemma ApplyBlock_adds_path:
  assumes ta: "st_BlockTree st = Some ta" and inv: "chain_invar h (trees h ta)" and n: "n < length (bt_nodes (trees h ta))"
    and c: "committed_nodes h (trees h ta) = set (up (bt_nodes (trees h ta)) n)"
    and hash: "BlockHash (blocks h a) \<noteq> None" and new: "\<not> committed h a" and store: "never_errs commitBlock"
    and res: "ApplyBlock e commitBlock now st a h d = Inr (st', err, h', d')"
  shows "chain_invar h' (trees h' ta) \<and> n < length (bt_nodes (trees h' ta)) \<and> (\<exists>k < length (bt_nodes (trees h' ta)).
    committed_nodes h' (trees h' ta) = set (up (bt_nodes (trees h' ta)) n) \<union> set (up (bt_nodes (trees h' ta)) k))"
proof -
  have ci: "chain_invar h' (trees h' ta)"
    using ApplyBlock_invar [OF _ hash res] inv ta ApplyBlock_config [OF res] by (auto simp: state_invar_def same_config_def)
  show ?thesis using ta res
  proof (cases rule: ApplyBlock_cases)
    case (invalid t x)
    have "committed_nodes h' t = committed_nodes h t" using invalid(5) by (simp add: committed_nodes_def uncommitted_def node_block_def)
    then show ?thesis using committed_AddBlocks [OF inv new invalid(1)] invalid(5) n c ci by (auto intro!: exI [of _ n])
  next
    case (applied t x h2 bl l)
    note add = committed_AddBlocks [OF inv new applied(1)]
    have t: "chain_invar h2 t" "trees h2 ta = t" using chain_invar_AddBlocks [OF inv hash applied(1)] applied(4) by simp_all
    have c2: "committed_nodes h2 t = set (up (bt_nodes t) n)" "n < length (bt_nodes t)"
      using add n c applied(4) by (simp_all add: committed_nodes_def uncommitted_def node_block_def)
    have ok: "commit_outcome st h2 bl (st', l) h'" using Executor_Commit_outcome [OF applied(6)] store by metis
    then have tr: "trees h' ta = t" using t(2) by (simp add: commit_outcome_def)
    have cn: "committed_nodes h' t = committed_nodes h2 t \<union> {i. i < length (bt_nodes t) \<and> tn_data (bt_nodes t ! i) \<in> set bl}"
      using ok by (auto simp: commit_outcome_def committed_nodes_def uncommitted_def node_block_def split: if_splits)
    show ?thesis
    proof (cases "bl = []")
      case True
      then show ?thesis using cn c2 tr ci by auto
    next
      case False
      then obtain b where "bl = rev (pending_above h2 t b) @ [b]"
        using applied(5) decideCommitBlocks_pending [OF ta, of h2 a] t by (auto simp: Let_def split: option.splits)
      then have "set bl = set (b # pending_above h2 t b)" by simp
      then show ?thesis using pending_path [OF t(1) c2(2,1), of b] cn c2 tr ci by auto
    qed
  qed
qed

section \<open>When the committed blocks stay one chain\<close>

text \<open>
  (C5) The committed blocks and forks: let the committed blocks be one path of the tree, from the root to a tip. Applying a block commits
  exactly one further path, the one up to the chosen block, and the committed blocks are one chain again if and only if that path
  passes through the tip or ends below it. The code does not check which of the cases it is in.
\<close>

theorem ApplyBlock_fork_iff:
  assumes "st_BlockTree st = Some ta" "chain_invar h (trees h ta)" "tip < length (bt_nodes (trees h ta))"
    and "committed_nodes h (trees h ta) = set (up (bt_nodes (trees h ta)) tip)"
    and "BlockHash (blocks h a) \<noteq> None" "\<not> committed h a" "never_errs commitBlock"
    and "ApplyBlock e commitBlock now st a h d = Inr (st', err, h', d')"
  shows "\<exists>k < length (bt_nodes (trees h' ta)).
      committed_nodes h' (trees h' ta) = set (up (bt_nodes (trees h' ta)) tip) \<union> set (up (bt_nodes (trees h' ta)) k)
    \<and> ((\<exists>m < length (bt_nodes (trees h' ta)). committed_nodes h' (trees h' ta) = set (up (bt_nodes (trees h' ta)) m))
        \<longleftrightarrow> on_path (trees h' ta) tip k \<or> on_path (trees h' ta) k tip)"
  using ApplyBlock_adds_path [OF assms] one_path_iff [OF chain_invarD(5)] by metis


lemma root_on_path:
  assumes "wf_nodes ns"
  shows "i < length ns \<Longrightarrow> 0 \<in> set (up ns i)"
proof (induction i rule: less_induct)
  case (less i)
  show ?case
  proof (cases "tn_parent (ns ! i)")
    case None
    then have "i = 0" using wf_nodes_root_only [OF assms less.prems] by simp
    then show ?thesis by simp
  next
    case (Some p)
    then show ?thesis using less wf_nodes_parent(1) [OF assms less.prems Some] by (simp add: up_Some [OF assms less.prems Some])
  qed
qed

lemma demo_applies: "\<exists>st' err h' d'. ApplyBlock plainCrypto okStore (\<lambda>_. 0) demoState 3 demoHeap () = Inr (st', err, h', d')"
proof (rule okStore.ApplyBlock_total)
  show "state_invar demoState demoHeap" using demo_chain by (simp add: state_invar_def)
  show "readable demoHeap b" if "b \<in> set (bs_blocks (sets demoHeap (UnCommitBlocks demoState))) \<union> {3}" for b
    using that by (auto simp: readable_def demoBlock_def zeroBlock_def IsReady_def Let_def NewQuorum_def)
qed (simp_all add: demoBlock_def)

theorem ApplyBlock_fork_iff_witness:
  "\<exists>st' err h' d'. ApplyBlock plainCrypto okStore (\<lambda>_. 0) demoState 3 demoHeap () = Inr (st', err, h', d')
    \<and> (\<exists>m < length (bt_nodes (trees h' 0)). committed_nodes h' (trees h' 0) = set (up (bt_nodes (trees h' 0)) m))"
proof -
  obtain st' err h' d' where res: "ApplyBlock plainCrypto okStore (\<lambda>_. 0) demoState 3 demoHeap () = Inr (st', err, h', d')"
    using demo_applies by blast
  have "committed_nodes demoHeap demoTree = set (up (bt_nodes demoTree) 0)"
    by (subst up.simps) (auto simp: committed_nodes_def uncommitted_def node_block_def demoBlock_def less_Suc_eq)
  moreover have "state_invar st' h'" using ApplyBlock_invar [OF _ _ res] demo_chain by (simp add: state_invar_def demoBlock_def)
  then have "wf_nodes (bt_nodes (trees h' 0))"
    using ApplyBlock_config [OF res] chain_invarD(5) by (auto simp: state_invar_def same_config_def)
  ultimately have "\<exists>m < length (bt_nodes (trees h' 0)). committed_nodes h' (trees h' 0) = set (up (bt_nodes (trees h' 0)) m)"
    using ApplyBlock_fork_iff [OF _ _ _ _ _ _ okStore.errs res, of 0 0] demo_chain root_on_path
    by (auto simp: demoBlock_def committed_def)
  then show ?thesis using res by blast
qed

section \<open>A fork\<close>

definition support :: "bytes \<Rightarrow> Quorum" where
  "support x = \<lparr>q_SLot = 0, q_BlockHash = x, q_Type = SupportQuorum, q_Signature = ''forged''\<rparr>"

definition forkBlock :: "string \<Rightarrow> string \<Rightarrow> LTime \<Rightarrow> BlockState \<Rightarrow> bytes list \<Rightarrow> Block" where
  "forkBlock hash parent slot s evs = (demoBlock hash parent slot s)\<lparr>ChainID := ''chain'', ValidatorAddr := take 20 (pad32 ''k2''),
     ValidatorsHash := concat (map pad32 demoKeys), Signature := Some (pad32 ''k2'' @ hash), Evidences := map support evs\<rparr>"

definition forkTree :: BlockTree where
  "forkTree = \<lparr>bt_nodes = [\<lparr>tn_parent = None, tn_children = [1, 2], tn_data = 0\<rparr>, \<lparr>tn_parent = Some 0, tn_children = [], tn_data = 1\<rparr>,
      \<lparr>tn_parent = Some 0, tn_children = [3], tn_data = 2\<rparr>, \<lparr>tn_parent = Some 2, tn_children = [], tn_data = 3\<rparr>], bt_size = 4, bt_root = Some 0, bt_lastNode = 3\<rparr>"

definition forkHeap :: Heap where
  "forkHeap = emptyHeap\<lparr>
     blocks := (\<lambda>i. if i = 0 then demoBlock ''g'' '''' 0 CommittedBlock
                 else if i = 1 then forkBlock ''a'' ''g'' 1 CommittedBlock []
                 else if i = 2 then forkBlock ''b'' ''g'' 5 SuspectBlock []
                 else if i = 3 then forkBlock ''c'' ''b'' 9 SuspectBlock [''b''] else zeroBlock),
     blocksNext := 4, trees := (\<lambda>_. forkTree), treesNext := 1, sets := (\<lambda>_. \<lparr>bs_blocks = [2, 3]\<rparr>), setsNext := 1\<rparr>"

definition forkWorld :: "unit World" where
  "forkWorld = setHeap forkHeap (updCs (\<lambda>c. c\<lparr>CurSlot := 13, LastSlot := 12, slot_clock := (slot_clock c)\<lparr>curslot := 14\<rparr>\<rparr>) demoStart)"

definition forkRun :: "unit World res" where
  "forkRun = (let (a, h) = newBlock (forkBlock ''d'' ''c'' 13 ProposalBlock [''c'']) forkHeap in
     rbind (handleMsg plainCrypto demoInput (ProposalMessage (zeroProposal a)) (setHeap h forkWorld)) (\<lambda>w.
     rbind (enterNewSlot demoInput 14 w) (enterApply plainCrypto okStore demoInput)))"

definition forkOutcome :: "unit World \<Rightarrow> bool" where
  "forkOutcome w \<longleftrightarrow> map tn_parent (bt_nodes (trees (heap w) 0)) = [None, Some 0, Some 0, Some 2, Some 3]
     \<and> map (\<lambda>n. BlockState (blocks (heap w) (tn_data n)) = CommittedBlock) (bt_nodes (trees (heap w) 0)) = [True, True, True, False, False]"

lemma fork_start: "chain_invar forkHeap forkTree" "committed_nodes forkHeap forkTree = set (up (bt_nodes forkTree) 1)"
proof -
  have "wf_tree forkTree" by (auto simp: wf_tree_def wf_nodes_def forkTree_def less_Suc_eq)
  then show "chain_invar forkHeap forkTree"
    by (auto simp: chain_invar_def tree_invar_def unique_hashes_def linked_def hashed_def uncommitted_def node_hash_def node_block_def inj_on_def
        forkHeap_def forkTree_def forkBlock_def demoBlock_def less_Suc_eq split: if_splits)
  show "committed_nodes forkHeap forkTree = set (up (bt_nodes forkTree) 1)"
    by (subst up.simps, subst up.simps)
      (auto simp: committed_nodes_def uncommitted_def node_block_def forkHeap_def forkTree_def forkBlock_def demoBlock_def less_Suc_eq)
qed

lemma fork_runs: "case forkRun of Inl _ \<Rightarrow> False | Inr w \<Rightarrow> forkOutcome w"
  by code_simp


section \<open>What the signature of a proposal covers\<close>

lemma acceptProposal_err:
  assumes "acceptProposal e inp pk p w = Inr (w', err)"
  shows "err = None \<longleftrightarrow> PubVal (cs_state (cs w)) \<noteq> None
    \<and> pkVerify e pk (snd (Block_Hash e (blocks (heap w) (p_Block p)))) (bytes_of (Signature (blocks (heap w) (p_Block p))))"
  using assms by (auto simp: acceptProposal_def ProposalSignBytes_def UpdateState_def hashBlock_def setHeap_def Let_def split_beta split: if_splits)

lemma defaultSetProposal_err:
  assumes "defaultSetProposal e inp p w = Inr (w', err)"
  shows "err = None \<longleftrightarrow> proposal_checked e p w \<and> PubVal (cs_state (cs w)) \<noteq> None"
proof -
  let ?b = "blocks (heap w) (p_Block p)"
  obtain i val where val: "GetByAddress (cs_Validators (cs w)) (ValidatorAddr ?b) = (i, val)" by fastforce
  show ?thesis
  proof (cases "Slot ?b = CurSlot (cs w)")
    case False
    then show ?thesis using assms by (auto simp: defaultSetProposal_def proposal_checked_def Let_def split: if_splits prod.splits option.splits)
  next
    case slot: True
    from assms slot val obtain c1 leader where ip: "isProposer val (cs w) = Inr (c1, leader)" by (auto simp: defaultSetProposal_def Let_def)
    obtain q where q: "c1 = (cs w)\<lparr>Proposer := q\<rparr>" using isProposer_frame [OF ip] by blast
    show ?thesis
    proof (cases "leader \<and> allValid e (Txs ?b) = Inr True")
      case False
      then have "err \<noteq> None" using assms slot val ip by (auto simp: defaultSetProposal_def Let_def split: if_splits)
      moreover have "\<not> proposal_checked e p w" using False val ip by (auto simp: proposal_checked_def Let_def)
      ultimately show ?thesis by simp
    next
      case True
      with assms slot val ip obtain v pk where v: "val = Some v" "val_PubKey v = Some pk"
        and acc: "acceptProposal e inp pk p (w\<lparr>cs := c1\<rparr>) = Inr (w', err)" by (auto simp: defaultSetProposal_def Let_def)
      show ?thesis using acceptProposal_err [OF acc] q True slot val v ip by (auto simp: proposal_checked_def Let_def)
    qed
  qed
qed

text \<open>
  (C20) The leader's signature does not cover the contents of a proposal: the hash that is signed is a field of the message and is not computed
  from the block when it is set. Whoever passes a signed proposal on can give it any valid transactions, any parent and any evidence, and it is
  accepted exactly when the original is.
\<close>

theorem proposal_contents_unsigned:
  assumes "BlockHash (blocks (heap w) (p_Block p)) = Some x"
    and "allValid e (Txs (blocks (heap w) (p_Block p))) = Inr True" "allValid e txs = Inr True"
    and "defaultSetProposal e inp p w = Inr (w1, err)"
    and "defaultSetProposal e inp p (setHeap (updBlock (p_Block p) (\<lambda>b. b\<lparr>Txs := txs, LastBlockHash := parent, Evidences := evs\<rparr>) (heap w)) w)
           = Inr (w2, err')"
  shows "err' = None \<longleftrightarrow> err = None"
proof -
  have "snd (Block_Hash e ((blocks (heap w) (p_Block p))\<lparr>Txs := txs, LastBlockHash := parent, Evidences := evs\<rparr>)) = x"
    using assms(1) by (intro Block_Hash_cached) simp
  then show ?thesis
    using defaultSetProposal_err [OF assms(4)] defaultSetProposal_err [OF assms(5)] assms(1-3) Block_Hash_cached [OF assms(1), of e]
    by (simp add: proposal_checked_def setHeap_def updBlock_def putBlock_def Let_def)
qed

definition signedWorld :: "unit World" where
  "signedWorld = setHeap (snd (newBlock (forkBlock ''d'' ''c'' 13 ProposalBlock [''c'']) forkHeap)) forkWorld"

definition otherTx :: Tx where
  "otherTx = NewTx\<lparr>TxType := SBDepositCheckingTx, Args := [''user'', ''9''], PublicKey := Some (pad32 ''u''),
     tx_Signature := pad32 ''u'' @ SBDepositCheckingTx @ ''user9''\<rparr>"

definition changedWorld :: "unit World" where
  "changedWorld = setHeap (updBlock 4 (\<lambda>b. b\<lparr>Txs := [otherTx], LastBlockHash := ''g'', Evidences := []\<rparr>) (heap signedWorld)) signedWorld"

lemma signed_run: "case defaultSetProposal plainCrypto demoInput (zeroProposal 4) signedWorld of Inl _ \<Rightarrow> False | Inr (w1, err) \<Rightarrow> err = None"
  by code_simp

lemma changed_run: "\<not> isl (defaultSetProposal plainCrypto demoInput (zeroProposal 4) changedWorld)"
  by code_simp

lemma signed_block: "BlockHash (blocks (heap signedWorld) 4) = Some ''d''" "Txs (blocks (heap signedWorld) 4) = []"
  by (simp_all add: signedWorld_def setHeap_def newBlock_def putBlock_def forkHeap_def forkBlock_def demoBlock_def zeroBlock_def)

lemma otherTx_valid: "allValid plainCrypto [otherTx] = Inr True"
  by code_simp

theorem proposal_contents_unsigned_witness:
  "\<exists>w2. defaultSetProposal plainCrypto demoInput (zeroProposal 4) changedWorld = Inr (w2, None)"
proof -
  have b: "p_Block (zeroProposal 4) = 4" by (simp add: zeroProposal_def)
  obtain w1 where w1: "defaultSetProposal plainCrypto demoInput (zeroProposal 4) signedWorld = Inr (w1, None)"
    using signed_run by (auto split: sum.splits)
  obtain r where r: "defaultSetProposal plainCrypto demoInput (zeroProposal 4) changedWorld = Inr r" using Inr_projr [OF changed_run] by blast
  obtain w2 err where r': "r = (w2, err)" by (cases r)
  have "defaultSetProposal plainCrypto demoInput (zeroProposal 4)
      (setHeap (updBlock (p_Block (zeroProposal 4)) (\<lambda>b. b\<lparr>Txs := [otherTx], LastBlockHash := ''g'', Evidences := []\<rparr>) (heap signedWorld)) signedWorld)
    = Inr (w2, err)"
    using r r' by (simp add: b changedWorld_def)
  from proposal_contents_unsigned [OF _ _ _ w1 this] have "err = None" using signed_block otherTx_valid by (simp add: b)
  then show ?thesis using r r' by simp
qed

section \<open>Votes for different blocks\<close>

text \<open>The node takes a list of votes, one after the other, and accepts all of them.\<close>

fun TryAddVotes :: "('s, 'g) Crypto \<Rightarrow> Vote list \<Rightarrow> 'db World \<Rightarrow> 'db World option" where
  "TryAddVotes e [] w = Some w"
| "TryAddVotes e (v # vs) w = (case TryAddVote e v w of
      Inl err \<Rightarrow> None
    | Inr (w', added, err) \<Rightarrow> if added then TryAddVotes e vs w' else None)"

lemma TryAddVote_adds:
  assumes "TryAddVote e v w = Inr (w', True, err)"
  shows "VoteSet (cs w') (v_Slot v) = Some (case VoteSet (cs w) (v_Slot v) of None \<Rightarrow> \<lparr>vs_blockHash = v_BlockHash v, votes = [v]\<rparr>
      | Some vs \<Rightarrow> vs\<lparr>votes := votes vs @ [v]\<rparr>) \<and> LastSlot (cs w') = LastSlot (cs w)"
proof -
  note c = TryAddVote_cases [OF assms]
  then have "AddVote (VoteSet (cs w)) v = (VoteSet (cs w'), None)" by blast
  moreover from c obtain vs where "w' = updCs (\<lambda>c. c\<lparr>VoteSet := vs\<rparr>) w" by blast
  then have "LastSlot (cs w') = LastSlot (cs w)" by (simp add: updCs_def)
  ultimately show ?thesis
    by (auto simp: AddVote_def Let_def voteSet_AddVote_def NewVoteSet_def dest!: sym [of _ "VoteSet (cs w')"] split: if_splits option.splits)
qed

lemma TryAddVotes_collects:
  assumes "\<forall>v \<in> set vl. v_Slot v = slot" "TryAddVotes e vl w = Some w'" "VoteSet (cs w) slot = Some vs"
  shows "VoteSet (cs w') slot = Some (vs\<lparr>votes := votes vs @ vl\<rparr>) \<and> LastSlot (cs w') = LastSlot (cs w)"
  using assms
proof (induction vl arbitrary: w vs)
  case (Cons v vl)
  then obtain w1 err where w1: "TryAddVote e v w = Inr (w1, True, err)" "TryAddVotes e vl w1 = Some w'"
    by (auto split: sum.splits if_splits)
  have "VoteSet (cs w1) slot = Some (vs\<lparr>votes := votes vs @ [v]\<rparr>)" "LastSlot (cs w1) = LastSlot (cs w)"
    using TryAddVote_adds [OF w1(1)] Cons.prems by auto
  then show ?case using Cons.IH [OF _ w1(2)] Cons.prems(1) by simp
qed simp

lemma UpdateBlockState_state [simp]: "BlockState (blocks (UpdateBlockState now a s h) a) = s"
  by (simp add: UpdateBlockState_def updBlock_def putBlock_def Let_def MarkTime_def)

lemma UpdateBlockState_quorum [simp]: "VoteQuorum (blocks (UpdateBlockState now a s h) a) = VoteQuorum (blocks h a)"
  by (simp add: UpdateBlockState_def updBlock_def putBlock_def Let_def MarkTime_def)

text \<open>
  (C7) The votes of a slot are counted together, whatever blocks they name: when the first votes of the last slot are at least three votes in favour,
  of which a signature can be recovered, then the proposal of that slot is pre-committed, whatever its hash is, and its quorum names the
  block of the first vote. The source assumes that all votes of a slot are for one block; nothing checks it.
\<close>

theorem votes_counted_together:
  assumes "VoteSet (cs w) (LastSlot (cs w)) = None" "TryAddVotes e (v # vl) w = Some w'"
    and "\<forall>x \<in> set (v # vl). v_Slot x = LastSlot (cs w) \<and> v_Type x = SupportVote" "2 \<le> length vl" "\<not> isl (recovered e Threshold (v # vl))"
  shows "let b = blocks (heap (judgeProposal e inp block w')) block
         in BlockState b = PrecommitBlock \<and> q_Type (VoteQuorum b) = SupportQuorum \<and> q_BlockHash (VoteQuorum b) = v_BlockHash v"
proof -
  obtain w1 err where w1: "TryAddVote e v w = Inr (w1, True, err)" "TryAddVotes e vl w1 = Some w'"
    using assms(2) by (auto split: sum.splits if_splits)
  have "VoteSet (cs w1) (LastSlot (cs w)) = Some \<lparr>vs_blockHash = v_BlockHash v, votes = [v]\<rparr>" "LastSlot (cs w1) = LastSlot (cs w)"
    using TryAddVote_adds [OF w1(1)] assms(1,3) by auto
  with TryAddVotes_collects [OF _ w1(2), of "LastSlot (cs w)"] assms(3)
  have vs: "VoteSet (cs w') (LastSlot (cs w')) = Some \<lparr>vs_blockHash = v_BlockHash v, votes = v # vl\<rparr>" by auto
  have "supporters \<lparr>vs_blockHash = v_BlockHash v, votes = v # vl\<rparr> = v # vl" using assms(3) by (simp add: supporters_def)
  then have q: "q_Type (TryGenQuorum e \<lparr>vs_blockHash = v_BlockHash v, votes = v # vl\<rparr> Threshold) = SupportQuorum"
    using assms(4,5) by (simp add: TryGenQuorum_type Threshold_def)
  have "q_BlockHash (TryGenQuorum e \<lparr>vs_blockHash = v_BlockHash v, votes = v # vl\<rparr> Threshold) = v_BlockHash v"
    by (simp add: TryGenQuorum_def Let_def split: prod.split)
  with q vs show ?thesis by (simp add: judgeProposal_def GetVotesBySlot_def setHeap_def Let_def updBlock_def putBlock_def)
qed

definition voteFor :: "int32 \<Rightarrow> bytes \<Rightarrow> Vote" where
  "voteFor i hash = projr (SignVote plainCrypto (MockPV \<lparr>mpv_PrivKey = demoKeys ! unat i, breakProposalSigning = False, breakVoteSigning = False\<rparr>)
     ''chain'' ((demoDraft i)\<lparr>v_BlockHash := hash\<rparr>))"

definition mixedWorld :: "unit World" where
  "mixedWorld = setHeap forkHeap (updCs (\<lambda>c. c\<lparr>LastSlot := 1\<rparr>) demoStart)"

lemma mixed_start: "VoteSet (cs mixedWorld) 1 = None" "LastSlot (cs mixedWorld) = 1" "BlockHash (blocks (heap mixedWorld) 3) = Some ''c''"
  using demo_starts by (simp_all add: mixedWorld_def setHeap_def updCs_def started_def MakeSlotVoteSet_def forkHeap_def forkBlock_def demoBlock_def)

lemma voteFor_fields: "v_Slot (voteFor 0 ''x'') = 1 \<and> v_Slot (voteFor 1 ''y'') = 1 \<and> v_Slot (voteFor 2 ''z'') = 1"
  "v_Type (voteFor 0 ''x'') = SupportVote \<and> v_Type (voteFor 1 ''y'') = SupportVote \<and> v_Type (voteFor 2 ''z'') = SupportVote"
  by code_simp+

lemma mixed_recovers: "\<not> isl (recovered plainCrypto Threshold [voteFor 0 ''x'', voteFor 1 ''y'', voteFor 2 ''z''])"
  by code_simp

lemma mixed_accepted: "TryAddVotes plainCrypto [voteFor 0 ''x'', voteFor 1 ''y'', voteFor 2 ''z''] mixedWorld \<noteq> None"
  by code_simp

theorem votes_counted_together_witness:
  "\<exists>w. TryAddVotes plainCrypto [voteFor 0 ''x'', voteFor 1 ''y'', voteFor 2 ''z''] mixedWorld = Some w
     \<and> BlockHash (blocks (heap mixedWorld) 3) = Some ''c'' \<and> BlockState (blocks (heap (judgeProposal plainCrypto demoInput 3 w)) 3) = PrecommitBlock"
proof -
  obtain w where w: "TryAddVotes plainCrypto [voteFor 0 ''x'', voteFor 1 ''y'', voteFor 2 ''z''] mixedWorld = Some w" using mixed_accepted by blast
  have "BlockState (blocks (heap (judgeProposal plainCrypto demoInput 3 w)) 3) = PrecommitBlock"
    using votes_counted_together [OF _ w, of demoInput 3] mixed_start mixed_recovers voteFor_fields by (simp add: Let_def)
  then show ?thesis using w mixed_start(3) by simp
qed

end
