(* ===== verification/SmallBank.thy ===== *)
theory SmallBank
  imports ExecutorFacts PlainEnv
begin

text \<open>
  The key-value store that executes SmallBank transactions: store/kv\_store.go, over a tm-db database, which is a
  parameter.
\<close>

section \<open>Model\<close>

text \<open>
  What the store uses of \<open>tmdb.DB\<close> and \<open>tmdb.Batch\<close>: a read returns an error, or the value or nil; a batch
  collects writes, in order, that \<open>Write\<close> applies; \<open>Set\<close> and \<open>Close\<close> may report an error.
\<close>

record 'd DB =
  dbGet :: "'d \<Rightarrow> bytes \<Rightarrow> string + bytes option"
  dbSet :: "bytes \<Rightarrow> bytes \<Rightarrow> 'd \<Rightarrow> 'd"
  batchSetErr :: "bytes \<Rightarrow> bytes \<Rightarrow> string option"
  batchWrite :: "(bytes \<times> bytes) list \<Rightarrow> 'd \<Rightarrow> 'd"
  batchCloseErr :: "'d \<Rightarrow> string option"

type_synonym Batch = "(bytes \<times> bytes) list"

record 'd KVStore =
  kvDB :: 'd
  increasingID :: int32

definition TableAccount :: string where "TableAccount = ''accout''"
definition TableSaving :: string where "TableSaving = ''saving''"
definition TableChecking :: string where "TableChecking = ''checking''"

lemmas Tables = TableAccount_def TableSaving_def TableChecking_def

text \<open>The dynamic type of the key of \<open>GenKey\<close>.\<close>

datatype primaryKey = KInt int64 | KString string | KBytes bytes | KOther

fun GenKey :: "string \<Rightarrow> primaryKey \<Rightarrow> bytes" where
  "GenKey table (KInt i) = table @ Itoa i"
| "GenKey table (KString s) = table @ s"
| "GenKey table (KBytes b) = table @ b"
| "GenKey table KOther = table"

definition Byte2int :: "bytes \<Rightarrow> int64" where
  "Byte2int src = fst (Atoi src)"

definition Int2byte :: "int64 \<Rightarrow> bytes" where
  "Int2byte src = Itoa src"

definition getCustomID :: "'d DB \<Rightarrow> 'd KVStore \<Rightarrow> string \<Rightarrow> string + int64" where
  "getCustomID D kv name = (case dbGet D (kvDB kv) (GenKey TableAccount (KString name)) of
      Inl err \<Rightarrow> Inl err | Inr v \<Rightarrow> Inr (Byte2int (bytes_of v)))"

definition getCheckingBal :: "'d DB \<Rightarrow> 'd KVStore \<Rightarrow> int64 \<Rightarrow> string + int64" where
  "getCheckingBal D kv customID = (case dbGet D (kvDB kv) (GenKey TableChecking (KInt customID)) of
      Inl err \<Rightarrow> Inl err | Inr v \<Rightarrow> Inr (Byte2int (bytes_of v)))"

definition getSavingBal :: "'d DB \<Rightarrow> 'd KVStore \<Rightarrow> int64 \<Rightarrow> string + int64" where
  "getSavingBal D kv customID = (case dbGet D (kvDB kv) (GenKey TableSaving (KInt customID)) of
      Inl err \<Rightarrow> Inl err | Inr v \<Rightarrow> Inr (Byte2int (bytes_of v)))"

definition getTotalBal :: "'d DB \<Rightarrow> 'd KVStore \<Rightarrow> int64 \<Rightarrow> string + int64" where
  "getTotalBal D kv customID =
     rbind (getSavingBal D kv customID) (\<lambda>savingbal.
     rbind (getCheckingBal D kv customID) (\<lambda>checkingbal.
     Inr (savingbal + checkingbal)))"

text \<open>\<open>batch.Set\<close>: on an error the write is not recorded.\<close>

definition batchSet :: "'d DB \<Rightarrow> bytes \<Rightarrow> bytes \<Rightarrow> Batch \<Rightarrow> Batch \<times> string option" where
  "batchSet D k v batch = (case batchSetErr D k v of Some err \<Rightarrow> (batch, Some err) | None \<Rightarrow> (batch @ [(k, v)], None))"

text \<open>\<open>return err\<close> where a step failed, and otherwise the rest.\<close>

definition orErr :: "Batch \<Rightarrow> string + 'a \<Rightarrow> ('a \<Rightarrow> Batch \<times> string option) \<Rightarrow> Batch \<times> string option" where
  "orErr batch r f = (case r of Inl err \<Rightarrow> (batch, Some err) | Inr x \<Rightarrow> f x)"

definition atoiErr :: "string \<Rightarrow> string + int64" where
  "atoiErr s = (case Atoi s of (v, None) \<Rightarrow> Inr v | (_, Some _) \<Rightarrow> Inl ''strconv.Atoi'')"

definition applySmallBank :: "'d DB \<Rightarrow> 'd KVStore \<Rightarrow> Batch \<Rightarrow> Tx \<Rightarrow> (Batch \<times> string option) res" where
  "applySmallBank D kv batch tx =
     (if TxType tx = SBBalanceTx then Inr (batch, None)
      else if TxType tx = SBDepositCheckingTx then
        rbind (index (Args tx) 0) (\<lambda>name. rbind (index (Args tx) 1) (\<lambda>arg. Inr (
          orErr batch (atoiErr arg) (\<lambda>value.
          orErr batch (getCustomID D kv name) (\<lambda>customID.
          orErr batch (getCheckingBal D kv customID) (\<lambda>preBal.
          batchSet D (GenKey TableChecking (KInt customID)) (Int2byte (preBal + value)) batch))))))
      else if TxType tx = SBTransactionSavingTx then
        rbind (index (Args tx) 0) (\<lambda>name. rbind (index (Args tx) 1) (\<lambda>arg. Inr (
          orErr batch (atoiErr arg) (\<lambda>value.
          orErr batch (getCustomID D kv name) (\<lambda>customID.
          orErr batch (getSavingBal D kv customID) (\<lambda>preBal.
          batchSet D (GenKey TableSaving (KInt customID)) (Int2byte (preBal + value)) batch))))))
      else if TxType tx = SBAmalgamateTx then
        rbind (index (Args tx) 0) (\<lambda>n1. rbind (index (Args tx) 1) (\<lambda>n2. Inr (
          orErr batch (getCustomID D kv n1) (\<lambda>customID1.
          orErr batch (getCustomID D kv n2) (\<lambda>customID2.
          orErr batch (getTotalBal D kv customID1) (\<lambda>c1Total.
          orErr batch (getCheckingBal D kv customID2) (\<lambda>preBal.
          let (b1, _) = batchSet D (GenKey TableChecking (KInt customID2)) (Int2byte (preBal + c1Total)) batch;
              (b2, _) = batchSet D (GenKey TableSaving (KInt customID1)) (Int2byte 0) b1;
              (b3, _) = batchSet D (GenKey TableChecking (KInt customID1)) (Int2byte 0) b2
          in (b3, None))))))))
      else if TxType tx = SBWriteCheckingTx then
        rbind (index (Args tx) 0) (\<lambda>name. rbind (index (Args tx) 1) (\<lambda>arg. Inr (
          orErr batch (atoiErr arg) (\<lambda>value.
          orErr batch (getCustomID D kv name) (\<lambda>customID.
          orErr batch (getTotalBal D kv customID) (\<lambda>total.
          orErr batch (getCheckingBal D kv customID) (\<lambda>preBal.
          let preBal' = (if sint total \<le> sint value then preBal - (value + 1) else preBal - value)
          in batchSet D (GenKey TableChecking (KInt customID)) (Int2byte preBal') batch)))))))
      else Inr (batch, Some (''wrong small bank tx type('' @ TxType tx @ '')'')))"

fun CommitBlock_loop :: "'d DB \<Rightarrow> 'd KVStore \<Rightarrow> Tx list \<Rightarrow> Batch \<Rightarrow> Batch res" where
  "CommitBlock_loop D kv [] batch = Inr batch"
| "CommitBlock_loop D kv (tx # txs) batch =
     rbind (applySmallBank D kv batch tx) (\<lambda>(batch', _). CommitBlock_loop D kv txs batch')"

definition result_hash :: bytes where
  "result_hash = ''result hash''"

definition KV_CommitBlock :: "'d DB \<Rightarrow> 'd KVStore Store" where
  "KV_CommitBlock D st block kv =
     rbind (CommitBlock_loop D kv (Txs block) []) (\<lambda>batch.
     let kv' = kv\<lparr>kvDB := batchWrite D batch (kvDB kv)\<rparr> in
     case batchCloseErr D (kvDB kv') of
       Some err \<Rightarrow> Inr (kv', Inl err)
     | None \<Rightarrow> Inr (kv', Inr result_hash))"

definition InitAccount :: "'d DB \<Rightarrow> string \<Rightarrow> int64 \<Rightarrow> int64 \<Rightarrow> 'd KVStore \<Rightarrow> 'd KVStore" where
  "InitAccount D name saving checking kv =
     (let newID = increasingID kv + 1;
          customID = Int2byte (scast (newID - 1));
          d1 = dbSet D (GenKey TableAccount (KString name)) customID (kvDB kv);
          d2 = dbSet D (GenKey TableChecking (KBytes customID)) (Int2byte checking) d1;
          d3 = dbSet D (GenKey TableSaving (KBytes customID)) (Int2byte saving) d2
      in \<lparr>kvDB = d3, increasingID = newID\<rparr>)"

text \<open>The mock store of store/mock.go commits everything and keeps nothing.\<close>

definition Mock_CommitBlock :: "'db Store" where
  "Mock_CommitBlock st block db = Inr (db, Inr [])"

section \<open>The laws of the database\<close>

text \<open>
  What tm-db documents: a read returns what was last written under the key, a batch applies its writes in order, reads and
  writes of non-empty keys succeed.
\<close>

definition db_laws :: "'d DB \<Rightarrow> bool" where
  "db_laws D \<longleftrightarrow> (\<forall>d k v k'. dbGet D (dbSet D k v d) k' = (if k = k' then Inr (Some v) else dbGet D d k'))
     \<and> (\<forall>ws d. batchWrite D ws d = foldl (\<lambda>d w. dbSet D (fst w) (snd w) d) d ws)
     \<and> (\<forall>k v. k \<noteq> [] \<longrightarrow> batchSetErr D k v = None) \<and> (\<forall>d. batchCloseErr D d = None) \<and> (\<forall>d k. \<exists>v. dbGet D d k = Inr v)"

lemma db_lawsD:
  assumes "db_laws D"
  shows "dbGet D (dbSet D k v d) k' = (if k = k' then Inr (Some v) else dbGet D d k')"
    "k \<noteq> [] \<Longrightarrow> batchSetErr D k v = None" "batchCloseErr D d = None" "\<exists>v. dbGet D d k = Inr v"
  using assms unfolding db_laws_def by blast+

lemma get_batchWrite:
  assumes D: "db_laws D"
  shows "dbGet D (batchWrite D ws d) k = (case map_of (rev ws) k of Some v \<Rightarrow> Inr (Some v) | None \<Rightarrow> dbGet D d k)"
proof -
  have "dbGet D (foldl (\<lambda>d w. dbSet D (fst w) (snd w) d) d ws) k = (case map_of (rev ws) k of Some v \<Rightarrow> Inr (Some v) | None \<Rightarrow> dbGet D d k)"
    by (induction ws rule: rev_induct) (auto simp: db_lawsD(1) [OF D] split: option.split)
  then show ?thesis using D by (simp add: db_laws_def)
qed

section \<open>Keys\<close>

lemma Byte2int_Int2byte [simp]: "Byte2int (Int2byte v) = v"
  by (simp add: Byte2int_def Int2byte_def)

lemma Byte2int_Nil [simp]: "Byte2int [] = 0"
  by (simp add: Byte2int_def Atoi_def unsigned_part_def)

lemma GenKey_nonempty [simp]: "table \<noteq> [] \<Longrightarrow> GenKey table k \<noteq> []"
  by (cases k) simp_all

lemma Tables_nonempty [simp]: "TableAccount \<noteq> []" "TableSaving \<noteq> []" "TableChecking \<noteq> []"
  by (simp_all add: Tables)

text \<open>Keys of different tables differ in their first character; within a table the key determines the account.\<close>

lemma hd_GenKey: "table \<noteq> [] \<Longrightarrow> hd (GenKey table k) = hd table"
  by (cases k) simp_all

lemma GenKey_tables [simp]:
  "GenKey TableSaving a \<noteq> GenKey TableChecking b" "GenKey TableChecking a \<noteq> GenKey TableSaving b"
  "GenKey TableAccount a \<noteq> GenKey TableChecking b" "GenKey TableChecking a \<noteq> GenKey TableAccount b"
  "GenKey TableAccount a \<noteq> GenKey TableSaving b" "GenKey TableSaving a \<noteq> GenKey TableAccount b"
  using hd_GenKey [of TableSaving a] hd_GenKey [of TableChecking b] hd_GenKey [of TableChecking a] hd_GenKey [of TableSaving b]
    hd_GenKey [of TableAccount a] hd_GenKey [of TableAccount b] by (auto simp: Tables)

lemma GenKey_inject [simp]:
  "GenKey t (KInt i) = GenKey t (KInt j) \<longleftrightarrow> i = j" "GenKey t (KString s) = GenKey t (KString s') \<longleftrightarrow> s = s'"
  "GenKey t (KBytes (Int2byte i)) = GenKey t (KInt i)"
  by (simp_all add: Itoa_inject Int2byte_def)

section \<open>A block executes against one snapshot\<close>

text \<open>The balances an account number names, as the code reads them.\<close>

definition accountID :: "'d DB \<Rightarrow> 'd KVStore \<Rightarrow> string \<Rightarrow> int64" where
  "accountID D kv name = (case dbGet D (kvDB kv) (GenKey TableAccount (KString name)) of Inr v \<Rightarrow> Byte2int (bytes_of v) | Inl _ \<Rightarrow> 0)"

definition checkingOf :: "'d DB \<Rightarrow> 'd KVStore \<Rightarrow> int64 \<Rightarrow> int64" where
  "checkingOf D kv i = (case dbGet D (kvDB kv) (GenKey TableChecking (KInt i)) of Inr v \<Rightarrow> Byte2int (bytes_of v) | Inl _ \<Rightarrow> 0)"

definition savingOf :: "'d DB \<Rightarrow> 'd KVStore \<Rightarrow> int64 \<Rightarrow> int64" where
  "savingOf D kv i = (case dbGet D (kvDB kv) (GenKey TableSaving (KInt i)) of Inr v \<Rightarrow> Byte2int (bytes_of v) | Inl _ \<Rightarrow> 0)"

lemma reads_succeed:
  assumes "db_laws D"
  shows "getCustomID D kv name = Inr (accountID D kv name)" "getCheckingBal D kv i = Inr (checkingOf D kv i)"
    "getSavingBal D kv i = Inr (savingOf D kv i)" "getTotalBal D kv i = Inr (savingOf D kv i + checkingOf D kv i)"
proof -
  have r [simp]: "dbGet D (kvDB kv) k \<noteq> Inl x" for k x using db_lawsD(4) [OF assms, of "kvDB kv" k] by auto
  show "getCustomID D kv name = Inr (accountID D kv name)" by (auto simp: getCustomID_def accountID_def split: sum.splits)
  show c: "getCheckingBal D kv i = Inr (checkingOf D kv i)" by (auto simp: getCheckingBal_def checkingOf_def split: sum.splits)
  show s: "getSavingBal D kv i = Inr (savingOf D kv i)" by (auto simp: getSavingBal_def savingOf_def split: sum.splits)
  show "getTotalBal D kv i = Inr (savingOf D kv i + checkingOf D kv i)" using c s by (simp add: getTotalBal_def)
qed

text \<open>The writes of a transaction, as a function of the database before the block.\<close>

definition tx_writes :: "'d DB \<Rightarrow> 'd KVStore \<Rightarrow> Tx \<Rightarrow> Batch" where
  "tx_writes D kv tx =
     (let chk = (\<lambda>i. GenKey TableChecking (KInt i)); sav = (\<lambda>i. GenKey TableSaving (KInt i));
          a0 = Args tx ! 0; a1 = Args tx ! 1; i = accountID D kv a0; j = accountID D kv a1
      in if TxType tx = SBDepositCheckingTx then
           (case Atoi a1 of (v, None) \<Rightarrow> [(chk i, Int2byte (checkingOf D kv i + v))] | _ \<Rightarrow> [])
         else if TxType tx = SBTransactionSavingTx then
           (case Atoi a1 of (v, None) \<Rightarrow> [(sav i, Int2byte (savingOf D kv i + v))] | _ \<Rightarrow> [])
         else if TxType tx = SBAmalgamateTx then
           [(chk j, Int2byte (checkingOf D kv j + (savingOf D kv i + checkingOf D kv i))), (sav i, Int2byte 0), (chk i, Int2byte 0)]
         else if TxType tx = SBWriteCheckingTx then
           (case Atoi a1 of (v, None) \<Rightarrow> [(chk i, Int2byte (checkingOf D kv i -
              (if sint (savingOf D kv i + checkingOf D kv i) \<le> sint v then v + 1 else v)))] | _ \<Rightarrow> [])
         else [])"

definition has_args :: "Tx \<Rightarrow> bool" where
  "has_args tx \<longleftrightarrow> 2 \<le> length (Args tx)"

lemma batchSet_ok: "db_laws D \<Longrightarrow> k \<noteq> [] \<Longrightarrow> batchSet D k v b = (b @ [(k, v)], None)"
  by (simp add: batchSet_def db_lawsD(2))

lemma orErr_simps [simp]: "orErr b (Inr x) f = f x" "orErr b (Inl err) f = (b, Some err)"
  by (simp_all add: orErr_def)

lemma index_args: "has_args tx \<Longrightarrow> index (Args tx) 0 = Inr (Args tx ! 0) \<and> index (Args tx) 1 = Inr (Args tx ! 1)"
  by (auto simp: has_args_def index_def)

lemma applySmallBank_writes:
  assumes D: "db_laws D" and args: "has_args tx"
  shows "\<exists>err. applySmallBank D kv batch tx = Inr (batch @ tx_writes D kv tx, err)"
proof -
  note simps = index_args [OF args] reads_succeed [OF D] batchSet_ok [OF D]
  have ne: "SBBalanceTx \<notin> {SBDepositCheckingTx, SBTransactionSavingTx, SBAmalgamateTx, SBWriteCheckingTx}" by (simp add: SmallBankTxTypes)
  obtain v err where a: "Atoi (Args tx ! 1) = (v, err)" by fastforce
  show ?thesis
  proof (cases err)
    case None
    then show ?thesis using a ne by (auto simp: applySmallBank_def tx_writes_def simps atoiErr_def Let_def)
  next
    case (Some x)
    then show ?thesis using a ne by (auto simp: applySmallBank_def tx_writes_def simps atoiErr_def Let_def)
  qed
qed

lemma CommitBlock_loop_writes:
  assumes D: "db_laws D"
  shows "(\<And>tx. tx \<in> set txs \<Longrightarrow> has_args tx) \<Longrightarrow> CommitBlock_loop D kv txs batch = Inr (batch @ concat (map (tx_writes D kv) txs))"
proof (induction txs arbitrary: batch)
  case (Cons tx txs)
  obtain err where "applySmallBank D kv batch tx = Inr (batch @ tx_writes D kv tx, err)"
    using applySmallBank_writes [OF D, of tx kv batch] Cons.prems by auto
  then show ?case using Cons by simp
qed simp

lemma KV_CommitBlock_snapshot:
  assumes D: "db_laws D" and args: "\<forall>tx \<in> set (Txs block). has_args tx"
  shows "KV_CommitBlock D st block kv =
    Inr (kv\<lparr>kvDB := batchWrite D (concat (map (tx_writes D kv) (Txs block))) (kvDB kv)\<rparr>, Inr result_hash)"
proof -
  have "CommitBlock_loop D kv (Txs block) [] = Inr ([] @ concat (map (tx_writes D kv) (Txs block)))"
    using CommitBlock_loop_writes [OF D] args by blast
  then show ?thesis by (simp add: KV_CommitBlock_def Let_def db_lawsD(3) [OF D])
qed

text \<open>The balance after a block: the last write of the block to its key, else what it was.\<close>

lemma checkingOf_write:
  assumes "db_laws D"
  shows "checkingOf D (kv\<lparr>kvDB := batchWrite D ws (kvDB kv)\<rparr>) i =
    (case map_of (rev ws) (GenKey TableChecking (KInt i)) of Some v \<Rightarrow> Byte2int v | None \<Rightarrow> checkingOf D kv i)"
  by (simp add: checkingOf_def get_batchWrite [OF assms] split: option.split)

lemma savingOf_write:
  assumes "db_laws D"
  shows "savingOf D (kv\<lparr>kvDB := batchWrite D ws (kvDB kv)\<rparr>) i =
    (case map_of (rev ws) (GenKey TableSaving (KInt i)) of Some v \<Rightarrow> Byte2int v | None \<Rightarrow> savingOf D kv i)"
  by (simp add: savingOf_def get_batchWrite [OF assms] split: option.split)

section \<open>Properties\<close>

text \<open>An in-memory database, for evaluating the properties at concrete inputs.\<close>

definition memDB :: "(bytes \<rightharpoonup> bytes) DB" where
  "memDB = \<lparr>dbGet = (\<lambda>m k. Inr (m k)), dbSet = (\<lambda>k v m. m(k \<mapsto> v)), batchSetErr = (\<lambda>k v. if k = [] then Some ''empty key'' else None),
     batchWrite = (\<lambda>ws m. foldl (\<lambda>m w. m(fst w \<mapsto> snd w)) m ws), batchCloseErr = (\<lambda>_. None)\<rparr>"

lemma memDB_laws: "db_laws memDB"
  by (simp add: db_laws_def memDB_def)

definition demoKV :: "(bytes \<rightharpoonup> bytes) KVStore" where
  "demoKV = InitAccount memDB ''bob'' 30 7 (InitAccount memDB ''alice'' 100 20 \<lparr>kvDB = Map.empty, increasingID = 41\<rparr>)"

definition demoSt :: State where
  "demoSt = fst (NewState ''demo'' 0 None None (NewValidatorSet []) emptyHeap)"

definition demoTx :: "SmallBankTxType \<Rightarrow> string list \<Rightarrow> Tx" where
  "demoTx ty args = NewTx\<lparr>TxType := ty, Args := args\<rparr>"

text \<open>
  Opening an account: afterwards the name resolves to the number that the counter gave it, and the two balances
  read back are the ones given, for every 64-bit value.
\<close>

theorem InitAccount_reads:
  assumes "db_laws D"
  shows "accountID D (InitAccount D name saving checking kv) name = scast (increasingID kv)
    \<and> checkingOf D (InitAccount D name saving checking kv) (scast (increasingID kv)) = checking
    \<and> savingOf D (InitAccount D name saving checking kv) (scast (increasingID kv)) = saving"
  using db_lawsD(1) [OF assms]
  by (simp add: InitAccount_def Let_def accountID_def checkingOf_def savingOf_def del: GenKey.simps)

theorem InitAccount_reads_witness:
  "checkingOf memDB (InitAccount memDB ''alice'' 100 20 \<lparr>kvDB = Map.empty, increasingID = 41\<rparr>) 41 = 20"
  using InitAccount_reads [OF memDB_laws, of "''alice''" 100 20 "\<lparr>kvDB = Map.empty, increasingID = 41\<rparr>"] by simp




lemma demoKV_reads:
  "accountID memDB demoKV ''alice'' = 41" "accountID memDB demoKV ''bob'' = 42"
  "checkingOf memDB demoKV 41 = 20" "savingOf memDB demoKV 41 = 100" "checkingOf memDB demoKV 42 = 7" "savingOf memDB demoKV 42 = 30"
proof -
  have g: "GenKey t (KBytes (Int2byte 42)) = GenKey t (KInt 42)" "GenKey t (KBytes (Int2byte 41)) = GenKey t (KInt 41)" for t by (simp_all add: Int2byte_def)
  show "accountID memDB demoKV ''alice'' = 41" "accountID memDB demoKV ''bob'' = 42"
    "checkingOf memDB demoKV 41 = 20" "savingOf memDB demoKV 41 = 100" "checkingOf memDB demoKV 42 = 7" "savingOf memDB demoKV 42 = 30"
    by (simp_all add: demoKV_def InitAccount_def Let_def accountID_def checkingOf_def savingOf_def memDB_def g del: GenKey.simps)
qed


text \<open>
  A deposit adds to the checking balance of its account and leaves every other balance alone.
\<close>

theorem deposit_effect:
  assumes "db_laws D" "Txs block = [tx]" "TxType tx = SBDepositCheckingTx" "Args tx = [name, arg]" "Atoi arg = (v, None)"
    and "KV_CommitBlock D st block kv = Inr (kv', r)"
  shows "(\<forall>i. checkingOf D kv' i = (if i = accountID D kv name then checkingOf D kv i + v else checkingOf D kv i))
    \<and> (\<forall>i. savingOf D kv' i = savingOf D kv i)"
proof -
  have "\<forall>tx \<in> set (Txs block). has_args tx" using assms(2,4) by (simp add: has_args_def)
  then have kv': "kv' = kv\<lparr>kvDB := batchWrite D (tx_writes D kv tx) (kvDB kv)\<rparr>"
    using KV_CommitBlock_snapshot [OF assms(1), of block st kv] assms(2,6) by simp
  have w: "tx_writes D kv tx = [(GenKey TableChecking (KInt (accountID D kv name)), Int2byte (checkingOf D kv (accountID D kv name) + v))]"
    using assms(3-5) by (simp add: tx_writes_def Let_def)
  show ?thesis unfolding kv' by (auto simp: checkingOf_write [OF assms(1)] savingOf_write [OF assms(1)] w simp del: GenKey.simps)
qed

theorem deposit_effect_witness:
  "\<exists>kv' r. KV_CommitBlock memDB demoSt (zeroBlock\<lparr>Txs := [demoTx SBDepositCheckingTx [''alice'', Itoa 5]]\<rparr>) demoKV = Inr (kv', r)
     \<and> checkingOf memDB kv' 41 = 25 \<and> checkingOf memDB kv' 42 = 7"
proof -
  let ?b = "zeroBlock\<lparr>Txs := [demoTx SBDepositCheckingTx [''alice'', Itoa 5]]\<rparr>"
  obtain kv' r where c: "KV_CommitBlock memDB demoSt ?b demoKV = Inr (kv', r)"
    using KV_CommitBlock_snapshot [OF memDB_laws, of ?b demoSt demoKV] by (auto simp: has_args_def demoTx_def)
  from deposit_effect [OF memDB_laws _ _ _ _ c, of "demoTx SBDepositCheckingTx [''alice'', Itoa 5]" "''alice''" "Itoa 5" 5]
  have "checkingOf memDB kv' 41 = 25 \<and> checkingOf memDB kv' 42 = 7" by (simp add: demoTx_def demoKV_reads)
  with c show ?thesis by blast
qed

text \<open>
  Two deposits to the same account in one block: the second one overwrites the first, because both read the balance from
  before the block.
\<close>

theorem deposits_lost_in_block:
  assumes "db_laws D" "Txs block = [t1, t2]" "TxType t1 = SBDepositCheckingTx" "TxType t2 = SBDepositCheckingTx"
    and "Args t1 = [name, a1]" "Args t2 = [name, a2]" "Atoi a1 = (v1, None)" "Atoi a2 = (v2, None)"
    and "KV_CommitBlock D st block kv = Inr (kv', r)"
  shows "checkingOf D kv' (accountID D kv name) = checkingOf D kv (accountID D kv name) + v2"
proof -
  have "\<forall>tx \<in> set (Txs block). has_args tx" using assms(2,5,6) by (simp add: has_args_def)
  then have "kv' = kv\<lparr>kvDB := batchWrite D (tx_writes D kv t1 @ tx_writes D kv t2) (kvDB kv)\<rparr>"
    using KV_CommitBlock_snapshot [OF assms(1), of block st kv] assms(2,9) by simp
  then show ?thesis using assms(3-8) by (simp add: checkingOf_write [OF assms(1)] tx_writes_def Let_def del: GenKey.simps)
qed

theorem deposits_lost_in_block_witness:
  "\<exists>kv' r. KV_CommitBlock memDB demoSt (zeroBlock\<lparr>Txs := [demoTx SBDepositCheckingTx [''alice'', Itoa 5], demoTx SBDepositCheckingTx [''alice'', Itoa 8]]\<rparr>) demoKV
      = Inr (kv', r) \<and> checkingOf memDB kv' 41 = 28"
proof -
  let ?t = "\<lambda>v. demoTx SBDepositCheckingTx [''alice'', Itoa v]"
  obtain kv' r where c: "KV_CommitBlock memDB demoSt (zeroBlock\<lparr>Txs := [?t 5, ?t 8]\<rparr>) demoKV = Inr (kv', r)"
    using KV_CommitBlock_snapshot [OF memDB_laws, of "zeroBlock\<lparr>Txs := [?t 5, ?t 8]\<rparr>" demoSt demoKV] by (auto simp: has_args_def demoTx_def)
  from deposits_lost_in_block [OF memDB_laws _ _ _ _ _ _ _ c, of "?t 5" "?t 8" "''alice''" "Itoa 5" "Itoa 8" 5 8]
  have "checkingOf memDB kv' 41 = 28" by (simp add: demoTx_def demoKV_reads)
  with c show ?thesis by blast
qed

text \<open>
  An amalgamation of an account with itself destroys all its money.
\<close>

theorem amalgamate_self_loses:
  assumes "db_laws D" "Txs block = [tx]" "TxType tx = SBAmalgamateTx" "Args tx = [n, n]" "i = accountID D kv n"
    and "KV_CommitBlock D st block kv = Inr (kv', r)"
  shows "checkingOf D kv' i = 0 \<and> savingOf D kv' i = 0"
proof -
  have "\<forall>tx \<in> set (Txs block). has_args tx" using assms(2,4) by (simp add: has_args_def)
  then have "kv' = kv\<lparr>kvDB := batchWrite D (tx_writes D kv tx) (kvDB kv)\<rparr>"
    using KV_CommitBlock_snapshot [OF assms(1), of block st kv] assms(2,6) by simp
  then show ?thesis using assms(3-5)
    by (simp add: checkingOf_write [OF assms(1)] savingOf_write [OF assms(1)] tx_writes_def Let_def SmallBankTxTypes del: GenKey.simps)
qed

theorem amalgamate_self_loses_witness:
  "\<exists>kv' r. KV_CommitBlock memDB demoSt (zeroBlock\<lparr>Txs := [demoTx SBAmalgamateTx [''alice'', ''alice'']]\<rparr>) demoKV = Inr (kv', r)
     \<and> savingOf memDB demoKV 41 = 100 \<and> checkingOf memDB kv' 41 = 0 \<and> savingOf memDB kv' 41 = 0"
proof -
  let ?b = "zeroBlock\<lparr>Txs := [demoTx SBAmalgamateTx [''alice'', ''alice'']]\<rparr>"
  obtain kv' r where c: "KV_CommitBlock memDB demoSt ?b demoKV = Inr (kv', r)"
    using KV_CommitBlock_snapshot [OF memDB_laws, of ?b demoSt demoKV] by (auto simp: has_args_def demoTx_def)
  from amalgamate_self_loses [OF memDB_laws _ _ _ refl c, of "demoTx SBAmalgamateTx [''alice'', ''alice'']" "''alice''"]
  have "checkingOf memDB kv' 41 = 0 \<and> savingOf memDB kv' 41 = 0" by (simp add: demoTx_def demoKV_reads)
  with c show ?thesis by (auto simp: demoKV_reads)
qed

section \<open>Transactions without arguments\<close>

definition needs_args :: "Tx \<Rightarrow> bool" where
  "needs_args tx \<longleftrightarrow> TxType tx \<in> {SBDepositCheckingTx, SBTransactionSavingTx, SBAmalgamateTx, SBWriteCheckingTx}"

lemma index_args_missing: "length xs < 2 \<Longrightarrow> rbind (index xs 0) (\<lambda>a. rbind (index xs 1) (f a)) = Inl BadIndex"
  by (auto simp: index_def)

lemma applySmallBank_faults:
  "applySmallBank D kv batch tx = Inl err \<Longrightarrow> err = BadIndex"
  "needs_args tx \<Longrightarrow> length (Args tx) < 2 \<Longrightarrow> applySmallBank D kv batch tx = Inl BadIndex"
  by (auto simp: applySmallBank_def rbind_Inl_iff index_def split: if_splits)
    (auto simp: needs_args_def SmallBankTxTypes index_args_missing)

lemma CommitBlock_loop_faults:
  "tx \<in> set txs \<Longrightarrow> needs_args tx \<Longrightarrow> length (Args tx) < 2 \<Longrightarrow> CommitBlock_loop D kv txs batch = Inl BadIndex"
proof (induction txs arbitrary: batch)
  case (Cons t txs)
  show ?case
  proof (cases "applySmallBank D kv batch t")
    case (Inl err)
    then show ?thesis using applySmallBank_faults(1) by auto
  next
    case (Inr r)
    then have "tx \<in> set txs" using Cons.prems applySmallBank_faults(2) [of tx D kv batch] by auto
    then show ?thesis using Cons Inr by (cases r) simp
  qed
qed simp

text \<open>
  (C36) A client can stop every node: a transaction without arguments, signed with any key, passes the check that a proposal makes of its
  transactions, and committing a block that contains it panics, whatever else the block and the database hold.
\<close>

theorem signed_tx_stops_commit:
  assumes "ed25519_laws e" "privSign e priv (tmhashSum e SBDepositCheckingTx) = Inr sig" "privPubKey e priv = Some pub"
    and "tx = \<lparr>TxType = SBDepositCheckingTx, Args = [], TxSendTimestamp = t, tx_Signature = sig, PublicKey = Some pub\<rparr>"
  shows "Valid e tx = Inr True \<and> (\<forall>block. tx \<in> set (Txs block) \<longrightarrow> KV_CommitBlock D st block kv = Inl BadIndex)"
proof
  have "length pub = 32" "ed25519Verify e pub (tmhashSum e SBDepositCheckingTx) sig" using assms(1-3) by (simp_all add: ed25519_laws_def)
  then show "Valid e tx = Inr True" by (simp add: assms(4) Valid_def ed25519_Verify_def ed25519_PublicKeySize_def Tx_Hash_def)
  show "\<forall>block. tx \<in> set (Txs block) \<longrightarrow> KV_CommitBlock D st block kv = Inl BadIndex"
    using CommitBlock_loop_faults [of tx _ D kv "[]"] by (auto simp: KV_CommitBlock_def assms(4) needs_args_def)
qed

theorem signed_tx_stops_commit_witness:
  "\<exists>tx. Valid plainCrypto tx = Inr True \<and> KV_CommitBlock memDB demoSt (zeroBlock\<lparr>Txs := [tx]\<rparr>) demoKV = Inl BadIndex"
proof -
  let ?tx = "\<lparr>TxType = SBDepositCheckingTx, Args = [], TxSendTimestamp = 0, tx_Signature = pad32 ''k'' @ SBDepositCheckingTx, PublicKey = Some (pad32 ''k'')\<rparr>"
  have "privSign plainCrypto ''k'' (tmhashSum plainCrypto SBDepositCheckingTx) = Inr (pad32 ''k'' @ SBDepositCheckingTx)"
    "privPubKey plainCrypto ''k'' = Some (pad32 ''k'')" by (simp_all add: plainCrypto_def)
  from signed_tx_stops_commit [OF plainCrypto_laws(1) this refl, of 0 memDB demoSt demoKV] show ?thesis by (intro exI [of _ ?tx]) simp
qed

section \<open>The store as the executor uses it\<close>

interpretation mockStore: block_store Mock_CommitBlock "\<lambda>_. True"
  by unfold_locales (simp_all add: Mock_CommitBlock_def)

text \<open>The SmallBank store reports no error over a database that keeps its laws, and commits blocks whose transactions have their arguments.\<close>

lemma KV_block_store:
  assumes "db_laws D"
  shows "block_store (KV_CommitBlock D) (\<lambda>txs. \<forall>tx \<in> set txs. has_args tx)"
proof
  show "KV_CommitBlock D st b d \<noteq> Inr (d', Inl err)" for st b d d' err
    using db_lawsD(3) [OF assms] by (auto simp: KV_CommitBlock_def Let_def)
  show "\<exists>x. KV_CommitBlock D st b d = Inr x" if "\<forall>tx \<in> set (Txs b). has_args tx" for st b d
    using KV_CommitBlock_snapshot [OF assms that] by blast
qed

interpretation memStore: block_store "KV_CommitBlock memDB" "\<lambda>txs. \<forall>tx \<in> set txs. has_args tx"
  by (rule KV_block_store [OF memDB_laws])

text \<open>The database after the blocks have been executed one after the other, each on the database that the one before left.\<close>

definition executed :: "'d DB \<Rightarrow> Heap \<Rightarrow> 'd KVStore \<Rightarrow> addr list \<Rightarrow> 'd KVStore" where
  "executed D h kv bl = foldl (\<lambda>kv a. kv\<lparr>kvDB := batchWrite D (concat (map (tx_writes D kv) (Txs (blocks h a)))) (kvDB kv)\<rparr>) kv bl"

lemma executed_cong: "(\<And>a. Txs (blocks h' a) = Txs (blocks h a)) \<Longrightarrow> executed D h' kv bl = executed D h kv bl"
  by (simp add: executed_def)

lemma Commit_loop_executes:
  assumes "db_laws D"
  shows "\<forall>a \<in> set bl. \<forall>tx \<in> set (Txs (blocks h a)). has_args tx \<Longrightarrow>
    \<exists>st' l' h'. Commit_loop e (KV_CommitBlock D) now st k bl (st0, l) h kv = Inr (st', l', h', executed D h kv bl)"
proof (induction bl arbitrary: k st0 l h kv)
  case (Cons a bl)
  let ?kv = "kv\<lparr>kvDB := batchWrite D (concat (map (tx_writes D kv) (Txs (blocks h a)))) (kvDB kv)\<rparr>"
  let ?h = "State_CommitBlock st0 a (UpdateBlockState (now k) a CommittedBlock h)"
  have "KV_CommitBlock D st (blocks h a) kv = Inr (?kv, Inr result_hash)" using KV_CommitBlock_snapshot [OF assms] Cons.prems by simp
  moreover have "executed D ?h ?kv bl = executed D h ?kv bl" by (rule executed_cong) simp
  moreover obtain st' l' h' where "Commit_loop e (KV_CommitBlock D) now st (Suc k) bl (commitState st0 a result_hash (blocks ?h a), Some a) ?h ?kv =
      Inr (st', l', h', executed D ?h ?kv bl)" using Cons.IH [of ?h] Cons.prems by fastforce
  ultimately show ?case by (auto simp: Let_def executed_def)
qed (simp add: executed_def)

text \<open>
  (C12) Committing executes: when all transactions of the blocks chosen for commit have their arguments, the executor commits every one of them, and the
  SmallBank database afterwards is the old one with the blocks executed in their order, each against what the one before left.
\<close>

theorem commit_executes_blocks:
  assumes "db_laws D" "\<forall>a \<in> set bl. \<forall>tx \<in> set (Txs (blocks h a)). has_args tx"
  shows "\<exists>st' l' h'. Executor_Commit e (KV_CommitBlock D) now st bl h kv = Inr (st', l', h', executed D h kv bl)
    \<and> (\<forall>a. BlockState (blocks h' a) = (if a \<in> set bl then CommittedBlock else BlockState (blocks h a)))"
proof -
  obtain st' l' h' where c: "Executor_Commit e (KV_CommitBlock D) now st bl h kv = Inr (st', l', h', executed D h kv bl)"
    using Commit_loop_executes [OF assms] unfolding Executor_Commit_def by blast
  from Executor_Commit_outcome [OF c] obtain ok where "commit_outcome st h ok (st', l') h'" "ok = bl"
    using block_store.errs [OF KV_block_store [OF assms(1)]] by metis
  then show ?thesis using c by (auto simp: commit_outcome_def)
qed

definition demoBlocks :: Heap where
  "demoBlocks = emptyHeap\<lparr>blocks := (\<lambda>a. zeroBlock\<lparr>Txs := [demoTx SBDepositCheckingTx [''alice'', Itoa (of_nat a)]]\<rparr>)\<rparr>"

theorem commit_executes_blocks_witness:
  "\<exists>st' l' h'. Executor_Commit plainCrypto (KV_CommitBlock memDB) (\<lambda>_. 0) demoSt [5, 8] demoBlocks demoKV = Inr (st', l', h', executed memDB demoBlocks demoKV [5, 8])"
proof -
  have "\<forall>a \<in> set [5, 8]. \<forall>tx \<in> set (Txs (blocks demoBlocks a)). has_args tx" by (simp add: demoBlocks_def has_args_def demoTx_def)
  from commit_executes_blocks [OF memDB_laws this] show ?thesis by blast
qed

end
