(* ===== verification/GoStrings.thy ===== *)
theory GoStrings
  imports Prelude "HOL-Library.Sublist"
begin

text \<open>
  What the program uses of Go's packages \<open>strings\<close> and \<open>encoding/hex\<close>, for byte strings: \<open>Contains\<close>, \<open>Split\<close> and
  \<open>Join\<close>, \<open>Trim\<close>, \<open>hex.Decode\<close> and \<open>hex.Encode\<close>, with their round trips.
\<close>

section \<open>Split and join\<close>

text \<open>The place of the first occurrence of a separator.\<close>

fun strIndex :: "string \<Rightarrow> string \<Rightarrow> nat option" where
  "strIndex [] sep = (if sep = [] then Some 0 else None)"
| "strIndex (c # s) sep = (if prefix sep (c # s) then Some 0 else map_option Suc (strIndex s sep))"

definition Contains :: "string \<Rightarrow> string \<Rightarrow> bool" where
  "Contains s sep \<longleftrightarrow> strIndex s sep \<noteq> None"

lemma strIndex_bound: "strIndex s sep = Some i \<Longrightarrow> i + length sep \<le> length s"
proof (induction s arbitrary: i)
  case (Cons c s)
  show ?case
  proof (cases "prefix sep (c # s)")
    case True
    then show ?thesis using Cons.prems prefix_length_le [OF True] by simp
  next
    case False
    then obtain j where "strIndex s sep = Some j" "i = Suc j" using Cons.prems by auto
    then show ?thesis using Cons.IH by fastforce
  qed
qed (auto split: if_splits)

lemma strIndex_cut: "strIndex s sep = Some i \<Longrightarrow> s = take i s @ sep @ drop (i + length sep) s"
proof (induction s arbitrary: i)
  case (Cons c s)
  show ?case
  proof (cases "prefix sep (c # s)")
    case True
    then have "i = 0" using Cons.prems by simp
    then show ?thesis using True by (auto simp: prefix_def)
  next
    case False
    then obtain j where "strIndex s sep = Some j" "i = Suc j" using Cons.prems by auto
    then show ?thesis using Cons.IH by simp
  qed
qed (auto split: if_splits)

text \<open>
  \<open>Split\<close>: all the parts between separators. An empty separator splits after each character (the program
  never passes one).
\<close>

function Split :: "string \<Rightarrow> string \<Rightarrow> string list" where
  "Split s sep =
     (if sep = [] then map (\<lambda>c. [c]) s
      else case strIndex s sep of None \<Rightarrow> [s] | Some i \<Rightarrow> take i s # Split (drop (i + length sep) s) sep)"
  by pat_completeness auto

termination
proof (relation "measure (\<lambda>(s, sep). length s)")
  fix s sep i
  assume "sep \<noteq> []" "strIndex s sep = Some i"
  then have "0 < length sep" "i + length sep \<le> length s" using strIndex_bound by (blast, blast)
  then have "length s - (i + length sep) < length s" by linarith
  then show "((drop (i + length sep) s, sep), (s, sep)) \<in> measure (\<lambda>(s, sep). length s)" by simp
qed simp

declare Split.simps [simp del]

fun Join :: "string list \<Rightarrow> string \<Rightarrow> string" where
  "Join [] sep = []"
| "Join [x] sep = x"
| "Join (x # y # xs) sep = x @ sep @ Join (y # xs) sep"

lemma Split_nonempty [simp]: "sep \<noteq> [] \<Longrightarrow> Split s sep \<noteq> []"
  by (subst Split.simps) (simp split: option.split)

lemma Join_Cons: "xs \<noteq> [] \<Longrightarrow> Join (x # xs) sep = x @ sep @ Join xs sep"
  by (cases xs) simp_all

lemma Join_Split: "sep \<noteq> [] \<Longrightarrow> Join (Split s sep) sep = s"
proof (induction s sep rule: Split.induct)
  case (1 s sep)
  show ?case
  proof (cases "strIndex s sep")
    case (Some i)
    then have "Join (Split s sep) sep = take i s @ sep @ drop (i + length sep) s"
      using 1 by (simp add: Split.simps [of s sep] Join_Cons)
    then show ?thesis using strIndex_cut [OF Some] by simp
  qed (use 1 in \<open>simp add: Split.simps [of s sep]\<close>)
qed

text \<open>A separator of one character is found exactly where the character first occurs.\<close>

lemma strIndex_char: "strIndex s [c] = (if c \<in> set s then Some (length (takeWhile (\<lambda>x. x \<noteq> c) s)) else None)"
  by (induction s) auto

lemma Contains_char: "Contains s [c] \<longleftrightarrow> c \<in> set s"
  by (simp add: Contains_def strIndex_char)

lemma Split_char_none: "c \<notin> set s \<Longrightarrow> Split s [c] = [s]"
  by (simp add: Split.simps [of s] strIndex_char)

lemma Split_char_app: "c \<notin> set s \<Longrightarrow> Split (s @ c # t) [c] = s # Split t [c]"
proof -
  assume "c \<notin> set s"
  then have "takeWhile (\<lambda>x. x \<noteq> c) (s @ c # t) = s" by (subst takeWhile_append2) auto
  then show ?thesis by (subst Split.simps) (simp add: strIndex_char)
qed

lemma Split_Join_char: "xs \<noteq> [] \<Longrightarrow> \<forall>x \<in> set xs. c \<notin> set x \<Longrightarrow> Split (Join xs [c]) [c] = xs"
proof (induction xs rule: induct_list012)
  case (3 x y zs)
  then show ?case using Split_char_app [of c x "Join (y # zs) [c]"] by simp
qed (simp_all add: Split_char_none)

lemma Split_char_parts: "x \<in> set (Split s [c]) \<Longrightarrow> c \<notin> set x"
proof (induction "length s" arbitrary: s rule: less_induct)
  case less
  show ?case
  proof (cases "c \<in> set s")
    case True
    then obtain a b where s: "s = a @ c # b" "c \<notin> set a" by (metis split_list_first)
    then have "x = a \<or> x \<in> set (Split b [c])" using less.prems by (simp add: Split_char_app)
    then show ?thesis using less.hyps [of b] s by auto
  qed (use less.prems in \<open>simp add: Split_char_none\<close>)
qed

section \<open>Trim\<close>

definition Trim :: "string \<Rightarrow> string \<Rightarrow> string" where
  "Trim s cutset = rev (dropWhile (\<lambda>c. c \<in> set cutset) (rev (dropWhile (\<lambda>c. c \<in> set cutset) s)))"

definition trimmed :: "string \<Rightarrow> string \<Rightarrow> bool" where
  "trimmed s cutset \<longleftrightarrow> s = [] \<or> hd s \<notin> set cutset \<and> last s \<notin> set cutset"

lemma dropWhile_hd: "xs = [] \<or> \<not> P (hd xs) \<Longrightarrow> dropWhile P xs = xs"
  by (cases xs) auto

lemma Trim_trimmed: "trimmed s cutset \<Longrightarrow> Trim s cutset = s"
  by (simp add: Trim_def trimmed_def dropWhile_hd hd_rev disj_imp)

lemma trimmed_Trim: "trimmed (Trim s cutset) cutset"
proof (cases "Trim s cutset = []")
  case False
  define t where "t = dropWhile (\<lambda>c. c \<in> set cutset) s"
  define u where "u = dropWhile (\<lambda>c. c \<in> set cutset) (rev t)"
  have T: "Trim s cutset = rev u" by (simp add: Trim_def t_def u_def)
  have u: "u \<noteq> []" using False T by simp
  have "hd u \<notin> set cutset" using u hd_dropWhile [of "\<lambda>c. c \<in> set cutset" "rev t"] by (simp add: u_def)
  moreover have "t \<noteq> []" using u by (auto simp: u_def)
  moreover from this have "hd t \<notin> set cutset" using hd_dropWhile [of "\<lambda>c. c \<in> set cutset" s] by (simp add: t_def)
  moreover have "last u = last (rev t)"
    using u last_appendR [of u "takeWhile (\<lambda>c. c \<in> set cutset) (rev t)"] by (simp add: u_def)
  ultimately show ?thesis using u T by (simp add: trimmed_def hd_rev last_rev)
qed (simp add: trimmed_def)

section \<open>Hexadecimal\<close>

text \<open>
  \<open>fromHexChar\<close> reads a digit of either case. \<open>hex.Decode\<close> fills the destination up to the first
  character that is not a digit or to the last full pair, and reports an error otherwise; what is not filled stays zero.
\<close>

definition hexVal :: "char \<Rightarrow> nat option" where
  "hexVal c = (let n = of_char c in
     if 48 \<le> n \<and> n \<le> 57 then Some (n - 48) else if 97 \<le> n \<and> n \<le> 102 then Some (n - 87)
     else if 65 \<le> n \<and> n \<le> 70 then Some (n - 55) else None)"

fun hexPairs :: "bytes \<Rightarrow> bytes \<times> string option" where
  "hexPairs [] = ([], None)"
| "hexPairs [c] = ([], Some (if hexVal c = None then ''invalid byte'' else ''odd length''))"
| "hexPairs (a # b # s) = (case (hexVal a, hexVal b) of
      (Some x, Some y) \<Rightarrow> (let (t, err) = hexPairs s in (char_of (16 * x + y) # t, err))
    | _ \<Rightarrow> ([], Some ''invalid byte''))"

definition hexDecode :: "bytes \<Rightarrow> bytes \<times> string option" where
  "hexDecode src = (let (t, err) = hexPairs src in (t @ replicate (length src div 2 - length t) (char_of (0 :: nat)), err))"

definition hexDigit :: "nat \<Rightarrow> char" where
  "hexDigit d = char_of (if d < 10 then 48 + d else 87 + d)"

definition hexEncode :: "bytes \<Rightarrow> bytes" where
  "hexEncode b = concat (map (\<lambda>c. [hexDigit (of_char c div 16), hexDigit (of_char c mod 16)]) b)"

lemma hexVal_hexDigit [simp]: "d < 16 \<Longrightarrow> hexVal (hexDigit d) = Some d"
  by (simp add: hexVal_def hexDigit_def Let_def)

lemma hexPairs_hexEncode: "hexPairs (hexEncode b) = (b, None)"
proof (induction b)
  case (Cons c b)
  have "(of_char c :: nat) < 256" by simp
  then have d: "of_char c div 16 < (16 :: nat)" "of_char c mod 16 < (16 :: nat)" by (simp only: less_mult_imp_div_less, simp)
  have "hexEncode (c # b) = hexDigit (of_char c div 16) # hexDigit (of_char c mod 16) # hexEncode b" by (simp add: hexEncode_def)
  then show ?case using Cons d by simp
qed (simp add: hexEncode_def)

lemma length_hexEncode [simp]: "length (hexEncode b) = 2 * length b"
  by (induction b) (simp_all add: hexEncode_def)

lemma hexDecode_hexEncode [simp]: "hexDecode (hexEncode b) = (b, None)"
  by (simp add: hexDecode_def hexPairs_hexEncode)

lemma hexDecode_length: "length (fst (hexDecode src)) = length src div 2"
proof -
  have "length (fst (hexPairs src)) \<le> length src div 2"
    by (induction src rule: hexPairs.induct) (auto split: option.splits prod.splits)
  then show ?thesis by (cases "hexPairs src") (simp add: hexDecode_def)
qed

end
