(* ===== verification/Commands.thy ===== *)
theory Commands
  imports Node GenesisProps SmallBank GoStrings
begin

text \<open>
  The files of a node and the commands that make them: the key file (privval/file.go), the genesis file (types/genesis.go) and the commands of
  cmd/commands that generate keys, the genesis document, all files of a node and the accounts of the test database.
\<close>

section \<open>Files\<close>

type_synonym files = "string \<rightharpoonup> bytes"

text \<open>
  The JSON of tendermint (\<open>tmjson\<close>) for key files and genesis documents, the JSON of \<open>jsoniter\<close> for what is printed, and
  the errors that a write reports.
\<close>

record Codec =
  pvkMarshal :: "FilePVKey \<Rightarrow> string + bytes"
  pvkUnmarshal :: "bytes \<Rightarrow> string + FilePVKey"
  docMarshal :: "GenesisDoc \<Rightarrow> string + bytes"
  docUnmarshal :: "bytes \<Rightarrow> string + GenesisDoc"
  printJSON :: "FilePVKey \<Rightarrow> string + bytes"
  pubJSON :: "PubKey option \<Rightarrow> string + bytes"
  writeErr :: "string \<Rightarrow> bytes \<Rightarrow> string option"

definition FileExists :: "string \<Rightarrow> files \<Rightarrow> bool" where
  "FileExists path fs \<longleftrightarrow> fs path \<noteq> None"

subsection \<open>The key file\<close>

definition FilePVKey_Save :: "Codec \<Rightarrow> FilePVKey \<Rightarrow> files \<Rightarrow> files res" where
  "FilePVKey_Save c pvKey fs =
     (if filePath pvKey = [] then Inl (Panic ''cannot save PrivValidator key: filePath not set'')
      else case pvkMarshal c pvKey of
        Inl err \<Rightarrow> Inl (Panic err)
      | Inr jsonBytes \<Rightarrow> (case writeErr c (filePath pvKey) jsonBytes of
          Some err \<Rightarrow> Inl (Panic err)
        | None \<Rightarrow> Inr (fs(filePath pvKey \<mapsto> jsonBytes))))"

text \<open>\<open>LoadFilePV\<close>. \<open>tmos.Exit\<close> ends the process; it is a failure with its reason.\<close>

definition LoadFilePV :: "('s, 'g) Crypto \<Rightarrow> Codec \<Rightarrow> string \<Rightarrow> files \<Rightarrow> FilePVKey res" where
  "LoadFilePV e c keyFilePath fs = (case fs keyFilePath of
      None \<Rightarrow> Inl (Panic ''exit: no such file'')
    | Some keyJSONBytes \<Rightarrow> (case pvkUnmarshal c keyJSONBytes of
        Inl err \<Rightarrow> Inl (Panic ''exit: Error reading PrivValidator key'')
      | Inr pvKey \<Rightarrow> loadFilePV e keyFilePath pvKey))"

text \<open>\<open>GenFilePV\<close> with the key that the random generator drew.\<close>

definition GenFilePV :: "('s, 'g) Crypto \<Rightarrow> PrivKey \<Rightarrow> string \<Rightarrow> FilePVKey res" where
  "GenFilePV e drawn keyFilePath = NewFilePV e drawn keyFilePath"

definition LoadOrGenFilePV :: "('s, 'g) Crypto \<Rightarrow> Codec \<Rightarrow> PrivKey \<Rightarrow> string \<Rightarrow> files \<Rightarrow> (files \<times> FilePVKey) res" where
  "LoadOrGenFilePV e c drawn keyFilePath fs =
     (if FileExists keyFilePath fs then rbind (LoadFilePV e c keyFilePath fs) (\<lambda>pv. Inr (fs, pv))
      else rbind (GenFilePV e drawn keyFilePath) (\<lambda>pv. rbind (FilePVKey_Save c pv fs) (\<lambda>fs'. Inr (fs', pv))))"

subsection \<open>The genesis file\<close>

datatype docErr = ErrNoFile | ErrJSON string | ErrDoc genErr

definition SaveAs :: "Codec \<Rightarrow> GenesisDoc \<Rightarrow> string \<Rightarrow> files \<Rightarrow> files \<times> string option" where
  "SaveAs c genDoc file fs = (case docMarshal c genDoc of
      Inl err \<Rightarrow> (fs, Some err)
    | Inr bz \<Rightarrow> (case writeErr c file bz of Some err \<Rightarrow> (fs, Some err) | None \<Rightarrow> (fs(file \<mapsto> bz), None)))"

definition GenesisDocFromJSON :: "('s, 'g) Crypto \<Rightarrow> Codec \<Rightarrow> Time \<Rightarrow> bytes \<Rightarrow> (docErr + GenesisDoc) res" where
  "GenesisDocFromJSON e c now jsonBlob = (case docUnmarshal c jsonBlob of
      Inl err \<Rightarrow> Inr (Inl (ErrJSON err))
    | Inr genDoc \<Rightarrow> rbind (ValidateAndComplete e now genDoc) (\<lambda>r. Inr (case r of Inl err \<Rightarrow> Inl (ErrDoc err) | Inr doc \<Rightarrow> Inr doc)))"

definition GenesisDocFromFile :: "('s, 'g) Crypto \<Rightarrow> Codec \<Rightarrow> Time \<Rightarrow> string \<Rightarrow> files \<Rightarrow> (docErr + GenesisDoc) res" where
  "GenesisDocFromFile e c now genDocFile fs = (case fs genDocFile of
      None \<Rightarrow> Inr (Inl ErrNoFile)
    | Some jsonBlob \<Rightarrow> GenesisDocFromJSON e c now jsonBlob)"

definition ValidatorHash :: "('s, 'g) Crypto \<Rightarrow> GenesisDoc \<Rightarrow> bytes res" where
  "ValidatorHash e genDoc = rbind (GenesisDoc_ValidatorSet e genDoc) (\<lambda>vals. Inr (ValidatorSet_Hash e vals))"

section \<open>Commands\<close>

record Config =
  PrivValidatorKeyFile :: string
  NodeKeyFile :: string
  GenesisFile :: string
  cfg_Genesis :: string

definition genValidator :: "('s, 'g) Crypto \<Rightarrow> ('s, 'g, 'p) Kyber \<Rightarrow> Codec \<Rightarrow> Config \<Rightarrow> int64 \<Rightarrow> int64 \<Rightarrow> int64 \<Rightarrow> files
    \<Rightarrow> (files \<times> bytes option) res" where
  "genValidator e K c config thres idx seed fs =
     (let privValKeyFile = PrivValidatorKeyFile config in
      if FileExists privValKeyFile fs then Inr (fs, None)
      else rbind (GenFilePVWithSeedAndIdx e K privValKeyFile thres idx seed) (\<lambda>pv.
        case printJSON c pv of
          Inl err \<Rightarrow> Inl (Panic err)
        | Inr jsbz \<Rightarrow> rbind (FilePVKey_Save c pv fs) (\<lambda>fs'. Inr (fs', Some jsbz))))"

definition genGenesisFile :: "('s, 'g) Crypto \<Rightarrow> ('s, 'g, 'p) Kyber \<Rightarrow> Codec \<Rightarrow> Config \<Rightarrow> string \<Rightarrow> int64 \<Rightarrow> nat \<Rightarrow> int64 \<Rightarrow> Time \<Rightarrow> Time
    \<Rightarrow> files \<Rightarrow> (files \<times> string option) res" where
  "genGenesisFile e K c config chainID thres cluster_count seed now0 now1 fs =
     (let genFile = GenesisFile config in
      if FileExists genFile fs then Inr (fs, None)
      else rbind (genGenesisDoc e K chainID thres cluster_count seed now0 now1) (\<lambda>genDoc. Inr (SaveAs c genDoc genFile fs)))"

text \<open>
  The node key belongs to the peer-to-peer library: its \<open>LoadOrGenNodeKey\<close> reads the key at a path or writes a new one there, and
  \<open>LoadNodeKey\<close> only reads.
\<close>

record 'nk P2P =
  LoadOrGenNodeKey :: "string \<Rightarrow> files \<Rightarrow> files \<times> (string + 'nk)"
  LoadNodeKey :: "string \<Rightarrow> files \<Rightarrow> string + 'nk"
  nodeKeyID :: "'nk \<Rightarrow> string"

definition genNodeKey :: "'nk P2P \<Rightarrow> Config \<Rightarrow> files \<Rightarrow> files \<times> (string + string)" where
  "genNodeKey P config fs =
     (if FileExists (NodeKeyFile config) fs then (fs, Inl (''node key at '' @ NodeKeyFile config @ '' already exists''))
      else case LoadOrGenNodeKey P (NodeKeyFile config) fs of
        (fs', Inl err) \<Rightarrow> (fs', Inl err)
      | (fs', Inr nodeKey) \<Rightarrow> (fs', Inr (nodeKeyID P nodeKey)))"

definition showNodeID :: "'nk P2P \<Rightarrow> Config \<Rightarrow> files \<Rightarrow> string + string" where
  "showNodeID P config fs = (case LoadNodeKey P (NodeKeyFile config) fs of
      Inl err \<Rightarrow> Inl err | Inr nodeKey \<Rightarrow> Inr (nodeKeyID P nodeKey))"

definition showValidator :: "('s, 'g) Crypto \<Rightarrow> Codec \<Rightarrow> Config \<Rightarrow> files \<Rightarrow> (string + bytes) res" where
  "showValidator e c config fs =
     (let keyFilePath = PrivValidatorKeyFile config in
      if \<not> FileExists keyFilePath fs then Inr (Inl (''private validator file '' @ keyFilePath @ '' does not exist''))
      else rbind (LoadFilePV e c keyFilePath fs) (\<lambda>pv.
        Inr (case pubJSON c (GetPubKey e (FilePV pv)) of
               Inl err \<Rightarrow> Inl (''failed to marshal private validator pubkey: '' @ err) | Inr bz \<Rightarrow> Inr bz)))"

text \<open>
  \<open>initFilesWithConfig\<close>. \<open>rnd\<close> is the random suffix of the chain id, which has no percent sign, so that \<open>fmt.Sprintf\<close>
  leaves the id alone.
\<close>

definition initGenesisDoc :: "('s, 'g) Crypto \<Rightarrow> string \<Rightarrow> Time \<Rightarrow> Time \<Rightarrow> PubKey \<Rightarrow> PubKey \<Rightarrow> GenesisDoc" where
  "initGenesisDoc e rnd now0 now1 pub_val pubKey =
     (let chainID = ''test-chain-'' @ rnd;
          genBlock = MakeGenesisBlock chainID now0;
          quorum = \<lparr>q_SLot = 0, q_BlockHash = snd (Block_Hash e genBlock), q_Type = SupportQuorum, q_Signature = []\<rparr>
      in \<lparr>GenesisTime = now1, gd_ChainID = chainID, gd_InitialSlot = 0,
          gd_Validators = [\<lparr>gv_Address = pkAddress e pubKey, gv_PubKey = Some pubKey, gv_Name = []\<rparr>],
          PubValidator = \<lparr>gv_Address = pkAddress e pub_val, gv_PubKey = Some pub_val, gv_Name = []\<rparr>,
          gd_SupportQuorum = quorum, AppHash = []\<rparr>)"

definition initKeyFile :: "('s, 'g) Crypto \<Rightarrow> ('s, 'g, 'p) Kyber \<Rightarrow> Codec \<Rightarrow> Config \<Rightarrow> int64 \<Rightarrow> int64 \<Rightarrow> int64 \<Rightarrow> files \<Rightarrow> (files \<times> FilePVKey) res" where
  "initKeyFile e K c config thres idx seed fs =
     (let privValKeyFile = PrivValidatorKeyFile config in
      if FileExists privValKeyFile fs then rbind (LoadFilePV e c privValKeyFile fs) (\<lambda>pv. Inr (fs, pv))
      else rbind (GenFilePVWithSeedAndIdx e K privValKeyFile thres idx seed) (\<lambda>pv.
           rbind (FilePVKey_Save c pv fs) (\<lambda>fs'. Inr (fs', pv))))"

definition initNodeKey :: "'nk P2P \<Rightarrow> Config \<Rightarrow> files \<Rightarrow> files \<times> string option" where
  "initNodeKey P config fs =
     (if FileExists (NodeKeyFile config) fs then (fs, None)
      else case LoadOrGenNodeKey P (NodeKeyFile config) fs of (fs', Inl err) \<Rightarrow> (fs', Some err) | (fs', Inr _) \<Rightarrow> (fs', None))"

definition initFilesWithConfig :: "('s, 'g) Crypto \<Rightarrow> ('s, 'g, 'p) Kyber \<Rightarrow> Codec \<Rightarrow> 'nk P2P \<Rightarrow> Config \<Rightarrow> int64 \<Rightarrow> int64 \<Rightarrow> int64
    \<Rightarrow> string \<Rightarrow> Time \<Rightarrow> Time \<Rightarrow> files \<Rightarrow> (files \<times> string option) res" where
  "initFilesWithConfig e K c P config thres idx seed rnd now0 now1 fs =
     rbind (initKeyFile e K c config thres idx seed fs) (\<lambda>(fs1, pv).
     case initNodeKey P config fs1 of
       (fs2, Some err) \<Rightarrow> Inr (fs2, Some err)
     | (fs2, None) \<Rightarrow>
         rbind (deref (GenPrimaryKeyWithSeed K seed)) (\<lambda>pub_val.
         let genFile = GenesisFile config in
         if FileExists genFile fs2 then Inr (fs2, None)
         else rbind (deref (GetPubKey e (FilePV pv))) (\<lambda>pubKey.
           Inr (SaveAs c (initGenesisDoc e rnd now0 now1 pub_val pubKey) genFile fs2))))"

subsection \<open>The test database\<close>

definition initAccount :: "'d DB \<Rightarrow> 'd \<Rightarrow> string \<Rightarrow> int64 \<Rightarrow> int64 \<Rightarrow> int64 \<Rightarrow> 'd" where
  "initAccount D d name aid saving checking =
     (let accountKey = GenKey TableAccount (KString name);
          customID = Int2byte aid;
          d1 = dbSet D accountKey customID d;
          d2 = dbSet D (GenKey TableChecking (KBytes customID)) (Int2byte checking) d1
      in dbSet D (GenKey TableSaving (KBytes customID)) (Int2byte saving) d2)"

text \<open>
  Databases have a name and a directory. \<open>openErr\<close> is the error of opening one, and a database that is opened for the first time
  is \<open>nodb\<close>.
\<close>

type_synonym 'd databases = "string \<times> string \<rightharpoonup> 'd"

definition openDB :: "'d \<Rightarrow> string \<Rightarrow> string \<Rightarrow> 'd databases \<Rightarrow> 'd" where
  "openDB nodb name dir dbs = (case dbs (name, dir) of None \<Rightarrow> nodb | Some d \<Rightarrow> d)"

fun initDB_loop :: "'d DB \<Rightarrow> nat list \<Rightarrow> 'd \<Rightarrow> 'd" where
  "initDB_loop D [] d = d"
| "initDB_loop D (i # is) d = initDB_loop D is (initAccount D d (''username'' @ Itoa (of_nat i + 1)) (of_nat i + 1) 200 200)"

definition initDB :: "'d DB \<Rightarrow> (string \<Rightarrow> string \<Rightarrow> string option) \<Rightarrow> 'd \<Rightarrow> string \<Rightarrow> int64 \<Rightarrow> 'd databases \<Rightarrow> 'd databases \<times> string option" where
  "initDB D openErr nodb dbdir accountSum dbs = (case openErr ''smallbank'' dbdir of
      Some err \<Rightarrow> (dbs, Some err)
    | None \<Rightarrow>
        if sint accountSum < 0 then (dbs, Some ''account sum must > 0'')
        else (dbs((''smallbank'', dbdir) \<mapsto> initDB_loop D [0..<nat (sint accountSum)] (openDB nodb ''smallbank'' dbdir dbs)), None))"

text \<open>\<open>createLevelDB\<close> of the node: the store of the node opens another database; a store that cannot be opened is a nil pointer.\<close>

definition createLevelDB :: "(string \<Rightarrow> string \<Rightarrow> string option) \<Rightarrow> 'd \<Rightarrow> int32 \<Rightarrow> string \<Rightarrow> 'd databases \<Rightarrow> 'd KVStore option" where
  "createLevelDB openErr nodb rnd dbDir dbs = (case openErr ''state'' dbDir of
      Some err \<Rightarrow> None
    | None \<Rightarrow> Some \<lparr>kvDB = openDB nodb ''state'' dbDir dbs, increasingID = rnd\<rparr>)"

subsection \<open>Starting a node\<close>

definition checkGenesisHash :: "(bytes \<Rightarrow> bytes) \<Rightarrow> bytes \<Rightarrow> Config \<Rightarrow> files \<Rightarrow> string option" where
  "checkGenesisHash sha256 genesisHash config fs =
     (if length genesisHash = 0 \<or> cfg_Genesis config = [] then None
      else case fs (GenesisFile config) of
        None \<Rightarrow> Some ''can't open genesis file''
      | Some f \<Rightarrow> if genesisHash \<noteq> sha256 f then Some ''--genesis_hash does not match'' else None)"

datatype startErr = ErrNoKeyFile | ErrHash string | ErrGenesis docErr

text \<open>\<open>NewNode\<close> from the files, as far as it builds the consensus state, after the check of the genesis hash.\<close>

definition runNode :: "('s, 'g) Crypto \<Rightarrow> Codec \<Rightarrow> (bytes \<Rightarrow> bytes) \<Rightarrow> bytes \<Rightarrow> Config \<Rightarrow> Time \<Rightarrow> Time \<Rightarrow> 'db \<Rightarrow> files \<Rightarrow> (startErr + 'db World) res" where
  "runNode e c sha256 genesisHash config now0 now1 innerDB fs = (case checkGenesisHash sha256 genesisHash config fs of
      Some err \<Rightarrow> Inr (Inl (ErrHash err))
    | None \<Rightarrow>
        if PrivValidatorKeyFile config = [] then Inr (Inl ErrNoKeyFile)
        else rbind (LoadFilePV e c (PrivValidatorKeyFile config) fs) (\<lambda>privValidator.
          rbind (GenesisDocFromFile e c now0 (GenesisFile config) fs) (\<lambda>r. case r of
            Inl err \<Rightarrow> Inr (Inl (ErrGenesis err))
          | Inr genDoc \<Rightarrow> rbind (NewNode e privValidator genDoc now1 innerDB) (\<lambda>w. Inr (Inr w)))))"

section \<open>Round trips of the files\<close>

text \<open>
  What JSON promises: what was marshalled is read back, but for the path of a key file, which is not part of the JSON.
\<close>

definition codec_laws :: "Codec \<Rightarrow> bool" where
  "codec_laws c \<longleftrightarrow> (\<forall>k b. pvkMarshal c k = Inr b \<longrightarrow> pvkUnmarshal c b = Inr (k\<lparr>filePath := []\<rparr>))
     \<and> (\<forall>doc b. docMarshal c doc = Inr b \<longrightarrow> docUnmarshal c b = Inr doc)"

text \<open>The keys of the program are BLS keys: both views of a key have the same public key.\<close>

definition bls_keys :: "('s, 'g) Crypto \<Rightarrow> ('s, 'g, 'p) Kyber \<Rightarrow> bool" where
  "bls_keys e K \<longleftrightarrow> privPubKey e = PrivKey_PubKey K"

lemma Load_Save:
  assumes "codec_laws c" "NewFilePV e priv path = Inr pv" "FilePVKey_Save c pv fs = Inr fs'" "fs'' path = fs' path"
  shows "LoadFilePV e c path fs'' = Inr pv"
proof -
  obtain pub where pub: "privPubKey e priv = Some pub"
    and pv: "pv = \<lparr>pvk_Address = pkAddress e pub, pvk_PubKey = Some pub, pvk_PrivKey = priv, filePath = path\<rparr>"
    using assms(2) by (auto simp: NewFilePV_def)
  obtain b where b: "pvkMarshal c pv = Inr b" "fs' path = Some b"
    using assms(3) pv by (auto simp: FilePVKey_Save_def split: if_splits sum.splits option.splits)
  then have "pvkUnmarshal c b = Inr (pv\<lparr>filePath := []\<rparr>)" using assms(1) by (simp add: codec_laws_def)
  then show ?thesis using b(2) assms(4) pub by (simp add: LoadFilePV_def loadFilePV_def pv)
qed

lemma SaveAs_stored:
  assumes "codec_laws c" "SaveAs c doc file fs = (fs', None)"
  shows "\<exists>b. fs' = fs(file \<mapsto> b) \<and> docUnmarshal c b = Inr doc"
  using assms by (auto simp: SaveAs_def codec_laws_def split: sum.splits option.splits)

lemma FilePVKey_Save_frame:
  assumes "FilePVKey_Save c pv fs = Inr fs'"
  shows "\<exists>b. fs' = fs(filePath pv \<mapsto> b)"
  using assms by (auto simp: FilePVKey_Save_def split: if_splits sum.splits option.splits)

lemma case_Inl_Inr: "(case r of Inl a \<Rightarrow> Inl (f a) | Inr x \<Rightarrow> g x) = Inr y \<longleftrightarrow> (\<exists>x. r = Inr x \<and> g x = Inr y)"
  by (cases r) auto

lemma filePath_Gen: "GenFilePVWithSeedAndIdx e K path thres idx seed = Inr pv \<Longrightarrow> \<exists>priv. NewFilePV e priv path = Inr pv"
  by (auto simp: GenFilePVWithSeedAndIdx_def Let_def case_Inl_Inr)

lemma filePath_New: "NewFilePV e priv path = Inr pv \<Longrightarrow> filePath pv = path"
  by (auto simp: NewFilePV_def)

section \<open>The keys of a cluster\<close>

lemma genValidators_nth:
  assumes "genValidators e K p ids = Inr vs"
  shows "length vs = length ids \<and> (\<forall>i < length ids. \<exists>r pub. GetValue K p (of_nat (ids ! i)) = Inr r
     \<and> PrivKey_PubKey K (case r of Inl err \<Rightarrow> [] | Inr x \<Rightarrow> x) = Some pub
     \<and> gv_PubKey (vs ! i) = Some pub \<and> gv_Address (vs ! i) = pkAddress e pub)"
  using assms
proof (induction ids arbitrary: vs)
  case (Cons k ids)
  then obtain r pub ws where "GetValue K p (of_nat k) = Inr r" "PrivKey_PubKey K (case r of Inl err \<Rightarrow> [] | Inr x \<Rightarrow> x) = Some pub"
    "genValidators e K p ids = Inr ws"
    "vs = \<lparr>gv_Address = pkAddress e pub, gv_PubKey = Some pub, gv_Name = ''validator-'' @ Itoa (of_nat k)\<rparr> # ws"
    by (auto simp: Let_def)
  with Cons.IH [of ws] show ?case by (auto simp: nth_Cons split: nat.split)
qed simp

text \<open>The generated document: its validators are the shares of the cluster key, in order.\<close>

lemma genGenesisDoc_ok:
  assumes "genGenesisDoc e K chainID thres n seed now0 now1 = Inr doc"
  obtains p where "Master K (GenPrivKeyWithSeed K seed) thres seed = Inr (Some p)" "genValidators e K p [1..<Suc n] = Inr (gd_Validators doc)"
    "gd_ChainID doc = chainID" "gd_InitialSlot doc = 0" "gv_PubKey (PubValidator doc) \<noteq> None"
  using assms by (cases "Block_Hash e (MakeGenesisBlock chainID now0)") (auto simp: genGenesisDoc_def Let_def simp del: upt_Suc)

lemma genGenesisDoc_validators:
  assumes "genGenesisDoc e K chainID thres n seed now0 now1 = Inr doc" "Master K (GenPrivKeyWithSeed K seed) thres seed = Inr (Some p)"
  shows "length (gd_Validators doc) = n"
    "\<forall>v \<in> set (gd_Validators doc). \<exists>pk. gv_PubKey v = Some pk \<and> gv_Address v = pkAddress e pk"
    "1 \<le> k \<Longrightarrow> k \<le> n \<Longrightarrow> GetValue K p (of_nat k) = Inr (Inr priv) \<Longrightarrow> PrivKey_PubKey K priv = Some pub
      \<Longrightarrow> gv_PubKey (gd_Validators doc ! (k - 1)) = Some pub \<and> gv_Address (gd_Validators doc ! (k - 1)) = pkAddress e pub"
proof -
  obtain q where q: "Master K (GenPrivKeyWithSeed K seed) thres seed = Inr (Some q)" "genValidators e K q [1..<Suc n] = Inr (gd_Validators doc)"
    by (rule genGenesisDoc_ok [OF assms(1)])
  have "q = p" using q(1) assms(2) by simp
  note nth = genValidators_nth [OF q(2) [unfolded this]]
  then show "length (gd_Validators doc) = n" by simp
  show "\<forall>v \<in> set (gd_Validators doc). \<exists>pk. gv_PubKey v = Some pk \<and> gv_Address v = pkAddress e pk"
  proof
    fix v assume "v \<in> set (gd_Validators doc)"
    then obtain i where "i < length (gd_Validators doc)" "v = gd_Validators doc ! i" by (auto simp: in_set_conv_nth)
    then show "\<exists>pk. gv_PubKey v = Some pk \<and> gv_Address v = pkAddress e pk" using nth by metis
  qed
  assume k: "1 \<le> k" "k \<le> n" "GetValue K p (of_nat k) = Inr (Inr priv)" "PrivKey_PubKey K priv = Some pub"
  then have "k - 1 < length [1..<Suc n]" "[1..<Suc n] ! (k - 1) = k" by (simp_all del: upt_Suc)
  with k nth show "gv_PubKey (gd_Validators doc ! (k - 1)) = Some pub \<and> gv_Address (gd_Validators doc ! (k - 1)) = pkAddress e pub" by fastforce
qed

lemma genValidator_ok:
  assumes "genValidator e K c config thres idx seed fs = Inr (fs', out)" "\<not> FileExists (PrivValidatorKeyFile config) fs"
  obtains p priv pv where "Master K (GenPrivKeyWithSeed K seed) thres seed = Inr (Some p)" "GetValue K p idx = Inr (Inr priv)"
    "NewFilePV e priv (PrivValidatorKeyFile config) = Inr pv" "FilePVKey_Save c pv fs = Inr fs'"
  using assms by (auto simp: genValidator_def GenFilePVWithSeedAndIdx_def Let_def case_Inl_Inr)

text \<open>A document whose validators carry the addresses of their keys starts a node with every key file that has a key.\<close>

lemma complete_doc_starts:
  assumes doc: "\<forall>v \<in> set (gd_Validators doc). \<exists>pk. gv_PubKey v = Some pk \<and> gv_Address v = pkAddress e pk"
    and ok: "gd_ChainID doc \<noteq> []" "length (gd_ChainID doc) \<le> 50" "gd_InitialSlot doc = 0" "gv_PubKey (PubValidator doc) \<noteq> None"
    and pv: "pvk_PubKey pv = Some pub"
  shows "\<exists>doc' w. ValidateAndComplete e now doc = Inr (Inr doc') \<and> NewNode e pv doc' now' d = Inr w
    \<and> cs_Validators (cs w) = \<lparr>Validators = map (\<lambda>v. \<lparr>val_Address = gv_Address v, val_PubKey = gv_PubKey v\<rparr>) (gd_Validators doc)\<rparr>
    \<and> ValIndex (cs w) = fst (GetByAddress (cs_Validators (cs w)) (pkAddress e pub)) \<and> PrivVal (cs w) = Some (FilePV pv)"
proof -
  let ?doc = "doc\<lparr>GenesisTime := (if GenesisTime doc = zeroTime then now else GenesisTime doc)\<rparr>"
  have v: "ValidateAndComplete e now doc = Inr (Inr ?doc)"
    using ok completeValidators_done [OF doc] by (simp add: ValidateAndComplete_def MaxChainIDLen_def)
  have s: "GenesisDoc_ValidatorSet e ?doc = Inr \<lparr>Validators = map (\<lambda>v. \<lparr>val_Address = gv_Address v, val_PubKey = gv_PubKey v\<rparr>) (gd_Validators doc)\<rparr>"
    using newValidators_addresses [OF doc] by (simp add: GenesisDoc_ValidatorSet_def NewValidatorSet_def)
  obtain pk where "gv_PubKey (PubValidator doc) = Some pk" using ok(4) by auto
  then show ?thesis using v s pv
    by (auto simp: NewNode_def loadState_def PublicValidator_def NewValidator_def Let_def NewDefaultConsensusState_def SetValidtor_def
        SetValidtorSet_def NewConsensusState_def MakeGenesisState_def NewState_def newBlock_def newSet_def newTree_def split: prod.splits)
qed

section \<open>Accounts of the test database\<close>

text \<open>What the account of a user reads after it was made, and that other accounts are left alone.\<close>

definition holds200 :: "'d DB \<Rightarrow> 'd \<Rightarrow> int64 \<Rightarrow> bool" where
  "holds200 D d i \<longleftrightarrow> dbGet D d (GenKey TableAccount (KString (''username'' @ Itoa i))) = Inr (Some (Int2byte i))
     \<and> dbGet D d (GenKey TableChecking (KInt i)) = Inr (Some (Int2byte 200)) \<and> dbGet D d (GenKey TableSaving (KInt i)) = Inr (Some (Int2byte 200))"

lemma holds200_initAccount:
  assumes "db_laws D"
  shows "holds200 D (initAccount D d (''username'' @ Itoa i) i 200 200) i"
    "holds200 D d i \<Longrightarrow> holds200 D (initAccount D d (''username'' @ Itoa j) j 200 200) i"
  using db_lawsD(1) [OF assms]
  by (simp_all add: holds200_def initAccount_def Let_def Itoa_inject del: GenKey.simps)

lemma holds200_initDB_loop:
  assumes "db_laws D"
  shows "i \<in> set is \<or> holds200 D d (of_nat i + 1) \<Longrightarrow> holds200 D (initDB_loop D is d) (of_nat i + 1)"
proof (induction "is" arbitrary: d)
  case (Cons j "is")
  have "i \<in> set is \<or> holds200 D (initAccount D d (''username'' @ Itoa (of_nat j + 1)) (of_nat j + 1) 200 200) (of_nat i + 1)"
    using Cons.prems holds200_initAccount [OF assms, of d "of_nat i + 1"] by auto
  then show ?case using Cons.IH by simp
qed simp

section \<open>Initialising twice\<close>

text \<open>
  Documented behaviour of \<open>LoadOrGenNodeKey\<close>: where there is no file, it writes one at the path and nowhere else.
\<close>

definition p2p_laws :: "'nk P2P \<Rightarrow> bool" where
  "p2p_laws P \<longleftrightarrow> (\<forall>path fs fs' nk. fs path = None \<and> LoadOrGenNodeKey P path fs = (fs', Inr nk) \<longrightarrow> (\<exists>b. fs' = fs(path \<mapsto> b)))"

text \<open>The stages of \<open>initFilesWithConfig\<close>: each only adds a file that was missing.\<close>

lemma initKeyFile_ok:
  assumes "initKeyFile e K c config thres idx seed fs = Inr (fs1, pv)" "codec_laws c"
  shows "fs \<subseteq>\<^sub>m fs1" "\<And>fs2. fs1 \<subseteq>\<^sub>m fs2 \<Longrightarrow> initKeyFile e K c config thres' idx' seed' fs2 = Inr (fs2, pv)"
proof -
  let ?key = "PrivValidatorKeyFile config"
  have 1: "fs \<subseteq>\<^sub>m fs1 \<and> LoadFilePV e c ?key fs1 = Inr pv \<and> FileExists ?key fs1"
  proof (cases "FileExists ?key fs")
    case False
    then obtain priv where p: "NewFilePV e priv ?key = Inr pv" "FilePVKey_Save c pv fs = Inr fs1"
      using assms(1) filePath_Gen by (fastforce simp: initKeyFile_def Let_def)
    then show ?thesis using Load_Save [OF assms(2) p, of fs1] FilePVKey_Save_frame [OF p(2)] filePath_New [OF p(1)] False
      by (auto simp: map_le_def FileExists_def)
  qed (use assms(1) in \<open>auto simp: initKeyFile_def Let_def\<close>)
  then show "fs \<subseteq>\<^sub>m fs1" by blast
  fix fs2 assume "fs1 \<subseteq>\<^sub>m fs2"
  with 1 have "fs2 ?key = fs1 ?key" by (auto simp: map_le_def FileExists_def) (metis domI)
  with 1 show "initKeyFile e K c config thres' idx' seed' fs2 = Inr (fs2, pv)"
    by (simp add: initKeyFile_def LoadFilePV_def FileExists_def Let_def)
qed

lemma initNodeKey_ok:
  assumes "initNodeKey P config fs = (fs', None)" "p2p_laws P"
  shows "fs \<subseteq>\<^sub>m fs'" "\<And>fs2. fs' \<subseteq>\<^sub>m fs2 \<Longrightarrow> initNodeKey P config fs2 = (fs2, None)"
proof -
  let ?nk = "NodeKeyFile config"
  have 1: "fs \<subseteq>\<^sub>m fs' \<and> fs' ?nk \<noteq> None"
  proof (cases "fs ?nk")
    case None
    then obtain nk where "LoadOrGenNodeKey P ?nk fs = (fs', Inr nk)"
      using assms(1) by (auto simp: initNodeKey_def FileExists_def split: prod.splits sum.splits)
    then obtain b where "fs' = fs(?nk \<mapsto> b)" using assms(2) None unfolding p2p_laws_def by blast
    then show ?thesis using None by (auto simp: map_le_def)
  qed (use assms(1) in \<open>auto simp: initNodeKey_def FileExists_def\<close>)
  then show "fs \<subseteq>\<^sub>m fs'" by blast
  fix fs2 assume "fs' \<subseteq>\<^sub>m fs2"
  with 1 have "fs2 ?nk \<noteq> None" by (auto simp: map_le_def) (metis domI option.distinct(1))
  then show "initNodeKey P config fs2 = (fs2, None)" by (simp add: initNodeKey_def FileExists_def)
qed

section \<open>A cluster of two\<close>

text \<open>
  Keys over the rational numbers, the document of a cluster of two, and a codec that writes exactly such keys and this document.
\<close>

definition clusterCrypto :: "(rat, rat) Crypto" where
  "clusterCrypto = plainCrypto\<lparr>privPubKey := PrivKey_PubKey ratKyber\<rparr>"

definition clusterDoc :: GenesisDoc where
  "clusterDoc = projr (genGenesisDoc clusterCrypto ratKyber ''c'' 1 2 7 1 1)"

definition clusterCodec :: Codec where
  "clusterCodec = (let dec = (\<lambda>b. \<lparr>pvk_Address = take 20 b, pvk_PubKey = Some b, pvk_PrivKey = b, filePath = []\<rparr>) in
     \<lparr>pvkMarshal = (\<lambda>k. if k\<lparr>filePath := []\<rparr> = dec (pvk_PrivKey k) then Inr (pvk_PrivKey k) else Inl ''json''),
      pvkUnmarshal = (\<lambda>b. Inr (dec b)),
      docMarshal = (\<lambda>doc. if doc = clusterDoc then Inr ''doc'' else Inl ''json''), docUnmarshal = (\<lambda>b. Inr clusterDoc),
      printJSON = (\<lambda>k. Inr []), pubJSON = (\<lambda>k. Inr []), writeErr = (\<lambda>f b. None)\<rparr>)"

definition clusterConfig :: Config where
  "clusterConfig = \<lparr>PrivValidatorKeyFile = ''key'', NodeKeyFile = ''node'', GenesisFile = ''genesis'', cfg_Genesis = ''genesis''\<rparr>"

definition clusterP2P :: "unit P2P" where
  "clusterP2P = \<lparr>LoadOrGenNodeKey = (\<lambda>path fs. (fs(path \<mapsto> ''node key''), Inr ())), LoadNodeKey = (\<lambda>path fs. Inr ()), nodeKeyID = (\<lambda>_. ''id'')\<rparr>"

lemma cluster_laws: "codec_laws clusterCodec" "bls_keys clusterCrypto ratKyber" "p2p_laws clusterP2P"
  by (auto simp: codec_laws_def clusterCodec_def Let_def bls_keys_def clusterCrypto_def p2p_laws_def clusterP2P_def split: if_splits)

lemma cluster_keys:
  "Master ratKyber (GenPrivKeyWithSeed ratKyber 7) 1 7 = Inr (Some \<lparr>polys = [3, 3], poly_seed = 7\<rparr>)"
  "GetValue ratKyber \<lparr>polys = [3, 3], poly_seed = 7\<rparr> 1 = Inr (Inr (unary 6))"
  "GetValue ratKyber \<lparr>polys = [3, 3], poly_seed = 7\<rparr> 2 = Inr (Inr (unary 9))"
  "PrivKey_PubKey ratKyber (unary 6) = Some (unary 6)" "PrivKey_PubKey ratKyber (unary 9) = Some (unary 9)"
  by (simp_all add: Master_def GenPrivKeyWithSeed_def ToKyber_def ratKyber_def unary_def GetValue_def getValue_def PrivKey_PubKey_def index_def Kyber2PrivKey_def)

lemma cluster_doc:
  "genGenesisDoc clusterCrypto ratKyber ''c'' 1 2 7 1 1 = Inr clusterDoc"
  "map gv_Address (gd_Validators clusterDoc) = [unary 6, unary 9]" "gd_Validators clusterDoc \<noteq> []"
proof -
  have a: "pkAddress clusterCrypto (unary 6) = unary 6" "pkAddress clusterCrypto (unary 9) = unary 9"
    by (simp_all add: clusterCrypto_def plainCrypto_def unary_def)
  have "[1..<Suc 2] = [1, 2]" by (simp add: upt_rec)
  then have v: "genValidators clusterCrypto ratKyber \<lparr>polys = [3, 3], poly_seed = 7\<rparr> [1..<Suc 2] =
      Inr [\<lparr>gv_Address = unary 6, gv_PubKey = Some (unary 6), gv_Name = ''validator-'' @ Itoa 1\<rparr>,
           \<lparr>gv_Address = unary 9, gv_PubKey = Some (unary 9), gv_Name = ''validator-'' @ Itoa 2\<rparr>]"
    using a cluster_keys by (simp add: Let_def del: upt_Suc)
  have "PrivKey_PubKey ratKyber (GenPrivKeyWithSeed ratKyber 7) \<noteq> None" by (simp add: PrivKey_PubKey_def ratKyber_def)
  then obtain pub where p: "PrivKey_PubKey ratKyber (GenPrivKeyWithSeed ratKyber 7) = Some pub" by auto
  obtain b h where h: "Block_Hash clusterCrypto (MakeGenesisBlock ''c'' 1) = (b, h)" by (cases "Block_Hash clusterCrypto (MakeGenesisBlock ''c'' 1)")
  have "\<exists>doc. genGenesisDoc clusterCrypto ratKyber ''c'' 1 2 7 1 1 = Inr doc \<and> map gv_Address (gd_Validators doc) = [unary 6, unary 9]"
    unfolding genGenesisDoc_def Let_def using cluster_keys(1) v p h by (simp del: upt_Suc)
  then show "genGenesisDoc clusterCrypto ratKyber ''c'' 1 2 7 1 1 = Inr clusterDoc" "map gv_Address (gd_Validators clusterDoc) = [unary 6, unary 9]"
    "gd_Validators clusterDoc \<noteq> []"
    by (auto simp: clusterDoc_def)
qed

section \<open>Properties\<close>

text \<open>
  Initialising is safe to repeat: when \<open>init\<close> succeeds it has changed no file that was there before, and running it
  again, with whatever other index, threshold, clock and random numbers, succeeds and changes nothing.
\<close>

theorem init_idempotent:
  assumes "codec_laws c" "p2p_laws P" "initFilesWithConfig e K c P config thres idx seed rnd now0 now1 fs = Inr (fs', None)"
  shows "fs \<subseteq>\<^sub>m fs' \<and> initFilesWithConfig e K c P config thres' idx' seed rnd' now0' now1' fs' = Inr (fs', None)"
proof -
  obtain fs1 pv where k: "initKeyFile e K c config thres idx seed fs = Inr (fs1, pv)"
    using assms(3) by (auto simp: initFilesWithConfig_def)
  obtain fs2 where n: "initNodeKey P config fs1 = (fs2, None)"
    using assms(3) k by (auto simp: initFilesWithConfig_def split: prod.splits option.splits)
  have g: "fs2 \<subseteq>\<^sub>m fs' \<and> FileExists (GenesisFile config) fs' \<and> GenPrimaryKeyWithSeed K seed \<noteq> None"
  proof (cases "FileExists (GenesisFile config) fs2")
    case False
    then obtain doc where "SaveAs c doc (GenesisFile config) fs2 = (fs', None)" "GenPrimaryKeyWithSeed K seed \<noteq> None"
      using assms(3) k n by (auto simp: initFilesWithConfig_def Let_def)
    then show ?thesis using SaveAs_stored [OF assms(1)] False by (fastforce simp: map_le_def FileExists_def)
  qed (use assms(3) k n in \<open>auto simp: initFilesWithConfig_def Let_def\<close>)
  note kk = initKeyFile_ok [OF k assms(1)] and nn = initNodeKey_ok [OF n assms(2)]
  have "fs1 \<subseteq>\<^sub>m fs'" using nn(1) g map_le_trans by blast
  then show ?thesis using kk nn(2) g map_le_trans [OF kk(1)] by (auto simp: initFilesWithConfig_def Let_def)
qed

theorem init_idempotent_witness:
  "\<exists>fs'. initFilesWithConfig clusterCrypto ratKyber clusterCodec clusterP2P clusterConfig 1 1 7 ''x'' 0 0 [''genesis'' \<mapsto> ''doc''] = Inr (fs', None)
     \<and> initFilesWithConfig clusterCrypto ratKyber clusterCodec clusterP2P clusterConfig 1 2 7 ''y'' 3 4 fs' = Inr (fs', None)"
proof -
  have "PrivKey_PubKey ratKyber (GenPrivKeyWithSeed ratKyber 7) \<noteq> None" by (simp add: PrivKey_PubKey_def ratKyber_def)
  moreover have "NewFilePV clusterCrypto (unary 6) ''key'' = Inr \<lparr>pvk_Address = unary 6, pvk_PubKey = Some (unary 6), pvk_PrivKey = unary 6, filePath = ''key''\<rparr>"
    using cluster_keys(4) by (simp add: NewFilePV_def clusterCrypto_def plainCrypto_def unary_def)
  ultimately obtain fs' where
    "initFilesWithConfig clusterCrypto ratKyber clusterCodec clusterP2P clusterConfig 1 1 7 ''x'' 0 0 [''genesis'' \<mapsto> ''doc''] = Inr (fs', None)"
    using cluster_keys(1,2)
    by (auto simp: initFilesWithConfig_def initKeyFile_def initNodeKey_def GenFilePVWithSeedAndIdx_def FileExists_def FilePVKey_Save_def
        clusterCodec_def clusterConfig_def clusterP2P_def GenPrimaryKeyWithSeed_def Let_def unary_def)
  from this init_idempotent [OF cluster_laws(1,3) this] show ?thesis by blast
qed

text \<open>
  (C11) A cluster fits together: if the genesis file is generated for \<open>n\<close> validators and the key of validator \<open>k\<close> elsewhere with the
  same seed and threshold, then a node with these two files starts, knows \<open>n\<close> validators, takes the place \<open>k - 1\<close> among them
  and its public key is the one listed there (for addresses that do not collide).
\<close>

theorem cluster_node_starts:
  assumes "bls_keys e K" "codec_laws c"
    and "genGenesisFile e K c config chainID thres n seed now0 now1 fs1 = Inr (fs1', None)" "\<not> FileExists (GenesisFile config) fs1"
    and "genValidator e K c config thres (of_nat k) seed fs2 = Inr (fs2', out)" "\<not> FileExists (PrivValidatorKeyFile config) fs2"
    and "1 \<le> k" "k \<le> n" "chainID \<noteq> []" "length chainID \<le> 50"
    and "fs (GenesisFile config) = fs1' (GenesisFile config)" "fs (PrivValidatorKeyFile config) = fs2' (PrivValidatorKeyFile config)"
    and "\<forall>doc. GenesisDocFromFile e c now (GenesisFile config) fs = Inr (Inr doc) \<longrightarrow> distinct (map gv_Address (gd_Validators doc))"
  shows "\<exists>w pv. runNode e c sha [] config now now' d fs = Inr (Inr w) \<and> length (Validators (cs_Validators (cs w))) = n
    \<and> ValIndex (cs w) = of_nat (k - 1) \<and> PrivVal (cs w) = Some (FilePV pv) \<and> val_PubKey (Validators (cs_Validators (cs w)) ! (k - 1)) = pvk_PubKey pv"
proof -
  obtain doc where gd: "genGenesisDoc e K chainID thres n seed now0 now1 = Inr doc" "SaveAs c doc (GenesisFile config) fs1 = (fs1', None)"
    using assms(3,4) by (auto simp: genGenesisFile_def Let_def)
  obtain b where b: "fs (GenesisFile config) = Some b" "docUnmarshal c b = Inr doc" using SaveAs_stored [OF assms(2) gd(2)] assms(11) by auto
  obtain p priv pv where pv: "Master K (GenPrivKeyWithSeed K seed) thres seed = Inr (Some p)" "GetValue K p (of_nat k) = Inr (Inr priv)"
    "NewFilePV e priv (PrivValidatorKeyFile config) = Inr pv" "FilePVKey_Save c pv fs2 = Inr fs2'" by (rule genValidator_ok [OF assms(5,6)])
  have path: "PrivValidatorKeyFile config \<noteq> []" using pv(4) filePath_New [OF pv(3)] by (auto simp: FilePVKey_Save_def)
  note load = Load_Save [OF assms(2) pv(3,4), of fs, OF assms(12)]
  from pv(3) obtain pub where pub: "PrivKey_PubKey K priv = Some pub" "pvk_PubKey pv = Some pub"
    using assms(1) by (auto simp: NewFilePV_def bls_keys_def)
  have vs: "gd_ChainID doc = chainID" "gd_InitialSlot doc = 0" "gv_PubKey (PubValidator doc) \<noteq> None"
    by (rule genGenesisDoc_ok [OF gd(1)]; simp)+
  note len = genGenesisDoc_validators(1) [OF gd(1) pv(1)] and all = genGenesisDoc_validators(2) [OF gd(1) pv(1)]
  have kth: "gv_PubKey (gd_Validators doc ! (k - 1)) = Some pub" "gv_Address (gd_Validators doc ! (k - 1)) = pkAddress e pub"
    using genGenesisDoc_validators(3) [OF gd(1) pv(1) assms(7,8) pv(2) pub(1)] by blast+
  obtain doc' w where w: "ValidateAndComplete e now doc = Inr (Inr doc')" "NewNode e pv doc' now' d = Inr w"
    "cs_Validators (cs w) = \<lparr>Validators = map (\<lambda>v. \<lparr>val_Address = gv_Address v, val_PubKey = gv_PubKey v\<rparr>) (gd_Validators doc)\<rparr>"
    "ValIndex (cs w) = fst (GetByAddress (cs_Validators (cs w)) (pkAddress e pub))" "PrivVal (cs w) = Some (FilePV pv)"
    using complete_doc_starts [OF all _ _ vs(2,3) pub(2), of now now' d] vs(1) assms(9,10) by auto
  have doc: "GenesisDocFromFile e c now (GenesisFile config) fs = Inr (Inr doc')"
    using b w(1) by (simp add: GenesisDocFromFile_def GenesisDocFromJSON_def)
  have "gd_Validators doc' = gd_Validators doc" using w(1) completeValidators_done [OF all]
    by (auto simp: ValidateAndComplete_def split: if_splits)
  then have "distinct (map gv_Address (gd_Validators doc))" using assms(13) doc by auto
  then have "ValIndex (cs w) = of_nat (k - 1)"
    using w(3,4) kth(2) GetByAddress_loop_at [of "Validators (cs_Validators (cs w))" "k - 1" 0] assms(7,8) len
    by (simp add: GetByAddress_def comp_def)
  then show ?thesis using w load doc path kth(1) pub(2) len assms(7,8)
    by (intro exI [of _ w] exI [of _ pv]) (simp add: runNode_def checkGenesisHash_def)
qed

lemma cluster_commands:
  "genGenesisFile clusterCrypto ratKyber clusterCodec clusterConfig ''c'' 1 2 7 1 1 Map.empty = Inr ([''genesis'' \<mapsto> ''doc''], None)"
  "genValidator clusterCrypto ratKyber clusterCodec clusterConfig 1 (of_nat 2) 7 Map.empty = Inr ([''key'' \<mapsto> unary 9], Some [])"
proof -
  show "genGenesisFile clusterCrypto ratKyber clusterCodec clusterConfig ''c'' 1 2 7 1 1 Map.empty = Inr ([''genesis'' \<mapsto> ''doc''], None)"
    using cluster_doc(1) by (simp add: genGenesisFile_def FileExists_def SaveAs_def clusterCodec_def clusterConfig_def Let_def)
  have "NewFilePV clusterCrypto (unary 9) ''key'' = Inr \<lparr>pvk_Address = unary 9, pvk_PubKey = Some (unary 9), pvk_PrivKey = unary 9, filePath = ''key''\<rparr>"
    using cluster_keys(5) by (simp add: NewFilePV_def clusterCrypto_def plainCrypto_def unary_def)
  then show "genValidator clusterCrypto ratKyber clusterCodec clusterConfig 1 (of_nat 2) 7 Map.empty = Inr ([''key'' \<mapsto> unary 9], Some [])"
    using cluster_keys(1,3)
    by (simp add: genValidator_def GenFilePVWithSeedAndIdx_def FileExists_def FilePVKey_Save_def clusterCodec_def clusterConfig_def Let_def unary_def)
qed

theorem cluster_node_starts_witness:
  "\<exists>w pv. runNode clusterCrypto clusterCodec id [] clusterConfig 5 6 () [''genesis'' \<mapsto> ''doc'', ''key'' \<mapsto> unary 9] = Inr (Inr w)
     \<and> length (Validators (cs_Validators (cs w))) = 2 \<and> ValIndex (cs w) = 1 \<and> PrivVal (cs w) = Some (FilePV pv)"
proof -
  let ?fs = "[''genesis'' \<mapsto> ''doc'', ''key'' \<mapsto> unary 9]"
  have d: "distinct (map gv_Address (gd_Validators doc))"
    if "GenesisDocFromFile clusterCrypto clusterCodec 5 (GenesisFile clusterConfig) ?fs = Inr (Inr doc)" for doc
  proof -
    have "completeValidators clusterCrypto (gd_Validators clusterDoc) = Inr (Inr (gd_Validators clusterDoc))"
      using genGenesisDoc_validators(2) [OF cluster_doc(1) cluster_keys(1)] by (rule completeValidators_done)
    then have "gd_Validators doc = gd_Validators clusterDoc" using that
      by (auto simp: GenesisDocFromFile_def GenesisDocFromJSON_def clusterConfig_def clusterCodec_def ValidateAndComplete_def case_Inl_Inr Let_def split: if_splits sum.splits)
    then show ?thesis using cluster_doc(2) by (simp add: unary_def)
  qed
  show ?thesis
    using cluster_node_starts [OF cluster_laws(2,1) cluster_commands(1) _ cluster_commands(2), where fs = ?fs and now = 5 and now' = 6 and sha = id and d = "()"] d
    by (simp add: clusterConfig_def FileExists_def) blast
qed

text \<open>
  The test database: after \<open>init-db\<close> with a number of accounts that is not negative, every user from 1 to that number has an account with
  200 in each balance.
\<close>

theorem initDB_accounts:
  assumes "db_laws D" "openErr ''smallbank'' dbdir = None" "0 \<le> sint accountSum" "int i < sint accountSum"
  shows "\<exists>dbs' d. initDB D openErr nodb dbdir accountSum dbs = (dbs', None) \<and> dbs' (''smallbank'', dbdir) = Some d
    \<and> accountID D \<lparr>kvDB = d, increasingID = r\<rparr> (''username'' @ Itoa (of_nat i + 1)) = of_nat i + 1
    \<and> checkingOf D \<lparr>kvDB = d, increasingID = r\<rparr> (of_nat i + 1) = 200 \<and> savingOf D \<lparr>kvDB = d, increasingID = r\<rparr> (of_nat i + 1) = 200"
proof -
  have "i \<in> set [0..<nat (sint accountSum)]" using assms(3,4) by (simp add: nat_less_iff zless_nat_eq_int_zless)
  then have "holds200 D (initDB_loop D [0..<nat (sint accountSum)] d) (of_nat i + 1)" for d
    using holds200_initDB_loop [OF assms(1)] by blast
  then show ?thesis using assms(2,3)
    by (simp add: initDB_def holds200_def accountID_def checkingOf_def savingOf_def del: GenKey.simps)
qed

theorem initDB_accounts_witness:
  "\<exists>dbs' d. initDB memDB (\<lambda>_ _. None) Map.empty ''/tmp'' 3 Map.empty = (dbs', None) \<and> dbs' (''smallbank'', ''/tmp'') = Some d
     \<and> checkingOf memDB \<lparr>kvDB = d, increasingID = 0\<rparr> 3 = 200"
  using initDB_accounts [OF memDB_laws, of "\<lambda>_ _. None" "''/tmp''" 3 2 Map.empty Map.empty 0] by auto

text \<open>
  The node does not see the test database: \<open>init-db\<close> writes the database \<open>smallbank\<close>, the node opens \<open>state\<close>; whatever
  directories are given, the store of the node is the same with and without \<open>init-db\<close>.
\<close>

theorem initDB_not_seen:
  "createLevelDB openErr nodb rnd dbDir (fst (initDB D openErr nodb dbdir accountSum dbs)) = createLevelDB openErr nodb rnd dbDir dbs"
  by (simp add: createLevelDB_def initDB_def openDB_def split: option.split)

end
