(* ===== verification/Mempool.thy ===== *)
theory Mempool
  imports Transactions PlainEnv
begin

text \<open>
  The mempool of mempool/list\_mempool.go. Its queue is tendermint's concurrent list (\<open>libs/clist\<close>), a
  parameter; the locks around the operations make each of them one step.
\<close>

section \<open>Model\<close>

record mempoolTx =
  mt_slot :: LTime
  mt_tx :: Tx

text \<open>
  What the mempool uses of \<open>clist\<close>: \<open>PushBack\<close> returns the new element, \<open>Remove\<close> takes one out, and
  following \<open>Next\<close> from \<open>Front\<close> visits \<open>clItems\<close> in order.
\<close>

record 'c CList =
  clNew :: 'c
  clPushBack :: "mempoolTx \<Rightarrow> 'c \<Rightarrow> addr \<times> 'c"
  clRemove :: "addr \<Rightarrow> 'c \<Rightarrow> 'c"
  clItems :: "'c \<Rightarrow> (addr \<times> mempoolTx) list"

record MempoolConfig =
  cfg_Size :: int64
  cfg_MaxTxBytes :: int64
  cfg_MaxTxsBytes :: int64

record memMetric =
  mm_TxsNum :: int64
  mm_PendingTxsNum :: int64
  mm_LockedTxsNum :: int64
  mm_TotalTxsNum :: int64

text \<open>The senders of a transaction are kept per list element.\<close>

record 'c ListMempool =
  mem_slot :: LTime
  mem_txsBytes :: int64
  mem_config :: MempoolConfig
  mem_txs :: 'c
  txsMap :: "bytes \<rightharpoonup> addr"
  lockedTxsMap :: "bytes \<rightharpoonup> unit"
  senders :: "addr \<Rightarrow> 16 word set"
  mem_metric :: memMetric

definition newMemMetric :: memMetric where
  "newMemMetric = \<lparr>mm_TxsNum = 0, mm_PendingTxsNum = 0, mm_LockedTxsNum = 0, mm_TotalTxsNum = 0\<rparr>"

definition MarkTxsNum :: "int64 \<Rightarrow> memMetric \<Rightarrow> memMetric" where
  "MarkTxsNum n mm = mm\<lparr>mm_TxsNum := n\<rparr>"

definition MarkTotalTxsBytes :: "int64 \<Rightarrow> memMetric \<Rightarrow> memMetric" where
  "MarkTotalTxsBytes n mm = mm\<lparr>mm_TotalTxsNum := n\<rparr>"

datatype memErr = ErrMempoolIsFull int64 int64 int64 int64 | ErrTxTooLarge int64 int64 | ErrTxInCache

text \<open>The key of a transaction: \<open>sha256\<close> of its hash; \<open>sha256\<close> is Go's \<open>crypto/sha256\<close>.\<close>

definition TxKey :: "('s, 'g) Crypto \<Rightarrow> (bytes \<Rightarrow> bytes) \<Rightarrow> Tx \<Rightarrow> bytes" where
  "TxKey e sha256 tx = sha256 (Tx_Hash e tx)"

definition NewListMempool :: "'c CList \<Rightarrow> MempoolConfig \<Rightarrow> 'c ListMempool" where
  "NewListMempool C config = \<lparr>mem_slot = LtimeZero, mem_txsBytes = 0, mem_config = config, mem_txs = clNew C,
     txsMap = Map.empty, lockedTxsMap = Map.empty, senders = (\<lambda>_. {}), mem_metric = newMemMetric\<rparr>"

definition Mempool_Size :: "'c CList \<Rightarrow> 'c ListMempool \<Rightarrow> int64" where
  "Mempool_Size C mem = of_nat (length (clItems C (mem_txs mem)))"

definition TxsBytes :: "'c ListMempool \<Rightarrow> int64" where
  "TxsBytes mem = mem_txsBytes mem"

definition isFull :: "'c CList \<Rightarrow> 'c ListMempool \<Rightarrow> int64 \<Rightarrow> memErr option" where
  "isFull C mem txSize =
     (let memSize = Mempool_Size C mem; txsBytes = TxsBytes mem in
      if sint memSize \<ge> sint (cfg_Size (mem_config mem)) \<or> sint (txsBytes + txSize) > sint (cfg_MaxTxsBytes (mem_config mem))
      then Some (ErrMempoolIsFull memSize (cfg_Size (mem_config mem)) txsBytes (cfg_MaxTxsBytes (mem_config mem)))
      else None)"

text \<open>The only cache of the program does nothing: every \<open>Push\<close> succeeds.\<close>

definition nop_Push :: "Tx \<Rightarrow> bool" where
  "nop_Push tx = True"

definition addTx :: "('s, 'g) Crypto \<Rightarrow> (bytes \<Rightarrow> bytes) \<Rightarrow> 'c CList \<Rightarrow> mempoolTx \<Rightarrow> 16 word set \<Rightarrow> 'c ListMempool \<Rightarrow> 'c ListMempool" where
  "addTx e sha256 C memTx from mem =
     (let (el, l) = clPushBack C memTx (mem_txs mem);
          bytes' = mem_txsBytes mem + ComputeSize (mt_tx memTx)
      in mem\<lparr>mem_txs := l, senders := (senders mem)(el := from), txsMap := (txsMap mem)(TxKey e sha256 (mt_tx memTx) \<mapsto> el),
             mem_txsBytes := bytes', mem_metric := MarkTotalTxsBytes bytes' (mem_metric mem)\<rparr>)"

definition CheckTx :: "('s, 'g) Crypto \<Rightarrow> (bytes \<Rightarrow> bytes) \<Rightarrow> 'c CList \<Rightarrow> Tx \<Rightarrow> 16 word \<Rightarrow> 'c ListMempool \<Rightarrow> 'c ListMempool \<times> memErr option" where
  "CheckTx e sha256 C tx sender mem =
     (let txSize = ComputeSize tx in
      case isFull C mem txSize of
        Some err \<Rightarrow> (mem, Some err)
      | None \<Rightarrow>
          if sint txSize > sint (cfg_MaxTxBytes (mem_config mem)) then (mem, Some (ErrTxTooLarge (cfg_MaxTxBytes (mem_config mem)) txSize))
          else if \<not> nop_Push tx then
            (case txsMap mem (TxKey e sha256 tx) of
               Some el \<Rightarrow> (mem\<lparr>senders := (senders mem)(el := insert sender (senders mem el))\<rparr>, Some ErrTxInCache)
             | None \<Rightarrow> (mem, Some ErrTxInCache))
          else (addTx e sha256 C \<lparr>mt_slot = mem_slot mem, mt_tx = tx\<rparr> {sender} mem, None))"

text \<open>The walk over the list in \<open>ReapTxs\<close>.\<close>

fun ReapTxs_loop :: "('s, 'g) Crypto \<Rightarrow> (bytes \<Rightarrow> bytes) \<Rightarrow> (bytes \<rightharpoonup> unit) \<Rightarrow> int64 \<Rightarrow> mempoolTx list \<Rightarrow> Tx list \<Rightarrow> Tx list" where
  "ReapTxs_loop e sha256 locked maxBytes [] txs = txs"
| "ReapTxs_loop e sha256 locked maxBytes (memTx # rest) txs =
     (if locked (TxKey e sha256 (mt_tx memTx)) \<noteq> None then ReapTxs_loop e sha256 locked maxBytes rest txs
      else
        let dataSize = CaputeSizeForTxs (txs @ [mt_tx memTx]) in
        if sint maxBytes > -1 \<and> sint dataSize > sint maxBytes then txs
        else ReapTxs_loop e sha256 locked maxBytes rest (txs @ [mt_tx memTx]))"

definition ReapTxs :: "('s, 'g) Crypto \<Rightarrow> (bytes \<Rightarrow> bytes) \<Rightarrow> 'c CList \<Rightarrow> int64 \<Rightarrow> 'c ListMempool \<Rightarrow> Tx list" where
  "ReapTxs e sha256 C maxBytes mem = ReapTxs_loop e sha256 (lockedTxsMap mem) maxBytes (map snd (clItems C (mem_txs mem))) []"

fun reapMaxTxs_loop :: "int \<Rightarrow> mempoolTx list \<Rightarrow> Tx list \<Rightarrow> Tx list" where
  "reapMaxTxs_loop mx [] txs = txs"
| "reapMaxTxs_loop mx (memTx # rest) txs =
     (if int (length txs) \<le> mx then reapMaxTxs_loop mx rest (txs @ [mt_tx memTx]) else txs)"

definition reapMaxTxs :: "'c CList \<Rightarrow> int64 \<Rightarrow> 'c ListMempool \<Rightarrow> Tx list" where
  "reapMaxTxs C mx mem =
     (let mx' = (if sint mx < 0 then int (length (clItems C (mem_txs mem))) else sint mx)
      in reapMaxTxs_loop mx' (map snd (clItems C (mem_txs mem))) [])"

text \<open>
  \<open>generateTx\<close>: one random transaction, with the draws as arguments: the kind, the user number, the amount, the time and the key. The
  second user of an amalgamation starts equal to the first, so the loop that should look for another one is never entered.
\<close>

record Draw =
  dr_kind :: nat
  dr_user :: int64
  dr_value :: int64
  dr_time :: int64
  dr_priv :: PrivKey

definition username :: "int64 \<Rightarrow> string" where
  "username k = ''username'' @ Itoa (k + 1)"

definition generateTx :: "('s, 'g) Crypto \<Rightarrow> Draw \<Rightarrow> Tx res" where
  "generateTx e d =
     (let name = username (dr_user d);
          tx0 = NewTx\<lparr>TxSendTimestamp := dr_time d\<rparr>;
          tx1 = (if dr_kind d = 0 then tx0\<lparr>TxType := SBTransactionSavingTx, Args := [name, Itoa (dr_value d)]\<rparr>
                 else if dr_kind d = 1 then tx0\<lparr>TxType := SBWriteCheckingTx, Args := [name, Itoa (dr_value d)]\<rparr>
                 else if dr_kind d = 2 then tx0\<lparr>TxType := SBAmalgamateTx, Args := [name, name]\<rparr>
                 else if dr_kind d = 3 then tx0\<lparr>TxType := SBDepositCheckingTx, Args := [name, Itoa (dr_value d)]\<rparr>
                 else tx0)
      in rbind (deref (privPubKey e (dr_priv d))) (\<lambda>pub.
         let tx2 = tx1\<lparr>PublicKey := Some pub\<rparr>;
             sig = (case privSign e (dr_priv d) (Tx_Hash e tx2) of Inl _ \<Rightarrow> [] | Inr s \<Rightarrow> s)
         in Inr (tx2\<lparr>tx_Signature := sig\<rparr>)))"

fun generateTxs :: "('s, 'g) Crypto \<Rightarrow> (nat \<Rightarrow> Draw) \<Rightarrow> nat list \<Rightarrow> Tx list res" where
  "generateTxs e draws [] = Inr []"
| "generateTxs e draws (i # is) = rbind (generateTx e (draws i)) (\<lambda>tx. rbind (generateTxs e draws is) (\<lambda>txs. Inr (tx # txs)))"

text \<open>\<open>ReapMaxTxs\<close> does not look at the mempool: it generates the transactions.\<close>

definition ReapMaxTxs :: "('s, 'g) Crypto \<Rightarrow> (nat \<Rightarrow> Draw) \<Rightarrow> int64 \<Rightarrow> Tx list res" where
  "ReapMaxTxs e draws mx = (let mx' = (if sint mx < 0 then 2000 else sint mx) in generateTxs e draws [0..<nat mx'])"

definition removeTx :: "('s, 'g) Crypto \<Rightarrow> (bytes \<Rightarrow> bytes) \<Rightarrow> 'c CList \<Rightarrow> Tx \<Rightarrow> addr \<Rightarrow> 'c ListMempool \<Rightarrow> 'c ListMempool" where
  "removeTx e sha256 C tx el mem =
     (let l = clRemove C el (mem_txs mem)
      in mem\<lparr>mem_txs := l, txsMap := (txsMap mem)(TxKey e sha256 tx := None), mem_txsBytes := mem_txsBytes mem + (- ComputeSize tx),
             mem_metric := MarkTxsNum (of_nat (length (clItems C l))) (mem_metric mem)\<rparr>)"

fun Update_loop :: "('s, 'g) Crypto \<Rightarrow> (bytes \<Rightarrow> bytes) \<Rightarrow> 'c CList \<Rightarrow> Tx list \<Rightarrow> 'c ListMempool \<Rightarrow> 'c ListMempool" where
  "Update_loop e sha256 C [] mem = mem"
| "Update_loop e sha256 C (tx # txs) mem = (case txsMap mem (TxKey e sha256 tx) of
      Some el \<Rightarrow> Update_loop e sha256 C txs (removeTx e sha256 C tx el mem)
    | None \<Rightarrow> Update_loop e sha256 C txs mem)"

definition Mempool_Update :: "('s, 'g) Crypto \<Rightarrow> (bytes \<Rightarrow> bytes) \<Rightarrow> 'c CList \<Rightarrow> LTime \<Rightarrow> Tx list \<Rightarrow> 'c ListMempool \<Rightarrow> 'c ListMempool" where
  "Mempool_Update e sha256 C slot toRemoveTxs mem = (Update_loop e sha256 C toRemoveTxs mem)\<lparr>mem_slot := slot\<rparr>"

definition LockTxs :: "('s, 'g) Crypto \<Rightarrow> (bytes \<Rightarrow> bytes) \<Rightarrow> Tx list \<Rightarrow> 'c ListMempool \<Rightarrow> 'c ListMempool" where
  "LockTxs e sha256 txs mem = mem\<lparr>lockedTxsMap := foldl (\<lambda>m tx. m(TxKey e sha256 tx \<mapsto> ())) (lockedTxsMap mem) txs\<rparr>"

definition ReleaseTxs :: "('s, 'g) Crypto \<Rightarrow> (bytes \<Rightarrow> bytes) \<Rightarrow> Tx list \<Rightarrow> 'c ListMempool \<Rightarrow> 'c ListMempool" where
  "ReleaseTxs e sha256 txs mem = mem\<lparr>lockedTxsMap := foldl (\<lambda>m tx. m(TxKey e sha256 tx := None)) (lockedTxsMap mem) txs\<rparr>"

definition Flush :: "'c CList \<Rightarrow> 'c ListMempool \<Rightarrow> 'c ListMempool" where
  "Flush C mem = mem\<lparr>mem_txsBytes := 0, mem_txs := foldl (\<lambda>l el. clRemove C el l) (mem_txs mem) (map fst (clItems C (mem_txs mem))),
     txsMap := Map.empty\<rparr>"

section \<open>Laws of the list\<close>

text \<open>
  Documented behaviour of \<open>clist\<close>: a push appends one new element, a removal takes out exactly that element.
\<close>

definition clist_laws :: "'c CList \<Rightarrow> bool" where
  "clist_laws C \<longleftrightarrow> clItems C (clNew C) = []
     \<and> (\<forall>v l el l'. clPushBack C v l = (el, l') \<longrightarrow> clItems C l' = clItems C l @ [(el, v)] \<and> el \<notin> fst ` set (clItems C l))
     \<and> (\<forall>el l. clItems C (clRemove C el l) = filter (\<lambda>x. fst x \<noteq> el) (clItems C l))"

lemma clist_lawsD:
  assumes "clist_laws C"
  shows "clItems C (clNew C) = []"
    "clPushBack C v l = (el, l') \<Longrightarrow> clItems C l' = clItems C l @ [(el, v)]"
    "clPushBack C v l = (el, l') \<Longrightarrow> el \<notin> fst ` set (clItems C l)"
    "clItems C (clRemove C el l) = filter (\<lambda>x. fst x \<noteq> el) (clItems C l)"
  using assms unfolding clist_laws_def by blast+

section \<open>The invariant\<close>

text \<open>
  The byte count is the sum of the sizes of what is queued (modulo 64 bits), elements are distinct, and every entry of the look-up table
  is a queued element that holds a transaction with that key.
\<close>

definition mem_invar :: "('s, 'g) Crypto \<Rightarrow> (bytes \<Rightarrow> bytes) \<Rightarrow> 'c CList \<Rightarrow> 'c ListMempool \<Rightarrow> bool" where
  "mem_invar e sha256 C mem \<longleftrightarrow>
     (let items = clItems C (mem_txs mem) in
      distinct (map fst items) \<and> mem_txsBytes mem = CaputeSizeForTxs (map (mt_tx \<circ> snd) items)
    \<and> (\<forall>k el. txsMap mem k = Some el \<longrightarrow> (\<exists>v. (el, v) \<in> set items \<and> TxKey e sha256 (mt_tx v) = k)))"

lemma mem_invarD:
  assumes "mem_invar e sha C mem"
  shows "distinct (map fst (clItems C (mem_txs mem)))"
    "mem_txsBytes mem = CaputeSizeForTxs (map (mt_tx \<circ> snd) (clItems C (mem_txs mem)))"
    "txsMap mem k = Some el \<Longrightarrow> \<exists>v. (el, v) \<in> set (clItems C (mem_txs mem)) \<and> TxKey e sha (mt_tx v) = k"
  using assms by (auto simp: mem_invar_def Let_def)

lemma mem_invar_New: "clist_laws C \<Longrightarrow> mem_invar e sha C (NewListMempool C config)"
  by (simp add: mem_invar_def NewListMempool_def clist_lawsD CaputeSizeForTxs_def)

lemma mem_invar_addTx:
  assumes C: "clist_laws C" and inv: "mem_invar e sha C mem"
  shows "mem_invar e sha C (addTx e sha C memTx from mem)"
proof -
  obtain el l where p: "clPushBack C memTx (mem_txs mem) = (el, l)" by (cases "clPushBack C memTx (mem_txs mem)")
  note new = clist_lawsD(2,3) [OF C p]
  show ?thesis using mem_invarD [OF inv] new p
    by (auto simp: mem_invar_def addTx_def Let_def CaputeSizeForTxs_sum split: if_splits)
qed

text \<open>What the list holds after one element is taken out.\<close>

lemma sum_list_filter_key:
  fixes f :: "'b \<Rightarrow> 'c :: ab_group_add"
  assumes "distinct (map fst xs)" "(k, v) \<in> set xs"
  shows "sum_list (map (f \<circ> snd) (filter (\<lambda>x. fst x \<noteq> k) xs)) = sum_list (map (f \<circ> snd) xs) - f v"
  using assms
proof (induction xs)
  case (Cons x xs)
  show ?case
  proof (cases "fst x = k")
    case True
    then have "k \<notin> fst ` set xs" using Cons.prems(1) by auto
    then have "filter (\<lambda>x. fst x \<noteq> k) xs = xs" by (intro filter_True) (metis image_eqI)
    moreover have "snd x = v" using True Cons.prems by (metis (mono_tags, lifting) distinct.simps(2) fst_conv image_eqI list.set_map list.simps(9) set_ConsD snd_conv)
    ultimately show ?thesis using True by simp
  next
    case False
    then have "(k, v) \<in> set xs" using Cons.prems by auto
    then show ?thesis using Cons False by (simp add: algebra_simps)
  qed
qed simp

text \<open>
  Two transactions with the same key have the same size when the hash does not collide; without that, the
  counter is still exact if what is removed is what was queued.
\<close>

lemma mem_invar_removeTx:
  assumes C: "clist_laws C" and inv: "mem_invar e sha C mem"
    and el: "txsMap mem (TxKey e sha tx) = Some el"
    and size: "\<And>v. (el, v) \<in> set (clItems C (mem_txs mem)) \<Longrightarrow> ComputeSize (mt_tx v) = ComputeSize tx"
  shows "mem_invar e sha C (removeTx e sha C tx el mem)"
proof -
  note d = mem_invarD [OF inv]
  obtain v where v: "(el, v) \<in> set (clItems C (mem_txs mem))" using d(3) [OF el] by blast
  have "sum_list (map (ComputeSize \<circ> mt_tx \<circ> snd) (filter (\<lambda>x. fst x \<noteq> el) (clItems C (mem_txs mem)))) =
      sum_list (map (ComputeSize \<circ> mt_tx \<circ> snd) (clItems C (mem_txs mem))) - ComputeSize tx"
    using sum_list_filter_key [OF d(1) v, of "ComputeSize \<circ> mt_tx"] size [OF v] by (simp add: comp_assoc)
  then have b: "mem_txsBytes mem + - ComputeSize tx = CaputeSizeForTxs (map (mt_tx \<circ> snd) (filter (\<lambda>x. fst x \<noteq> el) (clItems C (mem_txs mem))))"
    by (simp add: d(2) CaputeSizeForTxs_sum comp_assoc)
  have m: "\<exists>w. (el', w) \<in> set (clItems C (mem_txs mem)) \<and> el' \<noteq> el \<and> TxKey e sha (mt_tx w) = k"
    if k: "txsMap mem k = Some el'" "k \<noteq> TxKey e sha tx" for k el'
  proof -
    obtain w where w: "(el', w) \<in> set (clItems C (mem_txs mem))" "TxKey e sha (mt_tx w) = k" using d(3) [OF k(1)] by blast
    obtain u where u: "(el, u) \<in> set (clItems C (mem_txs mem))" "TxKey e sha (mt_tx u) = TxKey e sha tx" using d(3) [OF el] by blast
    have "el' \<noteq> el" using w u k(2) d(1) by (metis eq_key_imp_eq_value)
    with w show ?thesis by blast
  qed
  show ?thesis using b m d(1) by (auto simp: mem_invar_def removeTx_def Let_def clist_lawsD(4) [OF C] distinct_map_filter split: if_splits)
qed

lemma mem_invar_frame:
  "mem_invar e sha C (mem\<lparr>lockedTxsMap := m\<rparr>) = mem_invar e sha C mem"
  "mem_invar e sha C (mem\<lparr>mem_slot := s\<rparr>) = mem_invar e sha C mem"
  "mem_invar e sha C (mem\<lparr>senders := f\<rparr>) = mem_invar e sha C mem"
  by (simp_all add: mem_invar_def)

lemma mem_invar_CheckTx:
  assumes "clist_laws C" "mem_invar e sha C mem"
  shows "mem_invar e sha C (fst (CheckTx e sha C tx sender mem))"
  using assms mem_invar_addTx [OF assms] by (simp add: CheckTx_def Let_def nop_Push_def split: option.split)

text \<open>
  Transactions with the same key have the same size: so it is for well-formed ones, whose keys and signatures have
  fixed lengths, when the two hashes do not collide.
\<close>

definition sizes_agree :: "('s, 'g) Crypto \<Rightarrow> (bytes \<Rightarrow> bytes) \<Rightarrow> 'c CList \<Rightarrow> Tx list \<Rightarrow> 'c ListMempool \<Rightarrow> bool" where
  "sizes_agree e sha C txs mem \<longleftrightarrow> (\<forall>tx \<in> set txs. \<forall>(el, v) \<in> set (clItems C (mem_txs mem)).
     TxKey e sha (mt_tx v) = TxKey e sha tx \<longrightarrow> ComputeSize (mt_tx v) = ComputeSize tx)"

lemma mem_invar_Update_loop:
  assumes C: "clist_laws C"
  shows "mem_invar e sha C mem \<Longrightarrow> sizes_agree e sha C txs mem \<Longrightarrow> mem_invar e sha C (Update_loop e sha C txs mem)"
proof (induction txs arbitrary: mem)
  case (Cons tx txs)
  show ?case
  proof (cases "txsMap mem (TxKey e sha tx)")
    case None
    then show ?thesis using Cons by (simp add: sizes_agree_def)
  next
    case (Some el)
    have "ComputeSize (mt_tx v) = ComputeSize tx" if "(el, v) \<in> set (clItems C (mem_txs mem))" for v
      using Cons.prems(2) that mem_invarD(1,3) [OF Cons.prems(1)] Some unfolding sizes_agree_def by (fastforce dest: eq_key_imp_eq_value)
    from mem_invar_removeTx [OF C Cons.prems(1) Some this] have "mem_invar e sha C (removeTx e sha C tx el mem)" .
    moreover have "sizes_agree e sha C txs (removeTx e sha C tx el mem)"
      using Cons.prems(2) by (auto simp: sizes_agree_def removeTx_def Let_def clist_lawsD(4) [OF C])
    ultimately show ?thesis using Cons.IH Some by simp
  qed
qed simp

lemma clItems_removes: "clist_laws C \<Longrightarrow> clItems C (foldl (\<lambda>l el. clRemove C el l) l els) = filter (\<lambda>x. fst x \<notin> set els) (clItems C l)"
  by (induction els arbitrary: l) (simp_all add: clist_lawsD(4) conj_commute)

lemma Flush_empty: "clist_laws C \<Longrightarrow> clItems C (mem_txs (Flush C mem)) = []"
  by (simp add: Flush_def clItems_removes filter_empty_conv)

lemma mem_invar_Flush: "clist_laws C \<Longrightarrow> mem_invar e sha C (Flush C mem)"
  using Flush_empty [of C mem] by (simp add: mem_invar_def Flush_def CaputeSizeForTxs_def)

section \<open>Runs of the mempool\<close>

text \<open>The mempools that the operations lead to from a new one, in any order.\<close>

inductive mem_reach :: "('s, 'g) Crypto \<Rightarrow> (bytes \<Rightarrow> bytes) \<Rightarrow> 'c CList \<Rightarrow> MempoolConfig \<Rightarrow> 'c ListMempool \<Rightarrow> bool"
  for e sha C config where
  new: "mem_reach e sha C config (NewListMempool C config)"
| check: "mem_reach e sha C config mem \<Longrightarrow> mem_reach e sha C config (fst (CheckTx e sha C tx sender mem))"
| update: "mem_reach e sha C config mem \<Longrightarrow> sizes_agree e sha C txs mem
    \<Longrightarrow> mem_reach e sha C config (Mempool_Update e sha C slot txs mem)"
| lock: "mem_reach e sha C config mem \<Longrightarrow> mem_reach e sha C config (LockTxs e sha txs mem)"
| release: "mem_reach e sha C config mem \<Longrightarrow> mem_reach e sha C config (ReleaseTxs e sha txs mem)"
| flush: "mem_reach e sha C config mem \<Longrightarrow> mem_reach e sha C config (Flush C mem)"

lemma length_Update_loop: "clist_laws C \<Longrightarrow> length (clItems C (mem_txs (Update_loop e sha C txs mem))) \<le> length (clItems C (mem_txs mem))"
proof (induction txs arbitrary: mem)
  case (Cons tx txs)
  have "length (clItems C (mem_txs (removeTx e sha C tx el mem))) \<le> length (clItems C (mem_txs mem))" for el
    by (simp add: removeTx_def Let_def clist_lawsD(4) [OF Cons.prems])
  then show ?case using Cons by (auto split: option.split intro: order_trans)
qed simp

lemma config_Update_loop [simp]: "mem_config (Update_loop e sha C txs mem) = mem_config mem"
  by (induction txs arbitrary: mem) (simp_all add: removeTx_def Let_def split: option.split)

lemma config_CheckTx [simp]: "mem_config (fst (CheckTx e sha C tx sender mem)) = mem_config mem"
  by (simp add: CheckTx_def addTx_def Let_def split: option.split prod.split)

text \<open>A transaction only enters while there is room.\<close>

lemma room_CheckTx:
  assumes C: "clist_laws C" and room: "int (length (clItems C (mem_txs mem))) \<le> max 0 (sint (cfg_Size (mem_config mem)))"
  shows "int (length (clItems C (mem_txs (fst (CheckTx e sha C tx sender mem))))) \<le> max 0 (sint (cfg_Size (mem_config mem)))"
proof (cases "isFull C mem (ComputeSize tx)")
  case None
  let ?n = "length (clItems C (mem_txs mem))"
  have lt: "sint (of_nat ?n :: int64) < sint (cfg_Size (mem_config mem))" using None by (auto simp: isFull_def Let_def Mempool_Size_def split: if_splits)
  have b: "sint (cfg_Size (mem_config mem)) < 2 ^ 63" using sint_lt [of "cfg_Size (mem_config mem)"] by simp
  then have "sint (of_nat ?n :: int64) = int ?n" using room by (intro sint_of_nat_64) auto
  then have "int ?n + 1 \<le> sint (cfg_Size (mem_config mem))" using lt by simp
  moreover obtain el l where p: "clPushBack C \<lparr>mt_slot = mem_slot mem, mt_tx = tx\<rparr> (mem_txs mem) = (el, l)" by (rule prod.exhaust)
  ultimately show ?thesis using None room clist_lawsD(2) [OF C p] p by (simp add: CheckTx_def addTx_def nop_Push_def Let_def)
qed (use room in \<open>simp add: CheckTx_def\<close>)

lemma mem_reach_invar:
  assumes C: "clist_laws C" and r: "mem_reach e sha C config mem"
  shows "mem_invar e sha C mem \<and> mem_config mem = config \<and> int (length (clItems C (mem_txs mem))) \<le> max 0 (sint (cfg_Size config))"
  using r
proof (induction rule: mem_reach.induct)
  case new
  then show ?case using mem_invar_New [OF C] by (simp add: NewListMempool_def clist_lawsD(1) [OF C])
next
  case (check mem tx sender)
  then show ?case using mem_invar_CheckTx [OF C, of e sha mem tx sender] room_CheckTx [OF C, of mem e sha tx sender] by simp
next
  case (update mem txs slot)
  then show ?case using mem_invar_Update_loop [OF C, of e sha mem txs] length_Update_loop [OF C, of e sha txs mem]
    by (simp add: Mempool_Update_def mem_invar_frame)
next
  case (lock mem txs)
  then show ?case by (simp add: LockTxs_def mem_invar_frame)
next
  case (release mem txs)
  then show ?case by (simp add: ReleaseTxs_def mem_invar_frame)
next
  case (flush mem)
  then show ?case using mem_invar_Flush [OF C] Flush_empty [OF C, of mem] by (simp add: Flush_def)
qed

section \<open>Reaping\<close>

text \<open>The transactions that are not locked, in the order in which they came.\<close>

definition unlocked :: "('s, 'g) Crypto \<Rightarrow> (bytes \<Rightarrow> bytes) \<Rightarrow> 'c CList \<Rightarrow> 'c ListMempool \<Rightarrow> Tx list" where
  "unlocked e sha C mem = filter (\<lambda>tx. lockedTxsMap mem (TxKey e sha tx) = None) (map (mt_tx \<circ> snd) (clItems C (mem_txs mem)))"

lemma ReapTxs_loop_prefix:
  "\<exists>k. ReapTxs_loop e sha locked mx ms txs = txs @ take k (filter (\<lambda>tx. locked (TxKey e sha tx) = None) (map mt_tx ms))
     \<and> (sint mx > -1 \<and> sint (CaputeSizeForTxs txs) \<le> sint mx \<longrightarrow> sint (CaputeSizeForTxs (ReapTxs_loop e sha locked mx ms txs)) \<le> sint mx)
     \<and> (k < length (filter (\<lambda>tx. locked (TxKey e sha tx) = None) (map mt_tx ms)) \<longrightarrow> sint mx > -1
          \<and> sint (CaputeSizeForTxs (ReapTxs_loop e sha locked mx ms txs @ [filter (\<lambda>tx. locked (TxKey e sha tx) = None) (map mt_tx ms) ! k])) > sint mx)"
proof (induction ms arbitrary: txs)
  case Nil
  then show ?case by simp
next
  case (Cons m ms)
  let ?F = "\<lambda>ms. filter (\<lambda>tx. locked (TxKey e sha tx) = None) (map mt_tx ms)"
  show ?case
  proof (cases "locked (TxKey e sha (mt_tx m)) = None")
    case False
    then show ?thesis using Cons.IH [of txs] by simp
  next
    case True
    show ?thesis
    proof (cases "sint mx > -1 \<and> sint (CaputeSizeForTxs (txs @ [mt_tx m])) > sint mx")
      case full: True
      then show ?thesis using True by (intro exI [of _ 0]) (simp add: Let_def)
    next
      case False
      let ?r = "ReapTxs_loop e sha locked mx ms (txs @ [mt_tx m])"
      from Cons.IH [of "txs @ [mt_tx m]"] obtain k where
        k: "?r = (txs @ [mt_tx m]) @ take k (?F ms)"
        "sint mx > -1 \<and> sint (CaputeSizeForTxs (txs @ [mt_tx m])) \<le> sint mx \<longrightarrow> sint (CaputeSizeForTxs ?r) \<le> sint mx"
        "k < length (?F ms) \<longrightarrow> sint mx > -1 \<and> sint (CaputeSizeForTxs (?r @ [?F ms ! k])) > sint mx" by blast
      have "ReapTxs_loop e sha locked mx (m # ms) txs = ?r" using True False by (auto simp: Let_def)
      then show ?thesis using k False True by (intro exI [of _ "Suc k"]) auto
    qed
  qed
qed

text \<open>What \<open>ReapTxs\<close> returns is a prefix of the unlocked transactions that fits, and no longer prefix does.\<close>

lemma ReapTxs_spec:
  "\<exists>k. ReapTxs e sha C mx mem = take k (unlocked e sha C mem)
     \<and> (sint mx > -1 \<longrightarrow> sint (CaputeSizeForTxs (ReapTxs e sha C mx mem)) \<le> sint mx)
     \<and> (k < length (unlocked e sha C mem) \<longrightarrow> sint mx > -1
          \<and> sint (CaputeSizeForTxs (ReapTxs e sha C mx mem @ [unlocked e sha C mem ! k])) > sint mx)"
  using ReapTxs_loop_prefix [of e sha "lockedTxsMap mem" mx "map snd (clItems C (mem_txs mem))" "[]"]
  by (auto simp: ReapTxs_def unlocked_def comp_def CaputeSizeForTxs_def)

lemma reapMaxTxs_loop_take:
  "0 \<le> mx + 1 - int (length txs) \<Longrightarrow> reapMaxTxs_loop mx ms txs = txs @ take (nat (mx + 1 - int (length txs))) (map mt_tx ms)"
proof (induction ms arbitrary: txs)
  case (Cons m ms)
  show ?case
  proof (cases "int (length txs) \<le> mx")
    case True
    then have "reapMaxTxs_loop mx ms (txs @ [mt_tx m]) = (txs @ [mt_tx m]) @ take (nat (mx + 1 - int (length (txs @ [mt_tx m])))) (map mt_tx ms)"
      by (intro Cons.IH) simp
    moreover have "nat (mx + 1 - int (length txs)) = Suc (nat (mx + 1 - int (length (txs @ [mt_tx m]))))" using True by simp
    ultimately show ?thesis using True by simp
  next
    case False
    then have "nat (mx + 1 - int (length txs)) = 0" by simp
    then show ?thesis using False by simp
  qed
qed simp

section \<open>Locking\<close>

lemma foldl_lock: "foldl (\<lambda>m tx. m(f tx \<mapsto> ())) m txs k = (if k \<in> f ` set txs then Some () else m k)"
  by (induction txs arbitrary: m) auto

lemma foldl_release: "foldl (\<lambda>m tx. m(f tx := None)) m txs k = (if k \<in> f ` set txs then None else m k)"
  by (induction txs arbitrary: m) auto

lemma unlocked_LockTxs:
  "unlocked e sha C (LockTxs e sha txs mem) = filter (\<lambda>tx. TxKey e sha tx \<notin> TxKey e sha ` set txs) (unlocked e sha C mem)"
  by (auto simp: unlocked_def LockTxs_def foldl_lock intro: filter_cong)

lemma unlocked_ReleaseTxs:
  assumes "\<forall>tx \<in> set txs. lockedTxsMap mem (TxKey e sha tx) = None"
  shows "lockedTxsMap (ReleaseTxs e sha txs (LockTxs e sha txs mem)) = lockedTxsMap mem"
  using assms by (intro ext) (auto simp: LockTxs_def ReleaseTxs_def foldl_lock foldl_release)

section \<open>Removal\<close>

text \<open>Update removes an element only through the look-up table: what the table does not point to stays.\<close>

definition orphan :: "'c CList \<Rightarrow> 'c ListMempool \<Rightarrow> addr \<Rightarrow> Tx \<Rightarrow> bool" where
  "orphan C mem el tx \<longleftrightarrow> el \<notin> ran (txsMap mem) \<and> (\<exists>v. (el, v) \<in> set (clItems C (mem_txs mem)) \<and> mt_tx v = tx)"

lemma orphan_Update_loop:
  assumes C: "clist_laws C"
  shows "orphan C mem el tx \<Longrightarrow> orphan C (Update_loop e sha C txs mem) el tx"
proof (induction txs arbitrary: mem)
  case (Cons t txs)
  show ?case
  proof (cases "txsMap mem (TxKey e sha t)")
    case (Some el')
    then have "el' \<noteq> el" using Cons.prems by (auto simp: orphan_def ran_def)
    then have "orphan C (removeTx e sha C t el' mem) el tx"
      using Cons.prems by (auto simp: orphan_def removeTx_def Let_def clist_lawsD(4) [OF C] ran_def)
    then show ?thesis using Cons.IH Some by simp
  qed (use Cons in simp)
qed simp

text \<open>Once the same transaction is added again, the first element is an orphan.\<close>

lemma orphan_add_twice:
  assumes C: "clist_laws C" and inv: "mem_invar e sha C mem"
    and el: "(el, v) \<in> set (clItems C (mem_txs mem))" "txsMap mem (TxKey e sha (mt_tx v)) = Some el"
    and m: "TxKey e sha (mt_tx m) = TxKey e sha (mt_tx v)"
  shows "orphan C (addTx e sha C m from mem) el (mt_tx v)"
proof -
  obtain el' l where p: "clPushBack C m (mem_txs mem) = (el', l)" by (cases "clPushBack C m (mem_txs mem)")
  note new = clist_lawsD(2,3) [OF C p]
  have "el' \<noteq> el" using new(2) el(1) by force
  moreover have "k = TxKey e sha (mt_tx v)" if "txsMap mem k = Some el" for k
    using mem_invarD(3) [OF inv that] mem_invarD(1) [OF inv] el(1) by (metis eq_key_imp_eq_value)
  ultimately show ?thesis using new(1) p el(1) m by (auto simp: orphan_def addTx_def Let_def ran_def)
qed

section \<open>Generated transactions\<close>

lemma generateTx_valid:
  assumes "ed25519_laws e" "generateTx e d = Inr tx" "privSign e (dr_priv d) = (\<lambda>m. Inr (sg m))"
  shows "Valid e tx = Inr True"
proof -
  obtain pub where p: "privPubKey e (dr_priv d) = Some pub" using assms(2) by (auto simp: generateTx_def Let_def split: option.splits)
  have "length pub = 32 \<and> ed25519Verify e pub m (sg m)" for m
    using assms(1,3) p unfolding ed25519_laws_def by metis
  then show ?thesis using assms(2,3) p
    by (auto simp: generateTx_def Let_def Valid_def ed25519_Verify_def ed25519_PublicKeySize_def Tx_Hash_def split: if_splits)
qed

section \<open>Properties\<close>

text \<open>An instance of the list: a plain list whose elements are numbered.\<close>

definition listCL :: "(addr \<times> mempoolTx) list CList" where
  "listCL = \<lparr>clNew = [], clPushBack = (\<lambda>v l. let el = foldr (\<lambda>x n. max (Suc (fst x)) n) l 0 in (el, l @ [(el, v)])),
     clRemove = (\<lambda>el l. filter (\<lambda>x. fst x \<noteq> el) l), clItems = (\<lambda>l. l)\<rparr>"

lemma listCL_fresh: "x \<in> set l \<Longrightarrow> fst x < foldr (\<lambda>x n. max (Suc (fst x)) n) l 0"
  by (induction l) (auto simp: less_max_iff_disj)

lemma listCL_laws: "clist_laws listCL"
  using listCL_fresh by (fastforce simp: clist_laws_def listCL_def Let_def)

definition demoConfig :: MempoolConfig where
  "demoConfig = \<lparr>cfg_Size = 2, cfg_MaxTxBytes = 1000, cfg_MaxTxsBytes = 5000\<rparr>"

definition demoPay :: "string \<Rightarrow> Tx" where
  "demoPay who = NewTx\<lparr>TxType := SBDepositCheckingTx, Args := [who, ''5'']\<rparr>"

text \<open>The mempool after it has checked the given transactions in order.\<close>

fun demoChecks :: "Tx list \<Rightarrow> (addr \<times> mempoolTx) list ListMempool" where
  "demoChecks [] = NewListMempool listCL demoConfig"
| "demoChecks (tx # txs) = fst (CheckTx plainCrypto (\<lambda>b. b) listCL tx 1 (demoChecks txs))"

lemma demoChecks_reach: "mem_reach plainCrypto (\<lambda>b. b) listCL demoConfig (demoChecks txs)"
  by (induction txs) (auto intro: mem_reach.intros)

lemmas demo_mem_simps = listCL_def demoConfig_def demoPay_def NewTx_def CheckTx_def addTx_def NewListMempool_def isFull_def
  Mempool_Size_def TxsBytes_def nop_Push_def ComputeSize_def TxKey_def Tx_Hash_def plainCrypto_def Let_def SmallBankTxTypes
  CaputeSizeForTxs_def LtimeZero_def



text \<open>
  (C31) Packing by size: \<open>ReapTxs\<close> returns the first transactions that are not locked, in the order in which they came; with a limit
  their total size respects it, and the next one would exceed it; without a limit it returns all of them.
\<close>

theorem ReapTxs_packs:
  "\<exists>k. ReapTxs e sha C mx mem = take k (unlocked e sha C mem)
     \<and> (sint mx > -1 \<longrightarrow> sint (CaputeSizeForTxs (ReapTxs e sha C mx mem)) \<le> sint mx)
     \<and> (k < length (unlocked e sha C mem) \<longrightarrow> sint mx > -1
          \<and> sint (CaputeSizeForTxs (ReapTxs e sha C mx mem @ [unlocked e sha C mem ! k])) > sint mx)"
  by (rule ReapTxs_spec)

theorem ReapTxs_packs_witness:
  "sint (CaputeSizeForTxs (ReapTxs plainCrypto (\<lambda>b. b) listCL 100 (demoChecks [demoPay ''b'', demoPay ''a'']))) \<le> 100"
  using ReapTxs_packs [of plainCrypto "\<lambda>b. b" listCL 100 "demoChecks [demoPay ''b'', demoPay ''a'']"] by auto

text \<open>
  Locking: transactions that are locked are not packed again, and releasing them, if they were not locked before, gives back
  exactly what could be packed before.
\<close>

theorem lock_release:
  assumes "\<forall>tx \<in> set txs. lockedTxsMap mem (TxKey e sha tx) = None"
  shows "set (ReapTxs e sha C mx (LockTxs e sha txs mem)) \<inter> set txs = {}
     \<and> ReapTxs e sha C mx (ReleaseTxs e sha txs (LockTxs e sha txs mem)) = ReapTxs e sha C mx mem"
proof
  obtain k where "ReapTxs e sha C mx (LockTxs e sha txs mem) = take k (unlocked e sha C (LockTxs e sha txs mem))" using ReapTxs_spec by blast
  then show "set (ReapTxs e sha C mx (LockTxs e sha txs mem)) \<inter> set txs = {}"
    by (auto simp: unlocked_LockTxs dest!: in_set_takeD)
  show "ReapTxs e sha C mx (ReleaseTxs e sha txs (LockTxs e sha txs mem)) = ReapTxs e sha C mx mem"
    using unlocked_ReleaseTxs [OF assms] by (simp add: ReapTxs_def LockTxs_def ReleaseTxs_def)
qed

theorem lock_release_witness:
  "ReapTxs plainCrypto (\<lambda>b. b) listCL (-1) (ReleaseTxs plainCrypto (\<lambda>b. b) [demoPay ''a'']
      (LockTxs plainCrypto (\<lambda>b. b) [demoPay ''a''] (demoChecks [demoPay ''b'', demoPay ''a''])))
   = ReapTxs plainCrypto (\<lambda>b. b) listCL (-1) (demoChecks [demoPay ''b'', demoPay ''a''])"
  using lock_release [of "[demoPay ''a'']" "demoChecks [demoPay ''b'', demoPay ''a'']" plainCrypto "\<lambda>b. b" listCL "-1"]
  by (simp add: demo_mem_simps)

text \<open>
  What \<open>CheckTx\<close> answers: it refuses when the mempool is full, in number or in bytes, or when the transaction is too large, and then the
  mempool is as before; otherwise it appends exactly this transaction.
\<close>

theorem CheckTx_outcome:
  assumes "clist_laws C" "CheckTx e sha C tx sender mem = (mem', err)"
  shows "(case err of
      Some _ \<Rightarrow> mem' = mem \<and> (sint (Mempool_Size C mem) \<ge> sint (cfg_Size (mem_config mem))
        \<or> sint (TxsBytes mem + ComputeSize tx) > sint (cfg_MaxTxsBytes (mem_config mem)) \<or> sint (ComputeSize tx) > sint (cfg_MaxTxBytes (mem_config mem)))
    | None \<Rightarrow> sint (Mempool_Size C mem) < sint (cfg_Size (mem_config mem)) \<and> TxsBytes mem' = TxsBytes mem + ComputeSize tx
        \<and> map (mt_tx \<circ> snd) (clItems C (mem_txs mem')) = map (mt_tx \<circ> snd) (clItems C (mem_txs mem)) @ [tx])"
proof -
  obtain el l where p: "clPushBack C \<lparr>mt_slot = mem_slot mem, mt_tx = tx\<rparr> (mem_txs mem) = (el, l)" by (rule prod.exhaust)
  show ?thesis using assms(2) p clist_lawsD(2) [OF assms(1) p]
    by (auto simp: CheckTx_def isFull_def nop_Push_def addTx_def TxsBytes_def Let_def split: option.split if_splits)
qed

theorem CheckTx_outcome_witness:
  "map (mt_tx \<circ> snd) (clItems listCL (mem_txs (demoChecks [demoPay ''a'']))) = [demoPay ''a'']"
  using CheckTx_outcome [OF listCL_laws, of plainCrypto "\<lambda>b. b" "demoPay ''a''" 1 "demoChecks []" "demoChecks [demoPay ''a'']" None]
  by (simp add: demo_mem_simps)

text \<open>
  There is no cache behind the mempool, so a transaction that is checked twice is queued twice; the look-up table then points to the
  second element only, and no update, whatever transactions it removes, takes the first one out again.
\<close>

theorem duplicate_stays:
  assumes "clist_laws C" "mem_invar e sha C mem0"
    and "CheckTx e sha C tx s1 mem0 = (mem1, None)" "CheckTx e sha C tx s2 mem1 = (mem2, None)"
  shows "\<exists>v \<in> snd ` set (clItems C (mem_txs (Mempool_Update e sha C slot txs mem2))). mt_tx v = tx"
proof -
  let ?m = "\<lambda>mem. \<lparr>mt_slot = mem_slot mem, mt_tx = tx\<rparr>"
  have m1: "mem1 = addTx e sha C (?m mem0) {s1} mem0" and m2: "mem2 = addTx e sha C (?m mem1) {s2} mem1"
    using assms(3,4) by (auto simp: CheckTx_def nop_Push_def Let_def split: option.splits if_splits)
  obtain el l where p: "clPushBack C (?m mem0) (mem_txs mem0) = (el, l)" by (rule prod.exhaust)
  have "(el, ?m mem0) \<in> set (clItems C (mem_txs mem1))" "txsMap mem1 (TxKey e sha (mt_tx (?m mem0))) = Some el"
    using clist_lawsD(2) [OF assms(1) p] p by (simp_all add: m1 addTx_def Let_def)
  from orphan_add_twice [OF assms(1) mem_invar_addTx [OF assms(1,2), of "?m mem0" "{s1}", folded m1] this, of "?m mem1" "{s2}"]
  have "orphan C mem2 el tx" by (simp add: m2)
  from orphan_Update_loop [OF assms(1) this, of e sha txs] show ?thesis by (force simp: orphan_def Mempool_Update_def)
qed

theorem duplicate_stays_witness:
  "\<exists>v \<in> snd ` set (clItems listCL (mem_txs (Mempool_Update plainCrypto (\<lambda>b. b) listCL 1 [demoPay ''a'', demoPay ''a'']
      (demoChecks [demoPay ''a'', demoPay ''a''])))). mt_tx v = demoPay ''a''"
  by (rule duplicate_stays [OF listCL_laws, of plainCrypto "\<lambda>b. b" "demoChecks []" _ 1 "demoChecks [demoPay ''a'']" 1])
    (simp_all add: demo_mem_simps mem_invar_def)

text \<open>
  \<open>reapMaxTxs\<close> takes one transaction more than it is asked for, when there are that many; a negative argument takes them all.
\<close>

theorem reapMaxTxs_one_more:
  "reapMaxTxs C mx mem = map (mt_tx \<circ> snd)
     (if sint mx < 0 then clItems C (mem_txs mem) else take (Suc (nat (sint mx))) (clItems C (mem_txs mem)))"
  by (auto simp: reapMaxTxs_def Let_def reapMaxTxs_loop_take take_map nat_add_distrib)

text \<open>
  What \<open>ReapMaxTxs\<close> hands to a proposal: the given number of transactions, 2000 when it is negative, all of them with a valid signature when the
  key generator's keys can sign; an amalgamation among them is of an account with itself.
\<close>

theorem ReapMaxTxs_generates:
  assumes "ed25519_laws e" "\<And>i m. \<not> isl (privSign e (dr_priv (draws i)) m)" "\<And>i. privPubKey e (dr_priv (draws i)) \<noteq> None"
  shows "\<exists>txs. ReapMaxTxs e draws mx = Inr txs \<and> length txs = (if sint mx < 0 then 2000 else nat (sint mx))
    \<and> (\<forall>tx \<in> set txs. Valid e tx = Inr True \<and> (TxType tx = SBAmalgamateTx \<longrightarrow> Args tx ! 0 = Args tx ! 1))"
proof -
  have one: "\<exists>tx. generateTx e d = Inr tx \<and> Valid e tx = Inr True \<and> (TxType tx = SBAmalgamateTx \<longrightarrow> Args tx ! 0 = Args tx ! 1)"
    if d: "d = draws i" for d i
  proof -
    obtain sg where sg: "privSign e (dr_priv d) = (\<lambda>m. Inr (sg m))" using assms(2) [of i] d by (metis sum.collapse(2) ext)
    obtain tx where tx: "generateTx e d = Inr tx" using assms(3) [of i] d by (auto simp: generateTx_def Let_def)
    then have "TxType tx = SBAmalgamateTx \<longrightarrow> Args tx ! 0 = Args tx ! 1"
      by (auto simp: generateTx_def Let_def NewTx_def SmallBankTxTypes split: if_splits)
    with tx generateTx_valid [OF assms(1) tx sg] show ?thesis by blast
  qed
  have "\<exists>txs. generateTxs e draws is = Inr txs \<and> length txs = length is
      \<and> (\<forall>tx \<in> set txs. Valid e tx = Inr True \<and> (TxType tx = SBAmalgamateTx \<longrightarrow> Args tx ! 0 = Args tx ! 1))" for "is"
  proof (induction "is")
    case (Cons i "is")
    with one [OF refl, of i] show ?case by auto
  qed simp
  from this [of "[0..<nat (if sint mx < 0 then 2000 else sint mx)]"] show ?thesis by (cases "sint mx < 0") (simp_all add: ReapMaxTxs_def Let_def)
qed

theorem ReapMaxTxs_generates_witness:
  "\<exists>txs. ReapMaxTxs plainCrypto (\<lambda>i. \<lparr>dr_kind = i mod 4, dr_user = 7, dr_value = 3, dr_time = 0, dr_priv = ''k''\<rparr>) 3 = Inr txs \<and> length txs = 3"
  using ReapMaxTxs_generates [OF plainCrypto_laws(1), of "\<lambda>i. \<lparr>dr_kind = i mod 4, dr_user = 7, dr_value = 3, dr_time = 0, dr_priv = ''k''\<rparr>" 3]
  by (auto simp: plainCrypto_def)

end
