(* ===== verification/PeerIDs.thy ===== *)
theory PeerIDs
  imports Mempool
begin

text \<open>
  The mempool reactor of mempool/reactor.go: the short ids of the peers and the handling of received transactions. The
  search for a free id is the code's loop, with fuel; 65536 rounds are enough.
\<close>

section \<open>Model\<close>

type_synonym ID = string

record mempoolIDs =
  peerMap :: "ID \<rightharpoonup> 16 word"
  nextID :: "16 word"
  activeIDs :: "16 word set"

definition maxActiveIDs :: nat where
  "maxActiveIDs = 65535"

definition newMempoolIDs :: mempoolIDs where
  "newMempoolIDs = \<lparr>peerMap = Map.empty, nextID = 1, activeIDs = {0}\<rparr>"

fun nextPeerID_loop :: "16 word set \<Rightarrow> nat \<Rightarrow> 16 word \<Rightarrow> 16 word res" where
  "nextPeerID_loop active 0 nid = Inl NoFuel"
| "nextPeerID_loop active (Suc fuel) nid = (if nid \<in> active then nextPeerID_loop active fuel (nid + 1) else Inr nid)"

definition nextPeerID :: "mempoolIDs \<Rightarrow> (mempoolIDs \<times> 16 word) res" where
  "nextPeerID ids =
     (if card (activeIDs ids) = maxActiveIDs then Inl (Panic ''node has maximum active IDs and wanted to get one more'')
      else rbind (nextPeerID_loop (activeIDs ids) 65536 (nextID ids)) (\<lambda>curID. Inr (ids\<lparr>nextID := curID + 1\<rparr>, curID)))"

definition ReserveForPeer :: "ID \<Rightarrow> mempoolIDs \<Rightarrow> mempoolIDs res" where
  "ReserveForPeer peer ids = rbind (nextPeerID ids) (\<lambda>(ids', curID).
     Inr (ids'\<lparr>peerMap := (peerMap ids')(peer \<mapsto> curID), activeIDs := insert curID (activeIDs ids')\<rparr>))"

definition Reclaim :: "ID \<Rightarrow> mempoolIDs \<Rightarrow> mempoolIDs" where
  "Reclaim peer ids = (case peerMap ids peer of
      None \<Rightarrow> ids
    | Some removedID \<Rightarrow> ids\<lparr>activeIDs := activeIDs ids - {removedID}, peerMap := (peerMap ids)(peer := None)\<rparr>)"

text \<open>The zero value for a peer that has no id.\<close>

definition GetForPeer :: "ID \<Rightarrow> mempoolIDs \<Rightarrow> 16 word" where
  "GetForPeer peer ids = (case peerMap ids peer of None \<Rightarrow> 0 | Some i \<Rightarrow> i)"

text \<open>
  \<open>decodeMsg\<close>: \<open>unmarshal\<close> is the JSON decoder, which fills a transaction as far as it gets and reports an error; the error is dropped.
\<close>

definition decodeMsg :: "(bytes \<Rightarrow> Tx \<Rightarrow> Tx \<times> string option) \<Rightarrow> bytes \<Rightarrow> Tx \<times> string option" where
  "decodeMsg unmarshal data = (let (tx, err) = unmarshal data NewTx in (tx, None))"

text \<open>\<open>Receive\<close> of the mempool reactor; the second component says that the peer is stopped.\<close>

definition memR_Receive :: "('s, 'g) Crypto \<Rightarrow> (bytes \<Rightarrow> bytes) \<Rightarrow> 'c CList \<Rightarrow> (bytes \<Rightarrow> Tx \<Rightarrow> Tx \<times> string option)
    \<Rightarrow> mempoolIDs \<Rightarrow> ID \<Rightarrow> bytes \<Rightarrow> 'c ListMempool \<Rightarrow> 'c ListMempool \<times> bool" where
  "memR_Receive e sha256 C unmarshal ids src msgBytes mem = (case decodeMsg unmarshal msgBytes of
      (_, Some err) \<Rightarrow> (mem, True)
    | (tx, None) \<Rightarrow> (fst (CheckTx e sha256 C tx (GetForPeer src ids) mem), False))"

section \<open>Free ids\<close>

text \<open>
  Every peer has an id of its own, never the reserved 0, and ids in use are active.
\<close>

definition ids_invar :: "mempoolIDs \<Rightarrow> bool" where
  "ids_invar ids \<longleftrightarrow> 0 \<in> activeIDs ids \<and> inj_on (peerMap ids) (dom (peerMap ids))
     \<and> ran (peerMap ids) \<subseteq> activeIDs ids - {0} \<and> card (activeIDs ids) \<le> maxActiveIDs"

lemma ids_invar_new: "ids_invar newMempoolIDs"
  by (simp add: ids_invar_def newMempoolIDs_def maxActiveIDs_def)

text \<open>The loop stops at the first id after the given one that is not active.\<close>

lemma nextPeerID_loop_finds:
  "nid + of_nat k \<notin> active \<Longrightarrow> k < fuel \<Longrightarrow> \<exists>i. nextPeerID_loop active fuel nid = Inr i \<and> i \<notin> active"
proof (induction fuel arbitrary: k nid)
  case (Suc fuel)
  show ?case
  proof (cases "nid \<in> active")
    case True
    then obtain k' where "k = Suc k'" using Suc.prems by (cases k) auto
    moreover from this have "nid + 1 + of_nat k' \<notin> active" using Suc.prems(1) by (simp add: add.assoc)
    ultimately show ?thesis using Suc True by simp
  qed simp
qed simp

lemma free_id:
  assumes "card (active :: 16 word set) < 65536"
  obtains k where "k < 65536" "nid + of_nat k \<notin> active"
proof -
  have "card (UNIV :: 16 word set) = 65536" by (simp add: card_word)
  then have "active \<noteq> UNIV" using assms by auto
  then obtain j where j: "j \<notin> active" by auto
  have "unat (j - nid) < 65536" using unsigned_less [of "j - nid"] by simp
  moreover have "nid + of_nat (unat (j - nid)) = j" by simp
  ultimately show thesis using j that by metis
qed

lemma nextPeerID_fresh:
  assumes "card (activeIDs ids) < maxActiveIDs"
  shows "\<exists>i. nextPeerID ids = Inr (ids\<lparr>nextID := i + 1\<rparr>, i) \<and> i \<notin> activeIDs ids"
proof -
  obtain k where "k < 65536" "nextID ids + of_nat k \<notin> activeIDs ids"
    using free_id [of "activeIDs ids" "nextID ids"] assms by (auto simp: maxActiveIDs_def)
  from nextPeerID_loop_finds [OF this(2,1)] show ?thesis using assms by (auto simp: nextPeerID_def)
qed

lemma ids_invar_Reserve:
  assumes inv: "ids_invar ids" and i: "i \<notin> activeIDs ids" "card (activeIDs ids) < maxActiveIDs"
  shows "ids_invar (ids\<lparr>nextID := n, peerMap := (peerMap ids)(peer \<mapsto> i), activeIDs := insert i (activeIDs ids)\<rparr>)"
proof -
  have "i \<notin> ran (peerMap ids)" using inv i(1) by (auto simp: ids_invar_def)
  then have "inj_on ((peerMap ids)(peer \<mapsto> i)) (dom ((peerMap ids)(peer \<mapsto> i)))"
    using inv unfolding ids_invar_def inj_on_def ran_def by (auto split: if_splits)
  moreover have "ran ((peerMap ids)(peer \<mapsto> i)) \<subseteq> insert i (ran (peerMap ids))" by (auto simp: ran_def)
  moreover have "finite (activeIDs ids)" by simp
  ultimately show ?thesis using inv i by (auto simp: ids_invar_def card_insert_if)
qed

lemma ids_invar_Reclaim:
  assumes "ids_invar ids"
  shows "ids_invar (Reclaim peer ids)"
proof (cases "peerMap ids peer")
  case (Some r)
  have "inj_on ((peerMap ids)(peer := None)) (dom ((peerMap ids)(peer := None)))"
    using assms unfolding ids_invar_def inj_on_def by (auto split: if_splits)
  moreover have "peerMap ids q \<noteq> Some r" if "q \<noteq> peer" for q
    using assms Some that unfolding ids_invar_def inj_on_def by (metis domI)
  moreover have "card (activeIDs ids - {r}) \<le> card (activeIDs ids)" by (rule card_mono) auto
  moreover have "r \<noteq> 0" using assms Some by (auto simp: ids_invar_def ran_def)
  ultimately show ?thesis using assms Some by (auto simp: ids_invar_def Reclaim_def ran_def)
qed (use assms in \<open>simp add: Reclaim_def\<close>)

section \<open>Properties\<close>

text \<open>
  (C35) Ids of peers: while fewer than 65535 ids are active the search for a free one ends; the peer gets an id that is not the reserved 0 and
  that no other peer has, the others keep theirs, and the books stay consistent.
\<close>

theorem ReserveForPeer_unique:
  assumes "ids_invar ids" "card (activeIDs ids) < maxActiveIDs"
  shows "\<exists>ids'. ReserveForPeer peer ids = Inr ids' \<and> ids_invar ids' \<and> GetForPeer peer ids' \<noteq> 0
     \<and> GetForPeer peer ids' \<notin> activeIDs ids \<and> (\<forall>q. q \<noteq> peer \<longrightarrow> GetForPeer q ids' = GetForPeer q ids \<and> GetForPeer q ids' \<noteq> GetForPeer peer ids')"
proof -
  obtain i where i: "nextPeerID ids = Inr (ids\<lparr>nextID := i + 1\<rparr>, i)" "i \<notin> activeIDs ids" using nextPeerID_fresh [OF assms(2)] by blast
  let ?ids = "ids\<lparr>nextID := i + 1, peerMap := (peerMap ids)(peer \<mapsto> i), activeIDs := insert i (activeIDs ids)\<rparr>"
  have "ReserveForPeer peer ids = Inr ?ids" using i(1) by (simp add: ReserveForPeer_def)
  moreover have "ids_invar ?ids" using ids_invar_Reserve [OF assms(1) i(2) assms(2)] .
  moreover have "i \<noteq> 0" "GetForPeer q ids \<noteq> i" for q
    using i(2) assms(1) by (auto simp: ids_invar_def GetForPeer_def ran_def split: option.splits)
  ultimately show ?thesis using i(2) by (auto simp: GetForPeer_def)
qed

theorem ReserveForPeer_unique_witness:
  "\<exists>ids'. ReserveForPeer ''p'' newMempoolIDs = Inr ids' \<and> GetForPeer ''p'' ids' \<noteq> 0"
  using ReserveForPeer_unique [OF ids_invar_new, of "''p''"] by (auto simp: newMempoolIDs_def maxActiveIDs_def)

text \<open>
  A peer that leaves gives its id back: it has none afterwards, the id is free, and the other peers keep theirs. When all ids are taken,
  a reservation panics.
\<close>

theorem Reclaim_frees:
  assumes "ids_invar ids"
  shows "ids_invar (Reclaim peer ids) \<and> GetForPeer peer (Reclaim peer ids) = 0
    \<and> (\<forall>i. peerMap ids peer = Some i \<longrightarrow> i \<notin> activeIDs (Reclaim peer ids))
    \<and> (\<forall>q. q \<noteq> peer \<longrightarrow> GetForPeer q (Reclaim peer ids) = GetForPeer q ids)
    \<and> (card (activeIDs ids) = maxActiveIDs \<longrightarrow> (\<exists>msg. ReserveForPeer peer ids = Inl (Panic msg)))"
  using assms ids_invar_Reclaim [OF assms, of peer]
  by (auto simp: Reclaim_def GetForPeer_def ReserveForPeer_def nextPeerID_def split: option.split)

theorem Reclaim_frees_witness:
  "GetForPeer ''p'' (Reclaim ''p'' \<lparr>peerMap = [''p'' \<mapsto> 1], nextID = 2, activeIDs = {0, 1}\<rparr>) = 0"
  using Reclaim_frees [of "\<lparr>peerMap = [''p'' \<mapsto> 1], nextID = 2, activeIDs = {0, 1}\<rparr>" "''p''"]
  by (simp add: ids_invar_def inj_on_def maxActiveIDs_def)

text \<open>
  The decoding error of a received message is dropped: whatever bytes a peer sends, it is never stopped, and what the decoder left in
  the transaction, for a message it cannot read at all the empty transaction, is checked into the mempool.
\<close>

theorem Receive_drops_errors:
  "memR_Receive e sha C unmarshal ids src msg mem = (fst (CheckTx e sha C (fst (unmarshal msg NewTx)) (GetForPeer src ids) mem), False)"
  by (simp add: memR_Receive_def decodeMsg_def split: prod.split)

end
