(* ===== verification/Gossip.thy ===== *)
theory Gossip
  imports PeerIDs
begin

text \<open>
  The sending side of the mempool reactor (mempool/reactor.go): the goroutine that sends the queued transactions to one peer, as a
  machine whose steps interleave with the operations of the mempool.
\<close>

section \<open>Model\<close>

text \<open>
  What the goroutine uses of \<open>clist\<close> beside the queue: the element after an element, which a removed element still knows, and
  whether the channel an element is waited on is readable.
\<close>

record 'c CElement =
  clNext :: "addr \<Rightarrow> 'c \<Rightarrow> (addr \<times> mempoolTx) option"
  clReady :: "addr \<Rightarrow> 'c \<Rightarrow> bool"

definition TxsFront :: "'c CList \<Rightarrow> 'c ListMempool \<Rightarrow> (addr \<times> mempoolTx) option" where
  "TxsFront C mem = (case clItems C (mem_txs mem) of [] \<Rightarrow> None | x # xs \<Rightarrow> Some x)"

record Reactor =
  memR_config :: MempoolConfig
  memR_ids :: mempoolIDs

definition NewReactor :: "MempoolConfig \<Rightarrow> Reactor" where
  "NewReactor config = \<lparr>memR_config = config, memR_ids = newMempoolIDs\<rparr>"

definition InitPeer :: "ID \<Rightarrow> Reactor \<Rightarrow> (Reactor \<times> ID) res" where
  "InitPeer peer memR = rbind (ReserveForPeer peer (memR_ids memR)) (\<lambda>ids. Inr (memR\<lparr>memR_ids := ids\<rparr>, peer))"

definition RemovePeer :: "ID \<Rightarrow> Reactor \<Rightarrow> Reactor" where
  "RemovePeer peer memR = memR\<lparr>memR_ids := Reclaim peer (memR_ids memR)\<rparr>"

text \<open>
  One goroutine: the id of its peer, where it is (at the head of the loop, about to send, waiting for the next element, or gone), the
  element it holds and what it has sent.
\<close>

datatype point = LoopHead | AtTx | WaitNext | Returned

record Routine =
  peerID :: "16 word"
  r_at :: point
  r_next :: "(addr \<times> mempoolTx) option"
  r_sent :: "(addr \<times> mempoolTx) list"

definition AddPeer :: "ID \<Rightarrow> Reactor \<Rightarrow> Routine" where
  "AddPeer peer memR = \<lparr>peerID = GetForPeer peer (memR_ids memR), r_at = LoopHead, r_next = None, r_sent = []\<rparr>"

text \<open>
  What the surroundings decide at a step: whether the reactor and the peer run, which ready case a \<open>select\<close> takes, and whether the message
  could be encoded and sent.
\<close>

record Chance =
  ch_running :: bool
  ch_quit :: bool
  ch_marshal :: bool
  ch_send :: bool

text \<open>
  One step of \<open>broadcastTxRoutine\<close>; \<open>None\<close> when it is blocked. (A round of the loop that finds the queue
  empty again and continues changes nothing and is not a step of its own.)
\<close>

definition broadcastTxRoutine :: "'c CList \<Rightarrow> 'c CElement \<Rightarrow> Chance \<Rightarrow> 'c ListMempool \<Rightarrow> Routine \<Rightarrow> Routine option" where
  "broadcastTxRoutine C N ch mem r = (case r_at r of
      Returned \<Rightarrow> None
    | LoopHead \<Rightarrow>
        if \<not> ch_running ch then Some (r\<lparr>r_at := Returned\<rparr>)
        else (case r_next r of
            Some x \<Rightarrow> Some (r\<lparr>r_at := AtTx\<rparr>)
          | None \<Rightarrow>
              if ch_quit ch then Some (r\<lparr>r_at := Returned\<rparr>)
              else (case TxsFront C mem of None \<Rightarrow> None | Some x \<Rightarrow> Some (r\<lparr>r_next := Some x, r_at := AtTx\<rparr>)))
    | AtTx \<Rightarrow> (case r_next r of
          None \<Rightarrow> None
        | Some (el, memTx) \<Rightarrow>
            if peerID r \<in> senders mem el then Some (r\<lparr>r_at := WaitNext\<rparr>)
            else if \<not> ch_marshal ch then Some (r\<lparr>r_at := LoopHead\<rparr>)
            else if \<not> ch_send ch then Some (r\<lparr>r_at := LoopHead\<rparr>)
            else Some (r\<lparr>r_sent := r_sent r @ [(el, memTx)], r_at := WaitNext\<rparr>))
    | WaitNext \<Rightarrow> (case r_next r of
          None \<Rightarrow> None
        | Some (el, memTx) \<Rightarrow>
            if ch_quit ch then Some (r\<lparr>r_at := Returned\<rparr>)
            else if clReady N el (mem_txs mem) then Some (r\<lparr>r_next := clNext N el (mem_txs mem), r_at := LoopHead\<rparr>)
            else None))"

text \<open>
  The goroutine beside the mempool: it moves, or the mempool checks, locks or releases transactions. What a removal does to it is
  the subject of a theorem of its own.
\<close>

inductive gossip_step :: "('s, 'g) Crypto \<Rightarrow> (bytes \<Rightarrow> bytes) \<Rightarrow> 'c CList \<Rightarrow> 'c CElement
    \<Rightarrow> 'c ListMempool \<times> Routine \<Rightarrow> 'c ListMempool \<times> Routine \<Rightarrow> bool" for e sha C N where
  routine: "broadcastTxRoutine C N ch mem r = Some r' \<Longrightarrow> gossip_step e sha C N (mem, r) (mem, r')"
| checks: "gossip_step e sha C N (mem, r) (fst (CheckTx e sha C tx sender mem), r)"
| locks: "gossip_step e sha C N (mem, r) (LockTxs e sha txs mem, r)"
| releases: "gossip_step e sha C N (mem, r) (ReleaseTxs e sha txs mem, r)"

interpretation gossip: transition_system "gossip_step e sha C N" "(gossip_step e sha C N)\<^sup>*\<^sup>*" for e sha C N
proof
  show "(gossip_step e sha C N)\<^sup>*\<^sup>* s t \<Longrightarrow> P s \<Longrightarrow> (\<And>t u. P t \<Longrightarrow> gossip_step e sha C N t u \<Longrightarrow> P u) \<Longrightarrow> P t" for s t P
    by (induction rule: rtranclp_induct) blast+
qed auto

section \<open>Laws of the elements\<close>

text \<open>
  Documented behaviour of \<open>clist\<close>: the next of a queued element is the one that follows it in the queue, and it is waited for until there is
  one. An element that is removed keeps its next, and nobody waits on it any more.
\<close>

definition celement_laws :: "'c CList \<Rightarrow> 'c CElement \<Rightarrow> bool" where
  "celement_laws C N \<longleftrightarrow>
     (\<forall>l i. i < length (clItems C l) \<and> distinct (map fst (clItems C l)) \<longrightarrow>
        clNext N (fst (clItems C l ! i)) l = (if Suc i < length (clItems C l) then Some (clItems C l ! Suc i) else None)
      \<and> clReady N (fst (clItems C l ! i)) l = (Suc i < length (clItems C l)))
   \<and> (\<forall>el l. el \<in> fst ` set (clItems C l) \<longrightarrow> clNext N el (clRemove C el l) = clNext N el l \<and> clReady N el (clRemove C el l))"

lemma celement_lawsD:
  assumes "celement_laws C N"
  shows "i < length (clItems C l) \<Longrightarrow> distinct (map fst (clItems C l)) \<Longrightarrow>
      clNext N (fst (clItems C l ! i)) l = (if Suc i < length (clItems C l) then Some (clItems C l ! Suc i) else None)"
    "i < length (clItems C l) \<Longrightarrow> distinct (map fst (clItems C l)) \<Longrightarrow> clReady N (fst (clItems C l ! i)) l = (Suc i < length (clItems C l))"
    "el \<in> fst ` set (clItems C l) \<Longrightarrow> clNext N el (clRemove C el l) = clNext N el l"
    "el \<in> fst ` set (clItems C l) \<Longrightarrow> clReady N el (clRemove C el l)"
  using assms unfolding celement_laws_def by blast+

section \<open>What has been sent\<close>

definition queue :: "'c CList \<Rightarrow> 'c ListMempool \<Rightarrow> (addr \<times> mempoolTx) list" where
  "queue C mem = clItems C (mem_txs mem)"

text \<open>The queued transactions that did not come from the peer.\<close>

definition owed :: "'c ListMempool \<Rightarrow> 16 word \<Rightarrow> (addr \<times> mempoolTx) list \<Rightarrow> (addr \<times> mempoolTx) list" where
  "owed mem p xs = filter (\<lambda>x. p \<notin> senders mem (fst x)) xs"

text \<open>
  The goroutine has dealt with the first \<open>k\<close> elements of the queue; it holds the one it is about to send or the one it waits on.
\<close>

definition at_element :: "'c CList \<Rightarrow> 'c ListMempool \<Rightarrow> Routine \<Rightarrow> nat \<Rightarrow> bool" where
  "at_element C mem r k \<longleftrightarrow> k \<le> length (queue C mem) \<and> r_sent r = owed mem (peerID r) (take k (queue C mem)) \<and>
     (case r_at r of
        Returned \<Rightarrow> True
      | LoopHead \<Rightarrow> (r_next r = None \<and> k = 0) \<or> (k < length (queue C mem) \<and> r_next r = Some (queue C mem ! k))
      | AtTx \<Rightarrow> k < length (queue C mem) \<and> r_next r = Some (queue C mem ! k)
      | WaitNext \<Rightarrow> 0 < k \<and> r_next r = Some (queue C mem ! (k - 1)))"

definition gossip_ok :: "'c CList \<Rightarrow> 'c ListMempool \<times> Routine \<Rightarrow> bool" where
  "gossip_ok C = (\<lambda>(mem, r). distinct (map fst (queue C mem)) \<and> (\<exists>k. at_element C mem r k))"

lemma at_element_grows:
  assumes "at_element C mem r k" "queue C mem' = queue C mem @ ys" "\<And>x. x \<in> set (queue C mem) \<Longrightarrow> senders mem' (fst x) = senders mem (fst x)"
  shows "at_element C mem' r k"
proof -
  have k: "k \<le> length (queue C mem)" using assms(1) by (simp add: at_element_def)
  have "owed mem' p (take k (queue C mem)) = owed mem p (take k (queue C mem))" for p
    unfolding owed_def by (rule filter_cong [OF refl]) (metis assms(3) in_set_takeD)
  then show ?thesis using assms(1) k unfolding at_element_def assms(2)
    by (auto simp: nth_append split: point.splits)
qed

lemma owed_snoc:
  "k < length q \<Longrightarrow> owed mem p (take (Suc k) q) = owed mem p (take k q) @ (if p \<in> senders mem (fst (q ! k)) then [] else [q ! k])"
  by (simp add: owed_def take_Suc_conv_app_nth)

lemma at_element_routine:
  assumes N: "celement_laws C N" and d: "distinct (map fst (queue C mem))"
    and k: "at_element C mem r k" and st: "broadcastTxRoutine C N ch mem r = Some r'"
  shows "\<exists>k'. at_element C mem r' k'"
proof (cases "r_at r")
  case LoopHead
  show ?thesis
  proof (cases "r_next r")
    case None
    then have "k = 0" using k LoopHead by (simp add: at_element_def)
    then have "at_element C mem r' 0" using k st LoopHead None
      by (auto simp: at_element_def broadcastTxRoutine_def TxsFront_def queue_def owed_def split: if_splits list.splits)
    then show ?thesis ..
  next
    case (Some x)
    then have "at_element C mem r' k" using k st LoopHead
      by (auto simp: at_element_def broadcastTxRoutine_def split: if_splits)
    then show ?thesis ..
  qed
next
  case AtTx
  then have q: "k < length (queue C mem)" "r_next r = Some (queue C mem ! k)" using k by (simp_all add: at_element_def)
  have "at_element C mem r' k \<or> at_element C mem r' (Suc k)" using k st AtTx q
    by (auto simp: at_element_def broadcastTxRoutine_def owed_snoc split: if_splits prod.splits)
  then show ?thesis by blast
next
  case WaitNext
  then have q: "0 < k" "k \<le> length (queue C mem)" "r_next r = Some (queue C mem ! (k - 1))" using k by (simp_all add: at_element_def)
  then obtain j where j: "k = Suc j" "j < length (queue C mem)" by (cases k) auto
  have "at_element C mem r' k"
    using k st WaitNext q j celement_lawsD(1,2) [OF N, of j "mem_txs mem"] d
    by (auto simp: at_element_def broadcastTxRoutine_def queue_def split: if_splits prod.splits)
  then show ?thesis by blast
qed (use st in \<open>simp add: broadcastTxRoutine_def\<close>)

text \<open>Checking a transaction only appends to the queue and leaves the senders of the others alone.\<close>

lemma queue_CheckTx:
  assumes "clist_laws C" "distinct (map fst (queue C mem))"
  shows "\<exists>ys. queue C (fst (CheckTx e sha C tx sender mem)) = queue C mem @ ys"
    "x \<in> set (queue C mem) \<Longrightarrow> senders (fst (CheckTx e sha C tx sender mem)) (fst x) = senders mem (fst x)"
    "distinct (map fst (queue C (fst (CheckTx e sha C tx sender mem))))"
proof -
  define v where "v = \<lparr>mt_slot = mem_slot mem, mt_tx = tx\<rparr>"
  obtain el l where p: "clPushBack C v (mem_txs mem) = (el, l)" by (cases "clPushBack C v (mem_txs mem)")
  note new = clist_lawsD(2,3) [OF assms(1) p]
  have "fst (CheckTx e sha C tx sender mem) = mem \<or> fst (CheckTx e sha C tx sender mem) = addTx e sha C v {sender} mem"
    by (cases "isFull C mem (ComputeSize tx)") (simp_all add: CheckTx_def Let_def nop_Push_def v_def)
  then have *: "(\<exists>ys. queue C (fst (CheckTx e sha C tx sender mem)) = queue C mem @ ys)
    \<and> (x \<in> set (queue C mem) \<longrightarrow> senders (fst (CheckTx e sha C tx sender mem)) (fst x) = senders mem (fst x))
    \<and> distinct (map fst (queue C (fst (CheckTx e sha C tx sender mem))))"
    by (elim disjE) (use assms(2) new p in \<open>auto simp: addTx_def Let_def queue_def\<close>)
  then show "\<exists>ys. queue C (fst (CheckTx e sha C tx sender mem)) = queue C mem @ ys"
    "x \<in> set (queue C mem) \<Longrightarrow> senders (fst (CheckTx e sha C tx sender mem)) (fst x) = senders mem (fst x)"
    "distinct (map fst (queue C (fst (CheckTx e sha C tx sender mem))))" by blast+
qed

lemma gossip_ok_step:
  assumes "gossip_step e sha C N s s'" "clist_laws C" "celement_laws C N" "gossip_ok C s"
  shows "gossip_ok C s'"
  using assms(1,4)
proof (induction rule: gossip_step.induct)
  case (routine ch mem r r')
  then show ?case using at_element_routine [OF assms(3) _ _ routine(1)] by (auto simp: gossip_ok_def)
next
  case (checks mem r tx sender)
  then obtain k where k: "distinct (map fst (queue C mem))" "at_element C mem r k" by (auto simp: gossip_ok_def)
  obtain ys where "queue C (fst (CheckTx e sha C tx sender mem)) = queue C mem @ ys" using queue_CheckTx(1) [OF assms(2) k(1)] by blast
  from at_element_grows [OF k(2) this queue_CheckTx(2) [OF assms(2) k(1)]] queue_CheckTx(3) [OF assms(2) k(1)]
  show ?case by (auto simp: gossip_ok_def)
next
  case (locks mem r txs)
  then show ?case using at_element_grows [of C mem r _ "LockTxs e sha txs mem" "[]"]
    by (auto simp: gossip_ok_def LockTxs_def queue_def)
next
  case (releases mem r txs)
  then show ?case using at_element_grows [of C mem r _ "ReleaseTxs e sha txs mem" "[]"]
    by (auto simp: gossip_ok_def ReleaseTxs_def queue_def)
qed

lemma peerID_step: "gossip_step e sha C N s s' \<Longrightarrow> peerID (snd s') = peerID (snd s)"
  by (induction rule: gossip_step.induct) (auto simp: broadcastTxRoutine_def split: point.splits option.splits if_splits)

lemma gossip_ok_start: "distinct (map fst (queue C mem)) \<Longrightarrow> gossip_ok C (mem, AddPeer peer memR)"
  by (auto simp: gossip_ok_def at_element_def AddPeer_def owed_def)

section \<open>Progress\<close>

definition goodChance :: Chance where
  "goodChance = \<lparr>ch_running = True, ch_quit = False, ch_marshal = True, ch_send = True\<rparr>"

text \<open>One step while the peer runs and accepts messages.\<close>

definition moves :: "'c CList \<Rightarrow> 'c CElement \<Rightarrow> 'c ListMempool \<Rightarrow> Routine \<Rightarrow> Routine \<Rightarrow> bool" where
  "moves C N mem r r' \<longleftrightarrow> broadcastTxRoutine C N goodChance mem r = Some r'"

definition caught_up :: "'c CList \<Rightarrow> 'c CElement \<Rightarrow> 'c ListMempool \<Rightarrow> Routine \<Rightarrow> bool" where
  "caught_up C N mem r \<longleftrightarrow> (\<exists>r'. (moves C N mem)\<^sup>*\<^sup>* r r' \<and> r_sent r' = owed mem (peerID r) (queue C mem))"

lemma caught_up_back:
  assumes "moves C N mem r r'" "caught_up C N mem r'"
  shows "caught_up C N mem r"
proof -
  have "peerID r' = peerID r" using assms(1)
    by (auto simp: moves_def goodChance_def broadcastTxRoutine_def split: point.splits option.splits if_splits)
  then show ?thesis using assms unfolding caught_up_def by (metis converse_rtranclp_into_rtranclp)
qed

lemma caught_up_WaitNext:
  assumes N: "celement_laws C N" and d: "distinct (map fst (queue C mem))"
  shows "at_element C mem r k \<Longrightarrow> r_at r = WaitNext \<Longrightarrow> caught_up C N mem r"
proof (induction "length (queue C mem) - k" arbitrary: r k)
  case 0
  then show ?case unfolding caught_up_def by (intro exI [of _ r]) (simp add: at_element_def)
next
  case (Suc n)
  then obtain j where j: "k = Suc j" "Suc j < length (queue C mem)" "r_next r = Some (queue C mem ! j)"
    by (cases k) (auto simp: at_element_def)
  define r1 where "r1 = r\<lparr>r_next := Some (queue C mem ! k), r_at := LoopHead\<rparr>"
  have m1: "moves C N mem r r1" using j Suc.prems(2) celement_lawsD(1,2) [OF N, of j "mem_txs mem"] d
    by (auto simp: moves_def goodChance_def broadcastTxRoutine_def queue_def r1_def split: prod.splits)
  define r2 where "r2 = r1\<lparr>r_at := AtTx\<rparr>"
  have m2: "moves C N mem r1 r2" by (simp add: moves_def goodChance_def broadcastTxRoutine_def r1_def r2_def)
  define r3 where "r3 = r2\<lparr>r_sent := r_sent r @ (if peerID r \<in> senders mem (fst (queue C mem ! k)) then [] else [queue C mem ! k]), r_at := WaitNext\<rparr>"
  have m3: "moves C N mem r2 r3"
    by (auto simp: moves_def goodChance_def broadcastTxRoutine_def r1_def r2_def r3_def split: prod.splits)
  have "at_element C mem r3 (Suc k)" using Suc.prems(1) j owed_snoc [of k "queue C mem" mem "peerID r"]
    by (simp add: at_element_def r3_def r2_def r1_def)
  then have "caught_up C N mem r3" using Suc.hyps(1) [of "Suc k" r3] Suc.hyps(2) by (simp add: r3_def)
  then show ?case using caught_up_back m1 m2 m3 by metis
qed

lemma caught_up_AtTx:
  assumes "celement_laws C N" "distinct (map fst (queue C mem))" "at_element C mem r k" "r_at r = AtTx"
  shows "caught_up C N mem r"
proof -
  have q: "k < length (queue C mem)" "r_next r = Some (queue C mem ! k)" using assms(3,4) by (simp_all add: at_element_def)
  define r' where "r' = r\<lparr>r_sent := r_sent r @ (if peerID r \<in> senders mem (fst (queue C mem ! k)) then [] else [queue C mem ! k]), r_at := WaitNext\<rparr>"
  have m: "moves C N mem r r'" using assms(4) q
    by (auto simp: moves_def goodChance_def broadcastTxRoutine_def r'_def split: prod.splits)
  have "at_element C mem r' (Suc k)" using assms(3) q owed_snoc [of k "queue C mem" mem "peerID r"] by (simp add: at_element_def r'_def)
  then show ?thesis using caught_up_back [OF m] caught_up_WaitNext [OF assms(1,2)] by (simp add: r'_def)
qed

lemma caught_up_ok:
  assumes "celement_laws C N" "gossip_ok C (mem, r)" "r_at r \<noteq> Returned"
  shows "caught_up C N mem r"
proof -
  from assms(2) obtain k where k: "distinct (map fst (queue C mem))" "at_element C mem r k" by (auto simp: gossip_ok_def)
  show ?thesis
  proof (cases "r_at r")
    case LoopHead
    show ?thesis
    proof (cases "r_next r = None \<and> queue C mem = []")
      case True
      then show ?thesis using k LoopHead unfolding caught_up_def
        by (intro exI [of _ r]) (simp add: at_element_def)
    next
      case False
      have "at_element C mem (r\<lparr>r_next := Some (queue C mem ! k), r_at := AtTx\<rparr>) k"
        using k(2) LoopHead False by (auto simp: at_element_def)
      moreover have "moves C N mem r (r\<lparr>r_next := Some (queue C mem ! k), r_at := AtTx\<rparr>)"
        using k(2) LoopHead False
        by (auto simp: moves_def goodChance_def broadcastTxRoutine_def TxsFront_def at_element_def queue_def split: list.splits)
      ultimately show ?thesis using caught_up_back caught_up_AtTx [OF assms(1) k(1)] by fastforce
    qed
  next
    case AtTx
    then show ?thesis using caught_up_AtTx [OF assms(1) k] by simp
  next
    case WaitNext
    then show ?thesis using caught_up_WaitNext [OF assms(1) k] by simp
  qed (use assms(3) in simp)
qed

section \<open>Removal of the last element\<close>

text \<open>What has been sent does not influence the goroutine.\<close>

definition after :: "(addr \<times> mempoolTx) list \<Rightarrow> Routine \<Rightarrow> Routine" where
  "after p r = r\<lparr>r_sent := p @ r_sent r\<rparr>"

lemma after_sel [simp]:
  "r_sent (after p r) = p @ r_sent r" "peerID (after p r) = peerID r" "r_at (after p r) = r_at r" "r_next (after p r) = r_next r"
  by (simp_all add: after_def)

lemma moves_after: "moves C N mem r r' \<Longrightarrow> moves C N mem (after p r) (after p r')"
  by (auto simp: moves_def broadcastTxRoutine_def after_def split: point.splits option.splits if_splits)

lemma moves_after_star: "(moves C N mem)\<^sup>*\<^sup>* r r' \<Longrightarrow> (moves C N mem)\<^sup>*\<^sup>* (after p r) (after p r')"
  by (induction rule: rtranclp_induct) (auto intro: rtranclp.rtrancl_into_rtrancl moves_after)

lemma sends_again:
  assumes laws: "clist_laws C" "celement_laws C N" and ok: "gossip_ok C (mem, r)"
    and q: "queue C mem = xs @ [(el, v)]" "r_at r = WaitNext" "r_next r = Some (el, v)"
    and rem: "mem_txs mem' = clRemove C el (mem_txs mem)" "senders mem' = senders mem"
  shows "\<exists>r'. (moves C N mem')\<^sup>*\<^sup>* r r' \<and> r_sent r' = r_sent r @ owed mem (peerID r) xs"
proof -
  have d: "distinct (map fst (queue C mem))" using ok by (simp add: gossip_ok_def)
  have nx: "clNext N el (mem_txs mem') = None" "clReady N el (mem_txs mem')"
    using celement_lawsD(1) [OF laws(2), of "length xs" "mem_txs mem"] d q(1) rem(1) celement_lawsD(3,4) [OF laws(2), of el "mem_txs mem"]
    by (simp_all add: queue_def)
  have q': "queue C mem' = xs" using q(1) d clist_lawsD(4) [OF laws(1)] rem(1)
    by (auto simp: queue_def filter_id_conv)
  define r1 where "r1 = \<lparr>peerID = peerID r, r_at = LoopHead, r_next = None, r_sent = []\<rparr>"
  have m: "moves C N mem' r (after (r_sent r) r1)" using nx q(2,3)
    by (simp add: moves_def goodChance_def broadcastTxRoutine_def after_def r1_def)
  have "gossip_ok C (mem', r1)" using d q(1) q' by (auto simp: gossip_ok_def at_element_def r1_def owed_def)
  from caught_up_ok [OF laws(2) this] obtain r2 where
    r2: "(moves C N mem')\<^sup>*\<^sup>* r1 r2" "r_sent r2 = owed mem' (peerID r) xs" by (auto simp: caught_up_def r1_def q')
  have "owed mem' p xs = owed mem p xs" for p by (simp add: owed_def rem(2))
  then show ?thesis using m moves_after_star [OF r2(1), of "r_sent r"] r2(2)
    by (intro exI [of _ "after (r_sent r) r2"]) (simp add: converse_rtranclp_into_rtranclp)
qed

section \<open>A list with removed elements\<close>

text \<open>
  A list that meets the laws: the number of the next element, the queued elements, and what followed the removed ones when they went.
\<close>

type_synonym wlist = "nat \<times> (addr \<times> mempoolTx) list \<times> (addr \<rightharpoonup> addr \<times> mempoolTx)"

fun nextOf :: "addr \<Rightarrow> (addr \<times> 'v) list \<Rightarrow> (addr \<times> 'v) option" where
  "nextOf el [] = None"
| "nextOf el [x] = None"
| "nextOf el (x # y # xs) = (if fst x = el then Some y else nextOf el (y # xs))"

definition waitCL :: "wlist CList" where
  "waitCL = \<lparr>clNew = (0, [], Map.empty),
     clPushBack = (\<lambda>v (n, l, m). let el = foldr (\<lambda>x n. max (Suc (fst x)) n) l n in (el, (Suc el, l @ [(el, v)], m))),
     clRemove = (\<lambda>el (n, l, m). (n, filter (\<lambda>x. fst x \<noteq> el) l, if el \<in> fst ` set l then m(el := nextOf el l) else m)),
     clItems = (\<lambda>(n, l, m). l)\<rparr>"

definition waitEl :: "wlist CElement" where
  "waitEl = \<lparr>clNext = (\<lambda>el (n, l, m). if el \<in> fst ` set l then nextOf el l else m el),
     clReady = (\<lambda>el (n, l, m). el \<in> fst ` set l \<longrightarrow> nextOf el l \<noteq> None)\<rparr>"

lemma nextOf_nth:
  "distinct (map fst xs) \<Longrightarrow> i < length xs \<Longrightarrow> nextOf (fst (xs ! i)) xs = (if Suc i < length xs then Some (xs ! Suc i) else None)"
proof (induction xs arbitrary: i rule: induct_list012)
  case (3 x y zs)
  show ?case
  proof (cases i)
    case (Suc j)
    then have "fst ((y # zs) ! j) \<in> fst ` set (y # zs)" using "3.prems"(2) by (intro imageI nth_mem) simp
    then have "fst x \<noteq> fst ((y # zs) ! j)" using "3.prems"(1) by (metis distinct.simps(2) list.simps(9) set_map)
    then show ?thesis using "3.IH"(2) [of j] "3.prems" Suc by simp
  qed simp
qed simp_all

lemma fold_fresh: "x \<in> set l \<Longrightarrow> fst x < foldr (\<lambda>x n. max (Suc (fst x)) n) l n"
  by (induction l) (auto simp: less_max_iff_disj)

lemma waitCL_laws: "clist_laws waitCL"
  using fold_fresh by (fastforce simp: clist_laws_def waitCL_def Let_def split: prod.splits)

lemma waitEl_laws: "celement_laws waitCL waitEl"
  by (auto simp: celement_laws_def waitCL_def waitEl_def nextOf_nth split: prod.splits)

definition gossipMem :: "wlist ListMempool" where
  "gossipMem = fst (CheckTx plainCrypto (\<lambda>b. b) waitCL (demoPay ''b'') 0 (fst (CheckTx plainCrypto (\<lambda>b. b) waitCL (demoPay ''a'') 0
     (NewListMempool waitCL demoConfig))))"

definition gossipReactor :: Reactor where
  "gossipReactor = \<lparr>memR_config = demoConfig, memR_ids = \<lparr>peerMap = [''p'' \<mapsto> 1], nextID = 2, activeIDs = {0, 1}\<rparr>\<rparr>"

lemma gossipReactor_init: "InitPeer ''p'' (NewReactor demoConfig) = Inr (gossipReactor, ''p'')"
  using nextPeerID_loop.simps(2) [of "{0}" 65535 1]
  by (simp add: InitPeer_def NewReactor_def ReserveForPeer_def nextPeerID_def newMempoolIDs_def maxActiveIDs_def gossipReactor_def insert_commute)

abbreviation payOf :: "string \<Rightarrow> mempoolTx" where
  "payOf who \<equiv> \<lparr>mt_slot = 0, mt_tx = demoPay who\<rparr>"

lemma gossipMem_facts:
  "queue waitCL gossipMem = [(0, payOf ''a'')] @ [(1, payOf ''b'')]"
  "TxsFront waitCL gossipMem = Some (0, payOf ''a'')"
  "clNext waitEl 0 (mem_txs gossipMem) = Some (1, payOf ''b'')"
  "clReady waitEl 0 (mem_txs gossipMem)"
  "txsMap gossipMem (TxKey plainCrypto (\<lambda>b. b) (demoPay ''b'')) = Some 1"
  "1 \<notin> senders gossipMem 0" "1 \<notin> senders gossipMem (Suc 0)"
  "GetForPeer ''p'' (memR_ids gossipReactor) = 1"
  by code_simp+

text \<open>The goroutine after it has sent both transactions: it waits on the second.\<close>

definition gossipWaits :: Routine where
  "gossipWaits = \<lparr>peerID = 1, r_at = WaitNext, r_next = Some (1, payOf ''b''), r_sent = [(0, payOf ''a''), (1, payOf ''b'')]\<rparr>"

lemma gossipWaits_reached:
  "(gossip_step plainCrypto (\<lambda>b. b) waitCL waitEl)\<^sup>*\<^sup>* (gossipMem, AddPeer ''p'' gossipReactor) (gossipMem, gossipWaits)"
proof -
  let ?s = "gossip_step plainCrypto (\<lambda>b. b) waitCL waitEl" and ?r = "AddPeer ''p'' gossipReactor"
  have step: "?s (gossipMem, r) (gossipMem, r')" if "moves waitCL waitEl gossipMem r r'" for r r'
    using that unfolding moves_def by (rule gossip_step.routine)
  note [simp] = moves_def broadcastTxRoutine_def goodChance_def AddPeer_def gossipMem_facts(2-8)
  let ?r1 = "?r\<lparr>r_next := Some (0, payOf ''a''), r_at := AtTx\<rparr>"
  let ?r2 = "?r1\<lparr>r_sent := [(0, payOf ''a'')], r_at := WaitNext\<rparr>"
  let ?r3 = "?r2\<lparr>r_next := Some (1, payOf ''b''), r_at := LoopHead\<rparr>"
  let ?r4 = "?r3\<lparr>r_at := AtTx\<rparr>"
  have "?s (gossipMem, ?r) (gossipMem, ?r1)" "?s (gossipMem, ?r1) (gossipMem, ?r2)" "?s (gossipMem, ?r2) (gossipMem, ?r3)"
    "?s (gossipMem, ?r3) (gossipMem, ?r4)" "?s (gossipMem, ?r4) (gossipMem, gossipWaits)"
    by (rule step; simp add: gossipWaits_def)+
  note s = this [THEN converse_rtranclp_into_rtranclp [where r = ?s]]
  show ?thesis by (rule s(1), rule s(2), rule s(3), rule s(4), rule s(5), rule rtranclp.rtrancl_refl)
qed

section \<open>Properties\<close>

lemma gossip_ok_run:
  assumes "(gossip_step e sha C N)\<^sup>*\<^sup>* (mem0, AddPeer peer memR) (mem, r)" "clist_laws C" "celement_laws C N"
    and "distinct (map fst (queue C mem0))"
  shows "gossip_ok C (mem, r)" "peerID r = GetForPeer peer (memR_ids memR)"
proof -
  show "gossip_ok C (mem, r)"
    using gossip.run_invar [OF assms(1), of "gossip_ok C"] gossip_ok_start [OF assms(4)] gossip_ok_step assms(2,3) by blast
  show "peerID r = GetForPeer peer (memR_ids memR)"
    using gossip.run_invar [OF assms(1), of "\<lambda>s. peerID (snd s) = GetForPeer peer (memR_ids memR)"] peerID_step
    by (fastforce simp: AddPeer_def)
qed

text \<open>
  (C13) Gossip: while transactions are checked, locked and released in any order, the goroutine of a peer has at every moment sent exactly the
  transactions of a prefix of the queue that did not come from that peer, each once and in the order of the queue; and unless it has
  ended, it sends all the others too as soon as the peer runs and accepts messages.
\<close>

theorem gossip_in_order:
  assumes "clist_laws C" "celement_laws C N" "distinct (map fst (queue C mem0))"
    and "(gossip_step e sha C N)\<^sup>*\<^sup>* (mem0, AddPeer peer memR) (mem, r)"
  shows "(\<exists>k. r_sent r = filter (\<lambda>x. GetForPeer peer (memR_ids memR) \<notin> senders mem (fst x)) (take k (queue C mem)))
    \<and> (r_at r \<noteq> Returned \<longrightarrow> (\<exists>r'. (moves C N mem)\<^sup>*\<^sup>* r r'
          \<and> r_sent r' = filter (\<lambda>x. GetForPeer peer (memR_ids memR) \<notin> senders mem (fst x)) (queue C mem)))"
proof -
  note run = gossip_ok_run [OF assms(4,1,2,3)]
  show ?thesis using run caught_up_ok [OF assms(2) run(1)] by (auto simp: gossip_ok_def at_element_def owed_def caught_up_def)
qed

theorem gossip_in_order_witness:
  "\<exists>r'. (moves waitCL waitEl gossipMem)\<^sup>*\<^sup>* (AddPeer ''p'' gossipReactor) r'
     \<and> r_sent r' = filter (\<lambda>x. GetForPeer ''p'' (memR_ids gossipReactor) \<notin> senders gossipMem (fst x)) (queue waitCL gossipMem)"
proof -
  have "distinct (map fst (queue waitCL gossipMem))" by (simp add: gossipMem_facts(1))
  from gossip_in_order [OF waitCL_laws waitEl_laws this rtranclp.rtrancl_refl] show ?thesis by (simp add: AddPeer_def)
qed

text \<open>
  (C37) Sent again: when the last transaction of the queue is removed while the goroutine waits on it, the goroutine starts over from
  the front of the queue, and, if the peer accepts messages, it sends all that is still queued a second time.
\<close>

theorem gossip_sends_again:
  assumes "clist_laws C" "celement_laws C N" "distinct (map fst (queue C mem0))"
    and "(gossip_step e sha C N)\<^sup>*\<^sup>* (mem0, AddPeer peer memR) (mem, r)"
    and "queue C mem = xs @ [(el, v)]" "r_at r = WaitNext" "r_next r = Some (el, v)" "txsMap mem (TxKey e sha (mt_tx v)) = Some el"
  shows "\<exists>r'. (moves C N (Mempool_Update e sha C slot [mt_tx v] mem))\<^sup>*\<^sup>* r r'
    \<and> r_sent r' = r_sent r @ filter (\<lambda>x. GetForPeer peer (memR_ids memR) \<notin> senders mem (fst x)) xs"
proof -
  let ?mem = "Mempool_Update e sha C slot [mt_tx v] mem"
  note run = gossip_ok_run [OF assms(4,1,2,3)]
  have "mem_txs ?mem = clRemove C el (mem_txs mem)" "senders ?mem = senders mem"
    using assms(8) by (simp_all add: Mempool_Update_def removeTx_def Let_def)
  from sends_again [OF assms(1,2) run(1) assms(5-7) this] show ?thesis using run(2) by (simp add: owed_def)
qed

theorem gossip_sends_again_witness:
  "\<exists>r'. (moves waitCL waitEl (Mempool_Update plainCrypto (\<lambda>b. b) waitCL 1 [demoPay ''b''] gossipMem))\<^sup>*\<^sup>* gossipWaits r'
     \<and> map fst (r_sent r') = [0, 1, 0]"
proof -
  have "distinct (map fst (queue waitCL gossipMem))" by (simp add: gossipMem_facts(1))
  from gossip_sends_again [OF waitCL_laws waitEl_laws this gossipWaits_reached gossipMem_facts(1), of 1]
  show ?thesis using gossipMem_facts(5-8) by (auto simp: gossipWaits_def)
qed

end
