(* ===== verification/RpcHandlers.thy ===== *)
theory RpcHandlers
  imports Gossip GoStrings SmallBank
begin

text \<open>
  The remaining RPC handlers: sending a transaction (rpc/mempool.go), opening an account (rpc/smallbank.go), dialling peers
  (rpc/net.go); with them the address lists and the node information of node/node.go and node/nodeinfo.go.
\<close>

section \<open>Model\<close>

subsection \<open>Transactions and accounts\<close>

text \<open>
  \<open>BroadcastTxAsync\<close>: the errors of the hexadecimal and of the JSON decoder are dropped. \<open>unmarshal\<close> is the JSON decoder,
  which fills the transaction as far as it gets.
\<close>

definition BroadcastTxAsync :: "('s, 'g) Crypto \<Rightarrow> (bytes \<Rightarrow> bytes) \<Rightarrow> 'c CList \<Rightarrow> (bytes \<Rightarrow> Tx \<Rightarrow> Tx \<times> string option)
    \<Rightarrow> bytes \<Rightarrow> 'c ListMempool \<Rightarrow> 'c ListMempool \<times> (memErr + bytes)" where
  "BroadcastTxAsync e sha256 C unmarshal txHex mem =
     (let (tx, _) = hexDecode txHex;
          (sbtx, _) = unmarshal tx \<lparr>TxType = [], Args = [], TxSendTimestamp = 0, tx_Signature = [], PublicKey = None\<rparr>;
          (mem', err) = CheckTx e sha256 C sbtx 0 mem
      in case err of Some x \<Rightarrow> (mem', Inl x) | None \<Rightarrow> (mem', Inr (Tx_Hash e sbtx)))"

definition InitSmallBankAccount :: "'d DB \<Rightarrow> string \<Rightarrow> string \<Rightarrow> string \<Rightarrow> 'd KVStore \<Rightarrow> 'd KVStore \<times> atoi_error option" where
  "InitSmallBankAccount D name saving checking kv = (case Atoi saving of
      (_, Some err) \<Rightarrow> (kv, Some err)
    | (s, None) \<Rightarrow> (case Atoi checking of
        (_, Some err) \<Rightarrow> (kv, Some err)
      | (c, None) \<Rightarrow> (InitAccount D name s c kv, None)))"

subsection \<open>Peers\<close>

text \<open>
  What the handlers use of the switch of the peer-to-peer library: each operation changes the switch and may report an error.
\<close>

record 'sw Switch =
  DialPeersAsync :: "string list \<Rightarrow> 'sw \<Rightarrow> 'sw \<times> string option"
  AddPersistentPeers :: "string list \<Rightarrow> 'sw \<Rightarrow> 'sw \<times> string option"
  AddPrivatePeerIDs :: "string list \<Rightarrow> 'sw \<Rightarrow> 'sw \<times> string option"
  AddUnconditionalPeerIDs :: "string list \<Rightarrow> 'sw \<Rightarrow> 'sw \<times> string option"

definition UnsafeDialSeeds :: "'sw Switch \<Rightarrow> string list \<Rightarrow> 'sw \<Rightarrow> 'sw \<times> (string + string)" where
  "UnsafeDialSeeds S seeds sw =
     (if seeds = [] then (sw, Inl ''no seeds provided'')
      else case DialPeersAsync S seeds sw of
        (sw', Some err) \<Rightarrow> (sw', Inl err)
      | (sw', None) \<Rightarrow> (sw', Inr ''Dialing seeds in progress. See /net_info for details''))"

fun getIDs :: "string list \<Rightarrow> string + string list" where
  "getIDs [] = Inr []"
| "getIDs (peer # peers) =
     (let spl = Split peer ''@'' in
      if length spl \<noteq> 2 then Inl peer
      else case getIDs peers of Inl err \<Rightarrow> Inl err | Inr ids \<Rightarrow> Inr (hd spl # ids))"

text \<open>An operation that is asked for; the first error ends the handler.\<close>

definition onlyIf :: "bool \<Rightarrow> ('sw \<Rightarrow> 'sw \<times> string option) \<Rightarrow> ('sw \<Rightarrow> 'sw \<times> (string + string)) \<Rightarrow> 'sw \<Rightarrow> 'sw \<times> (string + string)" where
  "onlyIf b act rest sw = (if b then (case act sw of (sw', Some err) \<Rightarrow> (sw', Inl err) | (sw', None) \<Rightarrow> rest sw') else rest sw)"

definition UnsafeDialPeers :: "'sw Switch \<Rightarrow> string list \<Rightarrow> bool \<Rightarrow> bool \<Rightarrow> bool \<Rightarrow> 'sw \<Rightarrow> 'sw \<times> (string + string)" where
  "UnsafeDialPeers S peers persistent unconditional private sw =
     (if peers = [] then (sw, Inl ''no peers provided'')
      else case getIDs peers of
        Inl err \<Rightarrow> (sw, Inl err)
      | Inr ids \<Rightarrow>
          onlyIf persistent (AddPersistentPeers S peers)
         (onlyIf private (AddPrivatePeerIDs S ids)
         (onlyIf unconditional (AddUnconditionalPeerIDs S ids)
         (onlyIf True (DialPeersAsync S peers)
         (\<lambda>sw. (sw, Inr ''Dialing peers in progress. See /net_info for details''))))) sw)"

text \<open>What \<open>NetInfo\<close> reads of a peer; the node information may be of another type.\<close>

record ('ni, 'st) PeerView =
  pv_NodeInfo :: "'ni option"
  pv_IsOutbound :: bool
  pv_Status :: 'st
  pv_RemoteIP :: string

record ('ni, 'st) NetPeer =
  np_NodeInfo :: 'ni
  np_IsOutbound :: bool
  np_Status :: 'st
  np_RemoteIP :: string

fun NetInfo_loop :: "('ni, 'st) PeerView list \<Rightarrow> ('ni, 'st) NetPeer list \<Rightarrow> string + ('ni, 'st) NetPeer list" where
  "NetInfo_loop [] peers = Inr peers"
| "NetInfo_loop (p # ps) peers = (case pv_NodeInfo p of
      None \<Rightarrow> Inl ''peer.NodeInfo() is not DefaultNodeInfo''
    | Some ni \<Rightarrow> NetInfo_loop ps (peers @ [\<lparr>np_NodeInfo = ni, np_IsOutbound = pv_IsOutbound p, np_Status = pv_Status p, np_RemoteIP = pv_RemoteIP p\<rparr>]))"

definition NetInfo :: "('ni, 'st) PeerView list \<Rightarrow> string + nat \<times> ('ni, 'st) NetPeer list" where
  "NetInfo peersList = (case NetInfo_loop peersList [] of Inl err \<Rightarrow> Inl err | Inr peers \<Rightarrow> Inr (length peers, peers))"

subsection \<open>Addresses\<close>

fun nonEmptyStrings :: "string list \<Rightarrow> string \<Rightarrow> string list" where
  "nonEmptyStrings [] cutset = []"
| "nonEmptyStrings (x # xs) cutset =
     (let element = Trim x cutset in if element \<noteq> [] then element # nonEmptyStrings xs cutset else nonEmptyStrings xs cutset)"

definition splitAndTrimEmpty :: "string \<Rightarrow> string \<Rightarrow> string \<Rightarrow> string list" where
  "splitAndTrimEmpty s sep cutset = (if s = [] then [] else nonEmptyStrings (Split s sep) cutset)"

definition removeProtocolIfDefined :: "string \<Rightarrow> string res" where
  "removeProtocolIfDefined addr = (if Contains addr ''://'' then index (Split addr ''://'') 1 else Inr addr)"

record 'na NodeInfo =
  ni_Addr :: "'na option"
  ni_Version :: string

definition NewNodeInfo :: "(string \<Rightarrow> string + 'na) \<Rightarrow> string \<Rightarrow> string \<Rightarrow> (string + 'na NodeInfo) res" where
  "NewNodeInfo newNetAddressString nid laddr = rbind (removeProtocolIfDefined laddr) (\<lambda>laddr'.
     Inr (case newNetAddressString (nid @ ''@'' @ laddr') of
       Inl err \<Rightarrow> Inl err
     | Inr addr \<Rightarrow> Inr \<lparr>ni_Addr = Some addr, ni_Version = ''1.0''\<rparr>))"

definition NodeInfo_ID :: "('na \<Rightarrow> string) \<Rightarrow> 'na NodeInfo \<Rightarrow> string res" where
  "NodeInfo_ID naID info = rbind (deref (ni_Addr info)) (\<lambda>a. Inr (naID a))"

definition NodeInfo_NetAddress :: "'na NodeInfo \<Rightarrow> string + 'na" where
  "NodeInfo_NetAddress info = (case ni_Addr info of Some a \<Rightarrow> Inr a | None \<Rightarrow> Inl ''node address is empty'')"

definition NodeInfo_Validate :: "'na NodeInfo \<Rightarrow> string option" where
  "NodeInfo_Validate info =
     (if ni_Addr info = None then Some ''node address is empty''
      else if length (ni_Version info) > 0 \<and> Trim (ni_Version info) [char_of (9 :: nat), CHR '' ''] = []
        then Some (''info.Version must be valid ASCII text without tabs, but got &v'' @ ''%!(EXTRA string='' @ ni_Version info @ '')'')
      else None)"

definition CompatibleWith :: "'na NodeInfo \<Rightarrow> 'ni \<Rightarrow> string option" where
  "CompatibleWith info otherInfo = None"

section \<open>Address lists\<close>

lemma nonEmptyStrings_spec:
  "x \<in> set (nonEmptyStrings xs cutset) \<Longrightarrow> x \<noteq> [] \<and> trimmed x cutset \<and> (\<exists>y \<in> set xs. x = Trim y cutset)"
  by (induction xs) (auto simp: Let_def trimmed_Trim split: if_splits)

lemma nonEmptyStrings_id: "\<forall>x \<in> set xs. x \<noteq> [] \<and> trimmed x cutset \<Longrightarrow> nonEmptyStrings xs cutset = xs"
  by (induction xs) (auto simp: Trim_trimmed)

lemma Join_nonempty: "xs \<noteq> [] \<Longrightarrow> \<forall>x \<in> set xs. x \<noteq> [] \<Longrightarrow> Join xs sep \<noteq> []"
  by (cases xs; cases "tl xs") auto

lemma getIDs_spec:
  "getIDs peers = Inr ids \<longleftrightarrow> list_all2 (\<lambda>peer i. \<exists>a. CHR ''@'' \<notin> set i \<and> CHR ''@'' \<notin> set a \<and> peer = i @ ''@'' @ a) peers ids"
proof (induction peers arbitrary: ids)
  case (Cons peer peers)
  have two: "length (Split peer ''@'') = 2 \<and> hd (Split peer ''@'') = i \<longleftrightarrow>
      (\<exists>a. CHR ''@'' \<notin> set i \<and> CHR ''@'' \<notin> set a \<and> peer = i @ ''@'' @ a)" for i
  proof
    assume s: "length (Split peer ''@'') = 2 \<and> hd (Split peer ''@'') = i"
    then obtain a where a: "Split peer ''@'' = [i, a]" by (auto simp: length_Suc_conv numeral_2_eq_2)
    then have "peer = i @ ''@'' @ a" using Join_Split [of "''@''" peer] by simp
    moreover have "CHR ''@'' \<notin> set i" "CHR ''@'' \<notin> set a" using Split_char_parts [of _ peer "CHR ''@''"] a by simp_all
    ultimately show "\<exists>a. CHR ''@'' \<notin> set i \<and> CHR ''@'' \<notin> set a \<and> peer = i @ ''@'' @ a" by blast
  next
    assume "\<exists>a. CHR ''@'' \<notin> set i \<and> CHR ''@'' \<notin> set a \<and> peer = i @ ''@'' @ a"
    then show "length (Split peer ''@'') = 2 \<and> hd (Split peer ''@'') = i"
      by (auto simp: Split_char_app Split_char_none)
  qed
  let ?h = "hd (Split peer ''@'')"
  have step: "getIDs (peer # peers) = Inr ids \<longleftrightarrow> length (Split peer ''@'') = 2 \<and> (\<exists>js. ids = ?h # js \<and> getIDs peers = Inr js)"
    by (auto simp: Let_def split: sum.splits)
  show ?case unfolding step list_all2_Cons1 Cons.IH two [symmetric] by auto
qed auto

text \<open>The first peer that is not an id and an address is reported.\<close>

lemma at_signs: "length (filter (\<lambda>c. c = CHR ''@'') peer) = 1 \<Longrightarrow> \<exists>i a. CHR ''@'' \<notin> set i \<and> CHR ''@'' \<notin> set a \<and> peer = i @ ''@'' @ a"
proof -
  assume one: "length (filter (\<lambda>c. c = CHR ''@'') peer) = 1"
  then have "filter (\<lambda>c. c = CHR ''@'') peer \<noteq> []" by auto
  then have "CHR ''@'' \<in> set peer" by (auto simp: filter_empty_conv)
  then obtain i a where p: "peer = i @ CHR ''@'' # a" "CHR ''@'' \<notin> set i" by (metis split_list_first)
  then have "filter (\<lambda>c. c = CHR ''@'') a = []" using one by simp
  then have "CHR ''@'' \<notin> set a" by (auto simp: filter_empty_conv)
  with p show ?thesis by auto
qed

lemma getIDs_Inl: "getIDs peers = Inl peer \<Longrightarrow> peer \<in> set peers \<and> length (filter (\<lambda>c. c = CHR ''@'') peer) \<noteq> 1"
proof (induction peers)
  case (Cons p peers)
  show ?case
  proof (cases "length (Split p ''@'') = 2")
    case True
    then show ?thesis using Cons by (auto simp: Let_def split: sum.splits)
  next
    case False
    then have "length (filter (\<lambda>c. c = CHR ''@'') p) \<noteq> 1"
      using at_signs [of p] by (auto simp: Split_char_app Split_char_none)
    then show ?thesis using Cons.prems False by (simp add: Let_def)
  qed
qed simp

section \<open>Transactions of clients\<close>

definition queuedTxs :: "'c CList \<Rightarrow> 'c ListMempool \<Rightarrow> Tx list" where
  "queuedTxs C mem = map (\<lambda>x. mt_tx (snd x)) (queue C mem)"

text \<open>A check changes nothing or appends the transaction.\<close>

lemma CheckTx_queuedTxs:
  assumes "clist_laws C" "CheckTx e sha C tx s mem = (mem', err)"
  shows "err \<noteq> None \<Longrightarrow> mem' = mem" "err = None \<Longrightarrow> queuedTxs C mem' = queuedTxs C mem @ [tx]"
proof -
  have m: "err \<noteq> None \<Longrightarrow> mem' = mem" "err = None \<Longrightarrow> mem' = addTx e sha C \<lparr>mt_slot = mem_slot mem, mt_tx = tx\<rparr> {s} mem"
    using assms(2) by (auto simp: CheckTx_def Let_def nop_Push_def split: option.splits if_splits)
  have "queuedTxs C (addTx e sha C v f mem) = queuedTxs C mem @ [mt_tx v]" for v f
    using clist_lawsD(2) [OF assms(1)] by (auto simp: queuedTxs_def addTx_def queue_def Let_def split: prod.split)
  then show "err \<noteq> None \<Longrightarrow> mem' = mem" "err = None \<Longrightarrow> queuedTxs C mem' = queuedTxs C mem @ [tx]" using m by auto
qed

lemma BroadcastTxAsync_checks:
  assumes "clist_laws C" "fst (unmarshal (fst (hexDecode bz)) NewTx) = tx"
  obtains err where "CheckTx e sha C tx 0 mem = (mem, Some err)" "BroadcastTxAsync e sha C unmarshal bz mem = (mem, Inl err)"
  | mem' where "CheckTx e sha C tx 0 mem = (mem', None)" "BroadcastTxAsync e sha C unmarshal bz mem = (mem', Inr (Tx_Hash e tx))"
      "queuedTxs C mem' = queuedTxs C mem @ [tx]"
proof -
  obtain mem' err where c: "CheckTx e sha C tx 0 mem = (mem', err)" by (cases "CheckTx e sha C tx 0 mem")
  obtain a b where h: "hexDecode bz = (a, b)" by (cases "hexDecode bz")
  obtain uerr where u: "unmarshal a NewTx = (tx, uerr)" using assms(2) h by (cases "unmarshal a NewTx") simp
  have "BroadcastTxAsync e sha C unmarshal bz mem = (case err of Some x \<Rightarrow> (mem', Inl x) | None \<Rightarrow> (mem', Inr (Tx_Hash e tx)))"
    using c h u by (simp add: BroadcastTxAsync_def NewTx_def)
  then show thesis using that c CheckTx_queuedTxs [OF assms(1) c] by (cases err) auto
qed

section \<open>Properties\<close>

text \<open>
  Lists of addresses: writing addresses that are not empty, contain no comma and neither start nor end with a blank, separated by
  commas, and reading the list gives them back; and whatever is read, no address is empty or has blanks around it.
\<close>

theorem address_list_roundtrip:
  assumes "\<forall>x \<in> set xs. x \<noteq> [] \<and> trimmed x '' '' \<and> CHR '','' \<notin> set x"
  shows "splitAndTrimEmpty (Join xs '','') '','' '' '' = xs \<and> (\<forall>s. \<forall>x \<in> set (splitAndTrimEmpty s '','' '' ''). x \<noteq> [] \<and> trimmed x '' '')"
proof
  show "splitAndTrimEmpty (Join xs '','') '','' '' '' = xs"
  proof (cases "xs = []")
    case False
    then have "Split (Join xs '','') '','' = xs" "Join xs '','' \<noteq> []" using assms Split_Join_char Join_nonempty by blast+
    then show ?thesis using assms nonEmptyStrings_id [of xs "'' ''"] by (simp add: splitAndTrimEmpty_def)
  qed (simp add: splitAndTrimEmpty_def)
  show "\<forall>s. \<forall>x \<in> set (splitAndTrimEmpty s '','' '' ''). x \<noteq> [] \<and> trimmed x '' ''"
    using nonEmptyStrings_spec by (auto simp: splitAndTrimEmpty_def split: if_splits)
qed

theorem address_list_roundtrip_witness:
  "splitAndTrimEmpty ''a@1:26656,b@2:26656'' '','' '' '' = [''a@1:26656'', ''b@2:26656'']"
  using address_list_roundtrip [of "[''a@1:26656'', ''b@2:26656'']"] by (simp add: trimmed_def)

text \<open>
  Dialling peers: if every peer is written as an id, one at-sign and an address, the switch is asked to add and dial exactly
  these, with their ids; otherwise nothing is asked of it and the error names a peer of the list.
\<close>

theorem dial_peers_outcome:
  assumes "peers \<noteq> []"
  shows "(\<exists>ids. list_all2 (\<lambda>peer i. \<exists>a. CHR ''@'' \<notin> set i \<and> CHR ''@'' \<notin> set a \<and> peer = i @ ''@'' @ a) peers ids
       \<and> UnsafeDialPeers S peers persistent unconditional private sw =
           onlyIf persistent (AddPersistentPeers S peers) (onlyIf private (AddPrivatePeerIDs S ids)
             (onlyIf unconditional (AddUnconditionalPeerIDs S ids) (onlyIf True (DialPeersAsync S peers)
               (\<lambda>sw. (sw, Inr ''Dialing peers in progress. See /net_info for details''))))) sw)
    \<or> (\<exists>peer \<in> set peers. length (filter (\<lambda>c. c = CHR ''@'') peer) \<noteq> 1
       \<and> UnsafeDialPeers S peers persistent unconditional private sw = (sw, Inl peer))"
proof (cases "getIDs peers")
  case (Inr ids)
  then show ?thesis using assms getIDs_spec [of peers ids] by (auto simp: UnsafeDialPeers_def)
next
  case (Inl err)
  then show ?thesis using assms getIDs_Inl [OF Inl] by (auto simp: UnsafeDialPeers_def)
qed

theorem dial_peers_outcome_witness:
  "\<forall>(S :: unit Switch) sw. UnsafeDialPeers S [''a@h:1'', ''b''] True False False sw = (sw, Inl ''b'')"
proof (intro allI)
  fix S :: "unit Switch" and sw
  have "\<not> list_all2 (\<lambda>peer i. \<exists>a. CHR ''@'' \<notin> set i \<and> CHR ''@'' \<notin> set a \<and> peer = i @ ''@'' @ a) [''a@h:1'', ''b''] ids" for ids
  proof
    assume "list_all2 (\<lambda>peer i. \<exists>a. CHR ''@'' \<notin> set i \<and> CHR ''@'' \<notin> set a \<and> peer = i @ ''@'' @ a) [''a@h:1'', ''b''] ids"
    then obtain i a where "''b'' = i @ ''@'' @ a" by (auto simp: list_all2_Cons1)
    then show False by (cases i) auto
  qed
  with dial_peers_outcome [of "[''a@h:1'', ''b'']" S True False False sw]
  show "UnsafeDialPeers S [''a@h:1'', ''b''] True False False sw = (sw, Inl ''b'')" by simp
qed

text \<open>
  (C32) A transaction sent to a node: what a client marshals and encodes is what is checked, and, when there is room for it, it stands at
  the end of the queue and the client gets its hash; otherwise the mempool is left alone and the client gets the error.
\<close>

theorem broadcast_roundtrip:
  assumes "clist_laws C" "unmarshal (marshal tx) NewTx = (tx, None)"
  shows "(\<exists>err. CheckTx e sha C tx 0 mem = (mem, Some err) \<and> BroadcastTxAsync e sha C unmarshal (hexEncode (marshal tx)) mem = (mem, Inl err))
    \<or> (\<exists>mem'. CheckTx e sha C tx 0 mem = (mem', None) \<and> queuedTxs C mem' = queuedTxs C mem @ [tx]
          \<and> BroadcastTxAsync e sha C unmarshal (hexEncode (marshal tx)) mem = (mem', Inr (Tx_Hash e tx)))"
  by (rule BroadcastTxAsync_checks [OF assms(1), of unmarshal "hexEncode (marshal tx)" tx e sha mem]) (simp_all add: assms(2))

definition roomyMem :: "(addr \<times> mempoolTx) list ListMempool" where
  "roomyMem = demoChecks [demoPay ''a'']"

lemma roomyMem_room: "snd (CheckTx plainCrypto (\<lambda>b. b) listCL (demoPay ''b'') 0 roomyMem) = None"
  by code_simp

theorem broadcast_roundtrip_witness:
  "queuedTxs listCL (fst (BroadcastTxAsync plainCrypto (\<lambda>b. b) listCL (\<lambda>b t. (demoPay b, None)) (hexEncode ''b'') roomyMem)) =
     queuedTxs listCL roomyMem @ [demoPay ''b'']"
  using broadcast_roundtrip [OF listCL_laws, of "\<lambda>b t. (demoPay b, None)" "\<lambda>_. ''b''" "demoPay ''b''" plainCrypto "\<lambda>b. b" roomyMem] roomyMem_room
  by auto

text \<open>
  Undecodable bytes are queued: whatever bytes a client sends, even ones that are neither hexadecimal nor JSON, as long as
  there is room the node queues a transaction and answers with a hash.
\<close>

theorem broadcast_accepts_garbage:
  assumes "clist_laws C" "snd (CheckTx e sha C (fst (unmarshal (fst (hexDecode bz)) NewTx)) 0 mem) = None"
  shows "\<exists>mem' h. BroadcastTxAsync e sha C unmarshal bz mem = (mem', Inr h) \<and> length (queuedTxs C mem') = Suc (length (queuedTxs C mem))"
  by (rule BroadcastTxAsync_checks [of C unmarshal bz _ e sha mem, OF assms(1) refl]) (use assms(2) in auto)

theorem broadcast_accepts_garbage_witness:
  "\<exists>mem' h. BroadcastTxAsync plainCrypto (\<lambda>b. b) listCL (\<lambda>b t. (t, Some ''error'')) ''zz'' roomyMem = (mem', Inr h)
     \<and> length (queuedTxs listCL mem') = Suc (length (queuedTxs listCL roomyMem))"
proof -
  have "snd (CheckTx plainCrypto (\<lambda>b. b) listCL NewTx 0 roomyMem) = None" by code_simp
  then show ?thesis using broadcast_accepts_garbage [OF listCL_laws, of plainCrypto "\<lambda>b. b" "\<lambda>b t. (t, Some ''error'')" "''zz''" roomyMem] by simp
qed

text \<open>
  Opening an account: when both amounts are readable numbers, the account is found under its name with these balances; otherwise
  nothing is written and the error is the one of the first unreadable amount.
\<close>

theorem InitSmallBankAccount_outcome:
  assumes "db_laws D"
  shows "InitSmallBankAccount D name (Itoa s) (Itoa c) kv = (InitAccount D name s c kv, None)
    \<and> accountID D (InitAccount D name s c kv) name = scast (increasingID kv)
    \<and> checkingOf D (InitAccount D name s c kv) (scast (increasingID kv)) = c
    \<and> savingOf D (InitAccount D name s c kv) (scast (increasingID kv)) = s
    \<and> (\<forall>t err. snd (Atoi t) = Some err \<longrightarrow> InitSmallBankAccount D name t (Itoa c) kv = (kv, Some err)
         \<and> InitSmallBankAccount D name (Itoa s) t kv = (kv, Some err))"
  using db_lawsD(1) [OF assms]
  by (auto simp: InitSmallBankAccount_def InitAccount_def Let_def accountID_def checkingOf_def savingOf_def Atoi_Itoa
      simp del: GenKey.simps split: prod.split)

theorem InitSmallBankAccount_outcome_witness:
  "checkingOf memDB (fst (InitSmallBankAccount memDB ''alice'' (Itoa 100) (Itoa 20) \<lparr>kvDB = Map.empty, increasingID = 41\<rparr>)) 41 = 20
     \<and> InitSmallBankAccount memDB ''alice'' ''x'' (Itoa 20) \<lparr>kvDB = Map.empty, increasingID = 41\<rparr> = (\<lparr>kvDB = Map.empty, increasingID = 41\<rparr>, Some ErrSyntax)"
proof -
  have "snd (Atoi ''x'') = Some ErrSyntax" by code_simp
  then show ?thesis using InitSmallBankAccount_outcome [OF memDB_laws, of "''alice''" 100 20 "\<lparr>kvDB = Map.empty, increasingID = 41\<rparr>"] by simp
qed

end
