(* ===== verification/NodeService.thy ===== *)
theory NodeService
  imports Node RpcHandlers
begin

text \<open>
  The services of a node around the consensus state (node/node.go): the channels of the two reactors and the information a node
  publishes about itself, the start of the RPC server, of the transport and of the switch, and the stop. The RPC server, the transport and
  the switch are of the peer-to-peer library, whose operations are parameters.
\<close>

section \<open>Model\<close>

subsection \<open>Channels\<close>

record ChannelDescriptor =
  cd_ID :: "8 word"
  cd_Priority :: int64
  SendQueueCapacity :: int64
  RecvBufferCapacity :: int64
  RecvMessageCapacity :: int64

definition maxMsgSize :: int64 where
  "maxMsgSize = 10485760"

definition MempoolChannel :: "8 word" where
  "MempoolChannel = 0x20"

definition Consensus_GetChannels :: "ChannelDescriptor list" where
  "Consensus_GetChannels =
     [\<lparr>cd_ID = ProposalChannel, cd_Priority = 10, SendQueueCapacity = 100, RecvBufferCapacity = maxMsgSize, RecvMessageCapacity = 0\<rparr>,
      \<lparr>cd_ID = VoteChannel, cd_Priority = 10, SendQueueCapacity = 100, RecvBufferCapacity = maxMsgSize, RecvMessageCapacity = 0\<rparr>]"

text \<open>\<open>marshalBytes\<close> is the JSON of a byte slice; a negative size of the slice panics.\<close>

definition Mempool_GetChannels :: "(bytes \<Rightarrow> bytes) \<Rightarrow> Reactor \<Rightarrow> ChannelDescriptor list res" where
  "Mempool_GetChannels marshalBytes memR =
     (let mx = sint (cfg_MaxTxBytes (memR_config memR)) in
      if mx < 0 then Inl (Panic ''makeslice: len out of range'')
      else let batchMsg = marshalBytes (replicate (nat mx) (char_of (0 :: nat)))
           in Inr [\<lparr>cd_ID = MempoolChannel, cd_Priority = 5, SendQueueCapacity = 0, RecvBufferCapacity = 0,
                    RecvMessageCapacity = of_nat (length batchMsg)\<rparr>])"

text \<open>The peers of the consensus reactor: a leaving peer is not taken out.\<close>

definition Consensus_AddPeer :: "(ID \<Rightarrow> string) \<Rightarrow> ID \<Rightarrow> (string \<rightharpoonup> ID) \<Rightarrow> (string \<rightharpoonup> ID)" where
  "Consensus_AddPeer idAddressString peer peers = peers(idAddressString peer \<mapsto> peer)"

definition Consensus_RemovePeer :: "ID \<Rightarrow> (string \<rightharpoonup> ID) \<Rightarrow> (string \<rightharpoonup> ID)" where
  "Consensus_RemovePeer peer peers = peers"

subsection \<open>Node information\<close>

record NetConfig =
  Moniker :: string
  RPC_ListenAddress :: string
  P2P_ListenAddress :: string
  ExternalAddress :: string
  PersistentPeers :: string

record DefaultNodeInfo =
  DefaultNodeID :: ID
  Network :: string
  Channels :: "8 word list"
  ni_Moniker :: string
  TxIndex :: string
  RPCAddress :: string
  ListenAddr :: string

definition makeNodeInfo :: "(DefaultNodeInfo \<Rightarrow> string option) \<Rightarrow> NetConfig \<Rightarrow> ID \<Rightarrow> DefaultNodeInfo \<times> string option" where
  "makeNodeInfo validate config nodeID =
     (let lAddr = (if ExternalAddress config = [] then P2P_ListenAddress config else ExternalAddress config);
          nodeInfo = \<lparr>DefaultNodeID = nodeID, Network = ''test-chain-xNfEDp'', Channels = [VoteChannel, ProposalChannel, MempoolChannel],
            ni_Moniker = Moniker config, TxIndex = ''off'', RPCAddress = RPC_ListenAddress config, ListenAddr = lAddr\<rparr>
      in (nodeInfo, validate nodeInfo))"

subsection \<open>Start and stop\<close>

record 'sv Services =
  serverListen :: "string \<Rightarrow> 'sv \<Rightarrow> 'sv \<times> (string + nat)"
  netAddressErr :: "string \<Rightarrow> string option"
  idAddress :: "ID \<Rightarrow> string \<Rightarrow> string"
  transportListen :: "string \<Rightarrow> 'sv \<Rightarrow> 'sv \<times> string option"
  switchStart :: "'sv \<Rightarrow> 'sv \<times> string option"
  switchDial :: "string list \<Rightarrow> 'sv \<Rightarrow> 'sv \<times> string option"
  switchStop :: "'sv \<Rightarrow> 'sv"
  transportClose :: "'sv \<Rightarrow> 'sv"
  closeListener :: "nat \<Rightarrow> 'sv \<Rightarrow> 'sv \<times> string option"

record Node =
  node_config :: NetConfig
  node_ID :: ID
  rpcListeners :: "nat list"
  isListening :: bool

fun startRPC_loop :: "'sv Services \<Rightarrow> string list \<Rightarrow> nat list \<Rightarrow> 'sv \<Rightarrow> 'sv \<times> (string + nat list)" where
  "startRPC_loop S [] listeners sv = (sv, Inr listeners)"
| "startRPC_loop S (listenAddr # addrs) listeners sv = (case serverListen S listenAddr sv of
      (sv', Inl err) \<Rightarrow> (sv', Inl err)
    | (sv', Inr listener) \<Rightarrow> startRPC_loop S addrs (listeners @ [listener]) sv')"

definition startRPC :: "'sv Services \<Rightarrow> Node \<Rightarrow> 'sv \<Rightarrow> 'sv \<times> (string + nat list)" where
  "startRPC S n sv = startRPC_loop S (splitAndTrimEmpty (RPC_ListenAddress (node_config n)) '','' '' '') [] sv"

definition Node_OnStart :: "'sv Services \<Rightarrow> Node \<Rightarrow> 'sv \<Rightarrow> Node \<times> 'sv \<times> string option" where
  "Node_OnStart S n sv =
     (let (n1, sv1, err) =
            (if RPC_ListenAddress (node_config n) \<noteq> [] then
               (case startRPC S n sv of
                  (sv', Inl e) \<Rightarrow> (n, sv', Some (''start RPC server failed. reason: '' @ e))
                | (sv', Inr ls) \<Rightarrow> (n\<lparr>rpcListeners := ls\<rparr>, sv', None))
             else (n, sv, None))
      in if err \<noteq> None then (n1, sv1, err)
      else let addr = idAddress S (node_ID n) (P2P_ListenAddress (node_config n)) in
      case netAddressErr S addr of
        Some e \<Rightarrow> (n1, sv1, Some e)
      | None \<Rightarrow> (case transportListen S addr sv1 of
          (sv2, Some e) \<Rightarrow> (n1, sv2, Some e)
        | (sv2, None) \<Rightarrow> (case switchStart S sv2 of
            (sv3, Some e) \<Rightarrow> (n1, sv3, Some e)
          | (sv3, None) \<Rightarrow>
              let n2 = n1\<lparr>isListening := True\<rparr> in
              (case switchDial S (splitAndTrimEmpty (PersistentPeers (node_config n)) '','' '' '') sv3 of
                 (sv4, Some e) \<Rightarrow> (n2, sv4, Some (''could not dial peers from persistent_peers field: '' @ e))
               | (sv4, None) \<Rightarrow> (n2, sv4, None)))))"

text \<open>Errors of closing a listener are only logged.\<close>

definition Node_OnStop :: "'sv Services \<Rightarrow> Node \<Rightarrow> 'sv \<Rightarrow> 'sv" where
  "Node_OnStop S n sv = foldl (\<lambda>s l. fst (closeListener S l s)) (transportClose S (switchStop S sv)) (rpcListeners n)"

section \<open>A log of the services\<close>

text \<open>
  The services as a log of what was asked of them, with the errors given: the listeners are numbered, and an address in \<open>bad\<close>
  cannot be listened on.
\<close>

datatype action = Listen string nat | Transport string | SwitchStart | Dial "string list" | SwitchStop | TransportClose | Close nat

definition opened :: "action list \<Rightarrow> nat list" where
  "opened acts = concat (map (\<lambda>a. case a of Listen s i \<Rightarrow> [i] | _ \<Rightarrow> []) acts)"

definition logServices :: "(string \<Rightarrow> string option) \<Rightarrow> string option \<Rightarrow> string option \<Rightarrow> string option \<Rightarrow> action list Services" where
  "logServices bad terr serr derr = \<lparr>
     serverListen = (\<lambda>s acts. case bad s of Some e \<Rightarrow> (acts, Inl e) | None \<Rightarrow> (acts @ [Listen s (length (opened acts))], Inr (length (opened acts)))),
     netAddressErr = (\<lambda>_. None), idAddress = (\<lambda>i a. i @ ''@'' @ a),
     transportListen = (\<lambda>a acts. (acts @ [Transport a], terr)), switchStart = (\<lambda>acts. (acts @ [SwitchStart], serr)),
     switchDial = (\<lambda>ps acts. (acts @ [Dial ps], derr)), switchStop = (\<lambda>acts. acts @ [SwitchStop]),
     transportClose = (\<lambda>acts. acts @ [TransportClose]), closeListener = (\<lambda>l acts. (acts @ [Close l], None))\<rparr>"

lemma opened_app [simp]: "opened (a @ b) = opened a @ opened b"
  by (simp add: opened_def)

lemma startRPC_loop_log:
  assumes "startRPC_loop (logServices bad terr serr derr) addrs ls acts = (acts', Inr ls')"
  shows "\<exists>new. acts' = acts @ new \<and> ls' = ls @ opened new \<and> length (opened new) = length addrs"
  using assms
proof (induction addrs arbitrary: ls acts)
  case (Cons a addrs)
  then have b: "bad a = None" by (auto simp: logServices_def split: option.splits)
  let ?i = "length (opened acts)"
  have "startRPC_loop (logServices bad terr serr derr) addrs (ls @ [?i]) (acts @ [Listen a ?i]) = (acts', Inr ls')"
    using Cons.prems b by (simp add: logServices_def)
  from Cons.IH [OF this] obtain new where "acts' = (acts @ [Listen a ?i]) @ new" "ls' = (ls @ [?i]) @ opened new" "length (opened new) = length addrs" by blast
  then show ?case by (intro exI [of _ "Listen a ?i # new"]) (simp add: opened_def)
qed (auto simp: opened_def)

section \<open>Properties\<close>

text \<open>
  Channels: the channels of the two reactors are pairwise different, and the information that a node publishes declares exactly these, so
  that messages on them are exchanged.
\<close>

theorem channels_declared:
  assumes "Mempool_GetChannels marshalBytes memR = Inr ds"
  shows "distinct (map cd_ID (Consensus_GetChannels @ ds))
    \<and> set (map cd_ID (Consensus_GetChannels @ ds)) = set (Channels (fst (makeNodeInfo validate config nodeID)))"
  using assms by (auto simp: Mempool_GetChannels_def Let_def Consensus_GetChannels_def makeNodeInfo_def ProposalChannel_def VoteChannel_def
      MempoolChannel_def split: if_splits)

theorem channels_declared_witness:
  "distinct (map cd_ID (Consensus_GetChannels @ projr (Mempool_GetChannels (\<lambda>b. b) gossipReactor)))"
proof -
  obtain ds where "Mempool_GetChannels (\<lambda>b. b) gossipReactor = Inr ds"
    by (simp add: Mempool_GetChannels_def gossipReactor_def demoConfig_def Let_def)
  from channels_declared [OF this] this show ?thesis by simp
qed

text \<open>
  Start and stop: when the node starts, it has opened one listener per RPC address, then listened on its own address, started the
  reactors and dialled the configured peers, in this order; and stopping it stops the switch, closes the transport and closes exactly the
  listeners that were opened, each once.
\<close>

theorem start_stop:
  assumes "Node_OnStart (logServices bad terr serr derr) n [] = (n', acts, None)" "rpcListeners n = []"
  shows "\<exists>listens. acts = listens @ [Transport (node_ID n @ ''@'' @ P2P_ListenAddress (node_config n)), SwitchStart,
        Dial (splitAndTrimEmpty (PersistentPeers (node_config n)) '','' '' '')]
    \<and> isListening n' \<and> length (opened listens) = length (splitAndTrimEmpty (RPC_ListenAddress (node_config n)) '','' '' '')
    \<and> Node_OnStop (logServices bad terr serr derr) n' acts = acts @ [SwitchStop, TransportClose] @ map Close (opened acts)"
proof -
  let ?S = "logServices bad terr serr derr"
  have close: "foldl (\<lambda>s l. fst (closeListener ?S l s)) l0 ls = l0 @ map Close ls" for l0 ls
    by (induction ls arbitrary: l0) (simp_all add: logServices_def)
  obtain listens ls where l: "length (opened listens) = length (splitAndTrimEmpty (RPC_ListenAddress (node_config n)) '','' '' '')"
    "n' = n\<lparr>rpcListeners := opened listens, isListening := True\<rparr>"
    "acts = listens @ [Transport (node_ID n @ ''@'' @ P2P_ListenAddress (node_config n)), SwitchStart, Dial (splitAndTrimEmpty (PersistentPeers (node_config n)) '','' '' '')]"
  proof (cases "RPC_ListenAddress (node_config n) = []")
    case True
    then show ?thesis using assms that [of "[]"]
      by (auto simp: Node_OnStart_def logServices_def opened_def splitAndTrimEmpty_def Let_def split: option.splits)
  next
    case False
    then obtain listens ls where r: "startRPC ?S n [] = (listens, Inr ls)"
      using assms(1) by (auto simp: Node_OnStart_def Let_def split: prod.splits sum.splits)
    from startRPC_loop_log [OF this [unfolded startRPC_def]] have "ls = opened listens"
      "length (opened listens) = length (splitAndTrimEmpty (RPC_ListenAddress (node_config n)) '','' '' '')" by auto
    then show ?thesis using that [of listens] assms(1) False r
      by (auto simp: Node_OnStart_def logServices_def Let_def split: option.splits)
  qed
  have "opened acts = opened listens" by (simp add: l(3) opened_def)
  then show ?thesis using l close by (auto simp: Node_OnStop_def logServices_def)
qed

definition demoNet :: Node where
  "demoNet = \<lparr>node_config = \<lparr>Moniker = ''m'', RPC_ListenAddress = ''h:1, h:2'', P2P_ListenAddress = ''h:3'', ExternalAddress = [],
     PersistentPeers = ''p@h:4''\<rparr>, node_ID = ''me'', rpcListeners = [], isListening = False\<rparr>"

theorem start_stop_witness:
  "\<exists>n' acts. Node_OnStart (logServices (\<lambda>_. None) None None None) demoNet [] = (n', acts, None) \<and> opened acts = [0, 1]
     \<and> Node_OnStop (logServices (\<lambda>_. None) None None None) n' acts = acts @ [SwitchStop, TransportClose, Close 0, Close 1]"
proof -
  let ?S = "logServices (\<lambda>_. None) None None None"
  have e: "snd (snd (Node_OnStart ?S demoNet [])) = None" "opened (fst (snd (Node_OnStart ?S demoNet []))) = [0, 1]" by code_simp+
  obtain n' acts where r: "Node_OnStart ?S demoNet [] = (n', acts, None)" "opened acts = [0, 1]"
    using e by (cases "Node_OnStart ?S demoNet []") auto
  then show ?thesis using start_stop [OF r(1)] by (auto simp: demoNet_def)
qed

end
