(* ===== verification/MempoolSpec.thy ===== *)
theory MempoolSpec
  imports Mempool
begin

text \<open>
  What the mempool promises (the interface of mempool/mempool.go): a queue of transactions of which some are locked. The list mempool
  implements it, whatever sequence of operations runs on it; the mock of mempool/mock/mempool.go keeps the part of the contract that
  concerns reaping.
\<close>

section \<open>Specification\<close>

text \<open>
  The queue, the keys under which a transaction can be removed, and the locked keys. The second component is there because the program
  queues a transaction again when it comes again, and a removal then takes out the latest one only.
\<close>

record Pool =
  pool :: "Tx list"
  removable :: "bytes set"
  locked :: "bytes set"

datatype MemOp = OpCheck Tx "16 word" | OpUpdate LTime "Tx list" | OpLock "Tx list" | OpRelease "Tx list" | OpFlush

fun remove_last :: "('a \<Rightarrow> bool) \<Rightarrow> 'a list \<Rightarrow> 'a list" where
  "remove_last P [] = []"
| "remove_last P (x # xs) = (if P x \<and> \<not> list_ex P xs then xs else x # remove_last P xs)"

definition spec_check :: "(Tx \<Rightarrow> bytes) \<Rightarrow> MempoolConfig \<Rightarrow> Tx \<Rightarrow> Pool \<Rightarrow> Pool \<times> memErr option" where
  "spec_check key config tx p =
     (if int (length (pool p)) \<ge> sint (cfg_Size config) \<or> sint (CaputeSizeForTxs (pool p) + ComputeSize tx) > sint (cfg_MaxTxsBytes config)
      then (p, Some (ErrMempoolIsFull (of_nat (length (pool p))) (cfg_Size config) (CaputeSizeForTxs (pool p)) (cfg_MaxTxsBytes config)))
      else if sint (ComputeSize tx) > sint (cfg_MaxTxBytes config) then (p, Some (ErrTxTooLarge (cfg_MaxTxBytes config) (ComputeSize tx)))
      else (p\<lparr>pool := pool p @ [tx], removable := insert (key tx) (removable p)\<rparr>, None))"

definition spec_remove :: "(Tx \<Rightarrow> bytes) \<Rightarrow> Tx \<Rightarrow> Pool \<Rightarrow> Pool" where
  "spec_remove key tx p = (if key tx \<in> removable p
     then p\<lparr>pool := remove_last (\<lambda>t. key t = key tx) (pool p), removable := removable p - {key tx}\<rparr> else p)"

fun spec_op :: "(Tx \<Rightarrow> bytes) \<Rightarrow> MempoolConfig \<Rightarrow> MemOp \<Rightarrow> Pool \<Rightarrow> Pool \<times> memErr option" where
  "spec_op key config (OpCheck tx sender) p = spec_check key config tx p"
| "spec_op key config (OpUpdate slot txs) p = (fold (spec_remove key) txs p, None)"
| "spec_op key config (OpLock txs) p = (p\<lparr>locked := locked p \<union> key ` set txs\<rparr>, None)"
| "spec_op key config (OpRelease txs) p = (p\<lparr>locked := locked p - key ` set txs\<rparr>, None)"
| "spec_op key config OpFlush p = (p\<lparr>pool := [], removable := {}\<rparr>, None)"

text \<open>Packing takes from the front what is not locked, as long as it fits.\<close>

fun fitting :: "int64 \<Rightarrow> Tx list \<Rightarrow> Tx list \<Rightarrow> Tx list" where
  "fitting mx taken [] = taken"
| "fitting mx taken (tx # txs) =
     (if sint mx > -1 \<and> sint (CaputeSizeForTxs (taken @ [tx])) > sint mx then taken else fitting mx (taken @ [tx]) txs)"

definition spec_reap :: "(Tx \<Rightarrow> bytes) \<Rightarrow> int64 \<Rightarrow> Pool \<Rightarrow> Tx list" where
  "spec_reap key mx p = fitting mx [] (filter (\<lambda>tx. key tx \<notin> locked p) (pool p))"

section \<open>Implementation\<close>

fun mem_op :: "('s, 'g) Crypto \<Rightarrow> (bytes \<Rightarrow> bytes) \<Rightarrow> 'c CList \<Rightarrow> MemOp \<Rightarrow> 'c ListMempool \<Rightarrow> 'c ListMempool \<times> memErr option" where
  "mem_op e sha C (OpCheck tx sender) mem = CheckTx e sha C tx sender mem"
| "mem_op e sha C (OpUpdate slot txs) mem = (Mempool_Update e sha C slot txs mem, None)"
| "mem_op e sha C (OpLock txs) mem = (LockTxs e sha txs mem, None)"
| "mem_op e sha C (OpRelease txs) mem = (ReleaseTxs e sha txs mem, None)"
| "mem_op e sha C OpFlush mem = (Flush C mem, None)"

abbreviation queued :: "'c CList \<Rightarrow> 'c ListMempool \<Rightarrow> Tx list" where
  "queued C mem \<equiv> map (mt_tx \<circ> snd) (clItems C (mem_txs mem))"

definition pool_of :: "'c CList \<Rightarrow> 'c ListMempool \<Rightarrow> Pool" where
  "pool_of C mem = \<lparr>pool = queued C mem, removable = dom (txsMap mem), locked = dom (lockedTxsMap mem)\<rparr>"

fun op_txs :: "MemOp \<Rightarrow> Tx set" where
  "op_txs (OpCheck tx sender) = {tx}"
| "op_txs (OpUpdate slot txs) = set txs"
| "op_txs _ = {}"

text \<open>The table points to the latest element of a key.\<close>

definition latest :: "('s, 'g) Crypto \<Rightarrow> (bytes \<Rightarrow> bytes) \<Rightarrow> 'c CList \<Rightarrow> 'c ListMempool \<Rightarrow> bool" where
  "latest e sha C mem \<longleftrightarrow> (\<forall>k el. txsMap mem k = Some el \<longrightarrow>
     (\<exists>ys v zs. clItems C (mem_txs mem) = ys @ (el, v) # zs \<and> TxKey e sha (mt_tx v) = k \<and> (\<forall>z \<in> set zs. TxKey e sha (mt_tx (snd z)) \<noteq> k)))"

section \<open>Refinement\<close>

lemma remove_last_append:
  "P x \<Longrightarrow> \<not> list_ex P zs \<Longrightarrow> remove_last P (ys @ x # zs) = ys @ zs"
  by (induction ys) auto

text \<open>Taking out the element of the table is taking out the last transaction with its key.\<close>

lemma queued_removeTx:
  assumes C: "clist_laws C" and inv: "mem_invar e sha C mem" and l: "latest e sha C mem" and el: "txsMap mem (TxKey e sha tx) = Some el"
  shows "queued C (removeTx e sha C tx el mem) = remove_last (\<lambda>t. TxKey e sha t = TxKey e sha tx) (queued C mem)"
    and "latest e sha C (removeTx e sha C tx el mem)"
proof -
  let ?items = "clItems C (mem_txs mem)" and ?k = "TxKey e sha tx"
  have it: "clItems C (mem_txs (removeTx e sha C tx el mem)) = filter (\<lambda>x. fst x \<noteq> el) ?items"
    by (simp add: removeTx_def Let_def clist_lawsD(4) [OF C])
  obtain ys v zs where s: "?items = ys @ (el, v) # zs" "TxKey e sha (mt_tx v) = ?k" "\<forall>z \<in> set zs. TxKey e sha (mt_tx (snd z)) \<noteq> ?k"
    using l el unfolding latest_def by blast
  have "el \<notin> fst ` set ys" "el \<notin> fst ` set zs" using mem_invarD(1) [OF inv] s(1) by auto
  then have f: "filter (\<lambda>x. fst x \<noteq> el) ys = ys" "filter (\<lambda>x. fst x \<noteq> el) zs = zs" by (auto intro!: filter_True)
  then have "filter (\<lambda>x. fst x \<noteq> el) ?items = ys @ zs" using s(1) by simp
  then show "queued C (removeTx e sha C tx el mem) = remove_last (\<lambda>t. TxKey e sha t = ?k) (queued C mem)"
    using s it remove_last_append [of "\<lambda>t. TxKey e sha t = ?k" "mt_tx v" "map (mt_tx \<circ> snd) zs" "map (mt_tx \<circ> snd) ys"]
    by (auto simp: list_ex_iff)
  show "latest e sha C (removeTx e sha C tx el mem)"
    unfolding latest_def it
  proof (intro allI impI)
    fix k el' assume t: "txsMap (removeTx e sha C tx el mem) k = Some el'"
    then have k: "k \<noteq> ?k" "txsMap mem k = Some el'" by (auto simp: removeTx_def Let_def split: if_splits)
    obtain ys' v' zs' where s': "?items = ys' @ (el', v') # zs'" "TxKey e sha (mt_tx v') = k" "\<forall>z \<in> set zs'. TxKey e sha (mt_tx (snd z)) \<noteq> k"
      using l k(2) unfolding latest_def by blast
    have "(el, v) \<in> set ?items" unfolding s(1) by simp
    moreover have "(el', v') \<in> set ?items" unfolding s'(1) by simp
    ultimately have "el' \<noteq> el" using s(2) s'(2) k(1) mem_invarD(1) [OF inv] by (metis eq_key_imp_eq_value)
    then have "filter (\<lambda>x. fst x \<noteq> el) ?items = filter (\<lambda>x. fst x \<noteq> el) ys' @ (el', v') # filter (\<lambda>x. fst x \<noteq> el) zs'" using s'(1) by simp
    then show "\<exists>ys v zs. filter (\<lambda>x. fst x \<noteq> el) ?items = ys @ (el', v) # zs \<and> TxKey e sha (mt_tx v) = k \<and> (\<forall>z \<in> set zs. TxKey e sha (mt_tx (snd z)) \<noteq> k)"
      using s'(2,3) by fastforce
  qed
qed

lemma latest_addTx:
  assumes C: "clist_laws C" and l: "latest e sha C mem"
  shows "latest e sha C (addTx e sha C memTx from mem)"
    "pool_of C (addTx e sha C memTx from mem) = (pool_of C mem)\<lparr>pool := queued C mem @ [mt_tx memTx], removable := insert (TxKey e sha (mt_tx memTx)) (dom (txsMap mem))\<rparr>"
proof -
  obtain el l' where p: "clPushBack C memTx (mem_txs mem) = (el, l')" by (cases "clPushBack C memTx (mem_txs mem)")
  note new = clist_lawsD(2) [OF C p]
  show "latest e sha C (addTx e sha C memTx from mem)"
    unfolding latest_def
  proof (intro allI impI)
    fix k el' assume t: "txsMap (addTx e sha C memTx from mem) k = Some el'"
    have it: "clItems C (mem_txs (addTx e sha C memTx from mem)) = clItems C (mem_txs mem) @ [(el, memTx)]" using p new by (simp add: addTx_def Let_def)
    show "\<exists>ys v zs. clItems C (mem_txs (addTx e sha C memTx from mem)) = ys @ (el', v) # zs \<and> TxKey e sha (mt_tx v) = k
        \<and> (\<forall>z \<in> set zs. TxKey e sha (mt_tx (snd z)) \<noteq> k)"
    proof (cases "k = TxKey e sha (mt_tx memTx)")
      case True
      then have "el' = el" using t p by (simp add: addTx_def Let_def)
      then show ?thesis unfolding it using True by (intro exI [of _ "clItems C (mem_txs mem)"] exI [of _ memTx] exI [of _ "[]"]) simp
    next
      case False
      then have "txsMap mem k = Some el'" using t p by (simp add: addTx_def Let_def)
      then obtain ys v zs where "clItems C (mem_txs mem) = ys @ (el', v) # zs" "TxKey e sha (mt_tx v) = k" "\<forall>z \<in> set zs. TxKey e sha (mt_tx (snd z)) \<noteq> k"
        using l unfolding latest_def by blast
      then show ?thesis unfolding it using False by (intro exI [of _ ys] exI [of _ v] exI [of _ "zs @ [(el, memTx)]"]) auto
    qed
  qed
  show "pool_of C (addTx e sha C memTx from mem) = (pool_of C mem)\<lparr>pool := queued C mem @ [mt_tx memTx], removable := insert (TxKey e sha (mt_tx memTx)) (dom (txsMap mem))\<rparr>"
    using p new by (simp add: addTx_def pool_of_def Let_def)
qed

text \<open>What holds between two operations: the books of the mempool, room for all it holds, and transactions of known size only.\<close>

definition sim_invar :: "('s, 'g) Crypto \<Rightarrow> (bytes \<Rightarrow> bytes) \<Rightarrow> 'c CList \<Rightarrow> MempoolConfig \<Rightarrow> Tx set \<Rightarrow> 'c ListMempool \<Rightarrow> bool" where
  "sim_invar e sha C config U mem \<longleftrightarrow> mem_invar e sha C mem \<and> latest e sha C mem \<and> mem_config mem = config
     \<and> int (length (clItems C (mem_txs mem))) \<le> max 0 (sint (cfg_Size config)) \<and> set (queued C mem) \<subseteq> U"

lemma sim_sizes:
  assumes "sim_invar e sha C config U mem" "set txs \<subseteq> U" "\<And>t u. t \<in> U \<Longrightarrow> u \<in> U \<Longrightarrow> TxKey e sha t = TxKey e sha u \<Longrightarrow> ComputeSize t = ComputeSize u"
  shows "sizes_agree e sha C txs mem"
  unfolding sizes_agree_def
proof (intro ballI, clarify)
  fix tx el v assume tx: "tx \<in> set txs" and v: "(el, v) \<in> set (clItems C (mem_txs mem))" and k: "TxKey e sha (mt_tx v) = TxKey e sha tx"
  have "mt_tx v \<in> set (queued C mem)" using v by force
  then have "mt_tx v \<in> U" "tx \<in> U" using assms(1,2) tx unfolding sim_invar_def by blast+
  then show "ComputeSize (mt_tx v) = ComputeSize tx" using assms(3) k by blast
qed

lemma Mempool_Size_exact:
  assumes "sim_invar e sha C config U mem"
  shows "sint (Mempool_Size C mem) = int (length (clItems C (mem_txs mem)))"
proof -
  have "sint (cfg_Size config) < 2 ^ 63" using sint_lt [of "cfg_Size config"] by simp
  moreover have "int (length (clItems C (mem_txs mem))) \<le> max 0 (sint (cfg_Size config))" using assms by (simp add: sim_invar_def)
  ultimately have "int (length (clItems C (mem_txs mem))) < 2 ^ 63" by (auto simp: max_def split: if_splits)
  then have "sint (word_of_int (int (length (clItems C (mem_txs mem)))) :: int64) = int (length (clItems C (mem_txs mem)))"
    by (intro sint_word_of_int_64) simp_all
  then show ?thesis by (simp add: Mempool_Size_def)
qed

lemma sim_check:
  assumes C: "clist_laws C" and s: "sim_invar e sha C config U mem" and tx: "tx \<in> U"
  shows "(pool_of C (fst (CheckTx e sha C tx sender mem)), snd (CheckTx e sha C tx sender mem)) = spec_check (TxKey e sha) config tx (pool_of C mem)
    \<and> sim_invar e sha C config U (fst (CheckTx e sha C tx sender mem))"
proof -
  note inv = s [unfolded sim_invar_def, THEN conjunct1] and l = s [unfolded sim_invar_def, THEN conjunct2, THEN conjunct1]
  have cfg: "mem_config mem = config" and U: "set (queued C mem) \<subseteq> U"
    and room: "int (length (clItems C (mem_txs mem))) \<le> max 0 (sint (cfg_Size (mem_config mem)))" using s by (simp_all add: sim_invar_def)
  note add = latest_addTx [OF C l, of "\<lparr>mt_slot = mem_slot mem, mt_tx = tx\<rparr>" "{sender}"]
  have full: "isFull C mem (ComputeSize tx) = (if int (length (queued C mem)) \<ge> sint (cfg_Size config)
        \<or> sint (CaputeSizeForTxs (queued C mem) + ComputeSize tx) > sint (cfg_MaxTxsBytes config)
      then Some (ErrMempoolIsFull (of_nat (length (queued C mem))) (cfg_Size config) (CaputeSizeForTxs (queued C mem)) (cfg_MaxTxsBytes config)) else None)"
    unfolding isFull_def Let_def Mempool_Size_exact [OF s] cfg TxsBytes_def mem_invarD(2) [OF inv] by (simp add: Mempool_Size_def)
  have eq: "(pool_of C (fst (CheckTx e sha C tx sender mem)), snd (CheckTx e sha C tx sender mem)) = spec_check (TxKey e sha) config tx (pool_of C mem)"
    unfolding CheckTx_def Let_def full spec_check_def using add(2) cfg by (simp add: nop_Push_def pool_of_def)
  have "latest e sha C (fst (CheckTx e sha C tx sender mem))" unfolding CheckTx_def Let_def full using add(1) l by (simp add: nop_Push_def)
  moreover have "set (pool (pool_of C (fst (CheckTx e sha C tx sender mem)))) \<subseteq> U"
    using U tx unfolding arg_cong [OF eq, of "\<lambda>x. pool (fst x)", simplified] by (auto simp: spec_check_def pool_of_def)
  ultimately have "sim_invar e sha C config U (fst (CheckTx e sha C tx sender mem))"
    using mem_invar_CheckTx [OF C inv] room_CheckTx [OF C room] cfg by (simp add: sim_invar_def pool_of_def)
  with eq show ?thesis ..
qed

lemma set_remove_last: "set (remove_last P xs) \<subseteq> set xs"
  by (induction xs) auto

lemma sim_remove:
  assumes C: "clist_laws C"
  shows "mem_invar e sha C mem \<Longrightarrow> latest e sha C mem \<Longrightarrow> sizes_agree e sha C txs mem
    \<Longrightarrow> pool_of C (Update_loop e sha C txs mem) = fold (spec_remove (TxKey e sha)) txs (pool_of C mem) \<and> latest e sha C (Update_loop e sha C txs mem)
      \<and> set (queued C (Update_loop e sha C txs mem)) \<subseteq> set (queued C mem)"
proof (induction txs arbitrary: mem)
  case (Cons tx txs)
  show ?case
  proof (cases "txsMap mem (TxKey e sha tx)")
    case None
    then show ?thesis using Cons by (simp add: spec_remove_def pool_of_def domIff sizes_agree_def)
  next
    case (Some el)
    let ?m = "removeTx e sha C tx el mem"
    note q = queued_removeTx [OF C Cons.prems(1,2) Some]
    have p: "pool_of C ?m = spec_remove (TxKey e sha) tx (pool_of C mem)"
      using q(1) Some by (auto simp: pool_of_def spec_remove_def domIff removeTx_def Let_def)
    have "mem_invar e sha C (Update_loop e sha C [tx] mem)"
      using mem_invar_Update_loop [OF C Cons.prems(1), of "[tx]"] Cons.prems(3) by (simp add: sizes_agree_def)
    then have "mem_invar e sha C ?m" using Some by simp
    moreover have "sizes_agree e sha C txs ?m"
      using Cons.prems(3) by (auto simp: sizes_agree_def removeTx_def Let_def clist_lawsD(4) [OF C])
    ultimately have ih: "pool_of C (Update_loop e sha C txs ?m) = fold (spec_remove (TxKey e sha)) txs (pool_of C ?m)"
      "latest e sha C (Update_loop e sha C txs ?m)" "set (queued C (Update_loop e sha C txs ?m)) \<subseteq> set (queued C ?m)"
      using Cons.IH [of ?m] q(2) by blast+
    have "set (queued C ?m) \<subseteq> set (queued C mem)" unfolding q(1) by (rule set_remove_last)
    with ih(3) have "set (queued C (Update_loop e sha C txs ?m)) \<subseteq> set (queued C mem)" by (rule subset_trans)
    then show ?thesis using ih(1,2) p Some by simp
  qed
qed simp

definition same_sizes :: "('s, 'g) Crypto \<Rightarrow> (bytes \<Rightarrow> bytes) \<Rightarrow> Tx set \<Rightarrow> bool" where
  "same_sizes e sha U \<longleftrightarrow> (\<forall>t \<in> U. \<forall>u \<in> U. TxKey e sha t = TxKey e sha u \<longrightarrow> ComputeSize t = ComputeSize u)"

lemma sim_update:
  assumes C: "clist_laws C" and U: "same_sizes e sha U" and s: "sim_invar e sha C config U mem" and txs: "set txs \<subseteq> U"
  shows "pool_of C (Mempool_Update e sha C slot txs mem) = fold (spec_remove (TxKey e sha)) txs (pool_of C mem)
    \<and> sim_invar e sha C config U (Mempool_Update e sha C slot txs mem)"
proof -
  have ag: "sizes_agree e sha C txs mem" using sim_sizes [OF s txs] U unfolding same_sizes_def by blast
  have inv: "mem_invar e sha C mem" "latest e sha C mem" using s by (simp_all add: sim_invar_def)
  note r = sim_remove [OF C inv ag]
  have frame: "pool_of C (Mempool_Update e sha C slot txs mem) = pool_of C (Update_loop e sha C txs mem)"
    "sim_invar e sha C config U (Mempool_Update e sha C slot txs mem) = sim_invar e sha C config U (Update_loop e sha C txs mem)"
    by (simp_all add: Mempool_Update_def pool_of_def sim_invar_def mem_invar_frame latest_def)
  show ?thesis unfolding frame
    using r mem_invar_Update_loop [OF C inv(1) ag] length_Update_loop [OF C, of e sha txs mem] s by (auto simp: sim_invar_def)
qed

lemma dom_lock: "dom (foldl (\<lambda>m tx. m(f tx \<mapsto> ())) m txs) = dom m \<union> f ` set txs"
  by (induction txs arbitrary: m) auto

lemma dom_release: "dom (foldl (\<lambda>m tx. m(f tx := None)) m txs) = dom m - f ` set txs"
  by (induction txs arbitrary: m) auto

lemma pool_of_LockTxs:
  "pool_of C (LockTxs e sha txs mem) = (pool_of C mem)\<lparr>locked := locked (pool_of C mem) \<union> TxKey e sha ` set txs\<rparr>"
  "sim_invar e sha C config U (LockTxs e sha txs mem) = sim_invar e sha C config U mem"
  by (simp_all add: pool_of_def LockTxs_def dom_lock sim_invar_def mem_invar_frame latest_def)

lemma pool_of_ReleaseTxs:
  "pool_of C (ReleaseTxs e sha txs mem) = (pool_of C mem)\<lparr>locked := locked (pool_of C mem) - TxKey e sha ` set txs\<rparr>"
  "sim_invar e sha C config U (ReleaseTxs e sha txs mem) = sim_invar e sha C config U mem"
  by (simp_all add: pool_of_def ReleaseTxs_def dom_release sim_invar_def mem_invar_frame latest_def)

lemma sim_flush:
  assumes "clist_laws C" "sim_invar e sha C config U mem"
  shows "pool_of C (Flush C mem) = (pool_of C mem)\<lparr>pool := [], removable := {}\<rparr> \<and> sim_invar e sha C config U (Flush C mem)"
proof
  show "pool_of C (Flush C mem) = (pool_of C mem)\<lparr>pool := [], removable := {}\<rparr>"
    using Flush_empty [OF assms(1), of mem] by (simp add: pool_of_def) (simp add: Flush_def)
  have "txsMap (Flush C mem) = Map.empty" "mem_config (Flush C mem) = mem_config mem" by (simp_all add: Flush_def)
  then show "sim_invar e sha C config U (Flush C mem)"
    using assms(2) mem_invar_Flush [OF assms(1), of e sha mem] Flush_empty [OF assms(1), of mem] by (simp add: sim_invar_def latest_def)
qed

interpretation pool_sim: simulation "mem_op e sha C" "spec_op (TxKey e sha) config" "pool_of C"
  "\<lambda>mem. clist_laws C \<and> same_sizes e sha U \<and> sim_invar e sha C config U mem" "\<lambda>o'. op_txs o' \<subseteq> U" for e sha C config U
proof
  fix o' mem mem' r
  assume asm: "clist_laws C \<and> same_sizes e sha U \<and> sim_invar e sha C config U mem" "op_txs o' \<subseteq> U" "mem_op e sha C o' mem = (mem', r)"
  then show "(clist_laws C \<and> same_sizes e sha U \<and> sim_invar e sha C config U mem') \<and> spec_op (TxKey e sha) config o' (pool_of C mem) = (pool_of C mem', r)"
  proof (cases o')
    case (OpCheck tx sender)
    then show ?thesis using asm sim_check [of C e sha config U mem tx sender] by auto
  next
    case (OpUpdate slot txs)
    then show ?thesis using asm sim_update [of C e sha U config mem txs slot] by auto
  next
    case (OpLock txs)
    then show ?thesis using asm by (auto simp: pool_of_LockTxs)
  next
    case (OpRelease txs)
    then show ?thesis using asm by (auto simp: pool_of_ReleaseTxs)
  next
    case OpFlush
    then show ?thesis using asm sim_flush [of C e sha config U mem] by auto
  qed
qed

lemma ReapTxs_loop_fitting:
  "ReapTxs_loop e sha lk mx ms txs = fitting mx txs (filter (\<lambda>tx. lk (TxKey e sha tx) = None) (map mt_tx ms))"
  by (induction ms arbitrary: txs) (auto simp: Let_def)

lemma ReapTxs_spec_reap: "ReapTxs e sha C mx mem = spec_reap (TxKey e sha) mx (pool_of C mem)"
  unfolding ReapTxs_def ReapTxs_loop_fitting spec_reap_def pool_of_def
  by (simp add: comp_def domIff del: not_None_eq)

lemma sim_start: "clist_laws C \<Longrightarrow> sim_invar e sha C config U (NewListMempool C config)"
  using mem_invar_New [of C e sha config] by (simp add: sim_invar_def NewListMempool_def latest_def clist_lawsD)

definition emptyPool :: Pool where
  "emptyPool = \<lparr>pool = [], removable = {}, locked = {}\<rparr>"


definition demoOps :: "MemOp list" where
  "demoOps = [OpCheck (demoPay ''a'') 1, OpCheck (demoPay ''a'') 2, OpCheck (demoPay ''b'') 1, OpUpdate 3 [demoPay ''a''], OpLock [demoPay ''b'']]"


section \<open>Reaping and locking\<close>

text \<open>
  The contract a proposer relies on: packing respects the limit, nothing locked is packed, and what is locked stays locked. A proposer that
  locks what it packed then never packs a transaction twice.
\<close>

fun proposals :: "(int64 \<Rightarrow> 'm \<Rightarrow> Tx list) \<Rightarrow> (Tx list \<Rightarrow> 'm \<Rightarrow> 'm) \<Rightarrow> int64 list \<Rightarrow> 'm \<Rightarrow> Tx list list" where
  "proposals reap lock [] m = []"
| "proposals reap lock (mx # mxs) m = (let txs = reap mx m in txs # proposals reap lock mxs (lock txs m))"

locale reaping =
  fixes reap :: "int64 \<Rightarrow> 'm \<Rightarrow> Tx list" and lock :: "Tx list \<Rightarrow> 'm \<Rightarrow> 'm" and is_locked :: "'m \<Rightarrow> Tx \<Rightarrow> bool"
  assumes limit: "0 \<le> sint mx \<Longrightarrow> sint (CaputeSizeForTxs (reap mx m)) \<le> sint mx"
    and unlocked_only: "tx \<in> set (reap mx m) \<Longrightarrow> \<not> is_locked m tx"
    and locks: "tx \<in> set txs \<Longrightarrow> is_locked (lock txs m) tx"
    and stays: "is_locked m tx \<Longrightarrow> is_locked (lock txs m) tx"
begin

lemma not_again: "is_locked m tx \<Longrightarrow> txs \<in> set (proposals reap lock mxs m) \<Longrightarrow> tx \<notin> set txs"
  by (induction mxs arbitrary: m) (auto simp: Let_def dest: unlocked_only stays)

lemma once: "i < j \<Longrightarrow> j < length mxs \<Longrightarrow> set (proposals reap lock mxs m ! i) \<inter> set (proposals reap lock mxs m ! j) = {}"
proof (induction mxs arbitrary: m i j)
  case (Cons mx mxs)
  have len: "length (proposals reap lock mxs m) = length mxs" for m by (induction mxs arbitrary: m) (simp_all add: Let_def)
  obtain j' where j: "j = Suc j'" using Cons.prems(1) by (cases j) auto
  show ?case
  proof (cases i)
    case 0
    have "proposals reap lock mxs (lock (reap mx m) m) ! j' \<in> set (proposals reap lock mxs (lock (reap mx m) m))" using Cons.prems(2) j len by simp
    then show ?thesis using not_again [OF locks] 0 j by (auto simp: Let_def)
  next
    case (Suc i')
    then show ?thesis using Cons j by (simp add: Let_def)
  qed
qed simp

end

lemma set_ReapTxs:
  assumes "tx \<in> set (ReapTxs e sha C mx mem)"
  shows "lockedTxsMap mem (TxKey e sha tx) = None"
proof -
  obtain k where "ReapTxs e sha C mx mem = take k (unlocked e sha C mem)" using ReapTxs_spec by blast
  then show ?thesis using assms by (auto simp: unlocked_def dest: in_set_takeD)
qed

interpretation list_reap: reaping "ReapTxs e sha C" "LockTxs e sha" "\<lambda>mem tx. lockedTxsMap mem (TxKey e sha tx) \<noteq> None" for e sha C
proof
  show "sint (CaputeSizeForTxs (ReapTxs e sha C mx mem)) \<le> sint mx" if "0 \<le> sint mx" for mx mem
    using ReapTxs_spec [of e sha C mx mem] that by auto
qed (auto simp: LockTxs_def foldl_lock dest: set_ReapTxs)

subsection \<open>The mock\<close>

text \<open>The mock mempool has no state; releasing is not implemented.\<close>

definition mock_Size :: "unit \<Rightarrow> int64" where
  "mock_Size m = 0"

definition mock_TxsBytes :: "unit \<Rightarrow> int64" where
  "mock_TxsBytes m = 0"

definition mock_CheckTx :: "Tx \<Rightarrow> 16 word \<Rightarrow> unit \<Rightarrow> unit \<times> memErr option" where
  "mock_CheckTx tx sender m = (m, None)"

definition mock_ReapTxs :: "int64 \<Rightarrow> unit \<Rightarrow> Tx list" where
  "mock_ReapTxs mx m = []"

definition mock_ReapMaxTxs :: "int64 \<Rightarrow> unit \<Rightarrow> Tx list" where
  "mock_ReapMaxTxs mx m = []"

definition mock_Update :: "LTime \<Rightarrow> Tx list \<Rightarrow> unit \<Rightarrow> unit" where
  "mock_Update slot txs m = m"

definition mock_LockTxs :: "Tx list \<Rightarrow> unit \<Rightarrow> unit" where
  "mock_LockTxs txs m = m"

definition mock_Flush :: "unit \<Rightarrow> unit" where
  "mock_Flush m = m"

definition mock_ReleaseTxs :: "Tx list \<Rightarrow> unit \<Rightarrow> unit res" where
  "mock_ReleaseTxs txs m = Inl (Panic ''implement me'')"

interpretation mock: reaping mock_ReapTxs mock_LockTxs "\<lambda>m tx. True"
  by unfold_locales (simp_all add: mock_ReapTxs_def CaputeSizeForTxs_def)

text \<open>A proposer that locks what it packs never packs the same transaction twice, however the limits are chosen.\<close>

theorem packed_once:
  assumes "i < j" "j < length limits"
  shows "set (proposals (ReapTxs e sha C) (LockTxs e sha) limits mem ! i) \<inter> set (proposals (ReapTxs e sha C) (LockTxs e sha) limits mem ! j) = {}"
  using assms by (rule list_reap.once)

end
