(* ===== verification/Bench.thy ===== *)
theory Bench
  imports RpcHandlers SlotClocks
begin

text \<open>
  The benchmark client tools/tm-bench: the transactions it generates and sends to a node, the burst of one second, the count of broken
  connections and the statistics it prints.
\<close>

section \<open>Model\<close>

text \<open>
  \<open>generateTx\<close> with its random draws as arguments. The loop that should find a second user starts with the first one and is never entered.
\<close>

definition bench_user :: "int64 \<Rightarrow> string" where
  "bench_user k = ''username'' @ Itoa (k + 1)"

definition bench_generateTx :: "nat \<Rightarrow> int64 \<Rightarrow> int64 \<Rightarrow> Tx" where
  "bench_generateTx kind user v =
     (if kind = 0 then NewTx\<lparr>TxType := SBTransactionSavingTx, Args := [bench_user user, Itoa v]\<rparr>
      else if kind = 1 then NewTx\<lparr>TxType := SBWriteCheckingTx, Args := [bench_user user, Itoa v]\<rparr>
      else if kind = 2 then NewTx\<lparr>TxType := SBAmalgamateTx, Args := [bench_user user, bench_user user]\<rparr>
      else if kind = 3 then NewTx\<lparr>TxType := SBDepositCheckingTx, Args := [bench_user user, Itoa v]\<rparr>
      else NewTx)"

text \<open>
  The burst of one second in \<open>sendLoop\<close>: \<open>gen i\<close> is the transaction of round \<open>i\<close>, \<open>writeOK i\<close> whether it could be written, \<open>late i\<close>
  whether the clock read in round \<open>i\<close> is past the end of the second. The result is what was written, the number that
  is reported (none when the connection broke). The rate is not negative.
\<close>

fun burst_loop :: "(nat \<Rightarrow> Tx) \<Rightarrow> (Tx \<Rightarrow> bytes) \<Rightarrow> (nat \<Rightarrow> bool) \<Rightarrow> (nat \<Rightarrow> bool) \<Rightarrow> nat \<Rightarrow> nat list \<Rightarrow> bytes list \<Rightarrow> bytes list \<times> nat option" where
  "burst_loop gen marshal writeOK late rate [] out = (out, Some rate)"
| "burst_loop gen marshal writeOK late rate (i # is) out =
     (let txHex = hexEncode (marshal (gen i)) in
      if \<not> writeOK i then (out, None)
      else if i mod 5 = 0 \<and> late i then (out @ [txHex], Some (i + 1))
      else burst_loop gen marshal writeOK late rate is (out @ [txHex]))"

definition burst :: "(nat \<Rightarrow> Tx) \<Rightarrow> (Tx \<Rightarrow> bytes) \<Rightarrow> (nat \<Rightarrow> bool) \<Rightarrow> (nat \<Rightarrow> bool) \<Rightarrow> nat \<Rightarrow> bytes list \<times> nat option" where
  "burst gen marshal writeOK late rate = burst_loop gen marshal writeOK late rate [0..<rate] []"

fun countCrashes :: "bool list \<Rightarrow> nat" where
  "countCrashes [] = 0"
| "countCrashes (c # cs) = (if c then Suc (countCrashes cs) else countCrashes cs)"

text \<open>\<open>getBlockMetas\<close>: the request to the node is commented out, so the information is empty. Block metas are their times.\<close>

fun getBlockMetas_loop :: "Time list \<Rightarrow> int64 \<Rightarrow> nat \<Rightarrow> Time list \<Rightarrow> Time list res" where
  "getBlockMetas_loop infoMetas diff 0 blockMetas = Inl NoFuel"
| "getBlockMetas_loop infoMetas diff (Suc fuel) blockMetas =
     (if int (length blockMetas) < sint diff then getBlockMetas_loop infoMetas diff fuel (blockMetas @ infoMetas) else Inr blockMetas)"

definition getBlockMetas :: "nat \<Rightarrow> int64 \<Rightarrow> Time list res" where
  "getBlockMetas fuel minHeight =
     (let infoMetas = []; lastHeight = 0; diff = lastHeight - minHeight
      in getBlockMetas_loop infoMetas diff fuel infoMetas)"

text \<open>\<open>math.Round\<close> rounds half away from zero; seconds are exact rational numbers.\<close>

definition mathRound :: "rat \<Rightarrow> int" where
  "mathRound r = (if r < 0 then - \<lfloor>- r + 1 / 2\<rfloor> else \<lfloor>r + 1 / 2\<rfloor>)"

definition secondsSinceTimeStart :: "Time \<Rightarrow> Time \<Rightarrow> int64" where
  "secondsSinceTimeStart timeStart timePassed = word_of_int (mathRound (of_int (timePassed - timeStart) / of_int Second))"

fun countBlocks :: "Time \<Rightarrow> Time \<Rightarrow> Time list \<Rightarrow> (int64 \<Rightarrow> int64) \<Rightarrow> (int64 \<Rightarrow> int64) \<Rightarrow> (int64 \<Rightarrow> int64) \<times> (int64 \<Rightarrow> int64)" where
  "countBlocks timeStart timeEnd [] numBlocks numTxs = (numBlocks, numTxs)"
| "countBlocks timeStart timeEnd (t # ts) numBlocks numTxs =
     (if t < timeStart then (numBlocks, numTxs)
      else if t > timeEnd then countBlocks timeStart timeEnd ts numBlocks numTxs
      else let sec = secondsSinceTimeStart timeStart t
           in countBlocks timeStart timeEnd ts (numBlocks(sec := numBlocks sec + 1)) (numTxs(sec := 0)))"

text \<open>
  \<open>calculateStatistics\<close>: the values with which the two histograms are updated, in order. A key that is absent from a map reads as 0, as the
  initialised ones do.
\<close>

record statistics =
  TxsThroughput :: "int64 list"
  BlocksThroughput :: "int64 list"

definition calculateStatistics :: "nat \<Rightarrow> int64 \<Rightarrow> Time \<Rightarrow> nat \<Rightarrow> statistics res" where
  "calculateStatistics fuel minHeight timeStart duration =
     (let timeEnd = timeStart + int duration * Second in
      rbind (getBlockMetas fuel minHeight) (\<lambda>blockMetas.
      let (numBlocksPerSec, numTxsPerSec) = countBlocks timeStart timeEnd blockMetas (\<lambda>_. 0) (\<lambda>_. 0)
      in Inr \<lparr>TxsThroughput = map (\<lambda>i. numTxsPerSec (of_nat i)) [0..<duration],
              BlocksThroughput = map (\<lambda>i. numBlocksPerSec (of_nat i)) [0..<duration]\<rparr>))"

section \<open>A burst\<close>

lemma burst_loop_writes:
  "burst_loop gen marshal writeOK late rate is out = (out', n) \<Longrightarrow> \<exists>k \<le> length is. out' = out @ map (\<lambda>i. hexEncode (marshal (gen i))) (take k is)"
proof (induction "is" arbitrary: out)
  case (Cons i "is")
  show ?case
  proof (cases "\<not> writeOK i \<or> i mod 5 = 0 \<and> late i")
    case True
    then show ?thesis using Cons.prems by (cases "writeOK i") (force simp: Let_def intro: exI [of _ 0] exI [of _ "Suc 0"])+
  next
    case False
    then obtain k where "k \<le> length is" "out' = (out @ [hexEncode (marshal (gen i))]) @ map (\<lambda>i. hexEncode (marshal (gen i))) (take k is)"
      using Cons.IH [of "out @ [hexEncode (marshal (gen i))]"] Cons.prems by (auto simp: Let_def)
    then show ?thesis by (intro exI [of _ "Suc k"]) simp
  qed
qed simp

lemma burst_loop_count:
  "burst_loop gen marshal writeOK late rate [j..<rate] out = (out', Some n) \<Longrightarrow> length out = j \<Longrightarrow> j \<le> rate \<Longrightarrow> length out' = n \<and> n \<le> rate"
proof (induction "rate - j" arbitrary: j out)
  case (Suc d)
  then have j: "j < rate" "[j..<rate] = j # [Suc j..<rate]" by (simp_all add: upt_conv_Cons)
  show ?case
  proof (cases "writeOK j \<and> \<not> (j mod 5 = 0 \<and> late j)")
    case True
    then show ?thesis using Suc.hyps(1) [of "Suc j" "out @ [hexEncode (marshal (gen j))]"] Suc.hyps(2) Suc.prems j by (auto simp: Let_def)
  next
    case False
    then show ?thesis using Suc.prems j by (auto simp: Let_def split: if_splits)
  qed
qed simp

text \<open>The count that is reported is the number of transactions written.\<close>

lemma burst_count:
  assumes "burst gen marshal writeOK late rate = (out, Some n)"
  shows "length out = n \<and> n \<le> rate"
  using burst_loop_count [of gen marshal writeOK late rate 0 "[]" out n] assms by (simp add: burst_def)

lemma countCrashes_filter: "countCrashes cs = length (filter (\<lambda>c. c) cs)"
  by (induction cs) simp_all

section \<open>At the node\<close>

text \<open>A node that receives requests one after the other, with its answers.\<close>

fun receiveAll :: "('s, 'g) Crypto \<Rightarrow> (bytes \<Rightarrow> bytes) \<Rightarrow> 'c CList \<Rightarrow> (bytes \<Rightarrow> Tx \<Rightarrow> Tx \<times> string option)
    \<Rightarrow> bytes list \<Rightarrow> 'c ListMempool \<Rightarrow> 'c ListMempool \<times> bool list" where
  "receiveAll e sha C unmarshal [] mem = (mem, [])"
| "receiveAll e sha C unmarshal (x # xs) mem =
     (let (mem1, r) = BroadcastTxAsync e sha C unmarshal x mem;
          (mem2, rs) = receiveAll e sha C unmarshal xs mem1
      in (mem2, (\<not> isl r) # rs))"

lemma receiveAll_queue:
  assumes "clist_laws C"
  shows "\<forall>tx \<in> set txs. unmarshal (marshal tx) NewTx = (tx, None) \<Longrightarrow> receiveAll e sha C unmarshal (map (\<lambda>tx. hexEncode (marshal tx)) txs) mem = (mem', oks) \<Longrightarrow>
    length oks = length txs \<and> queuedTxs C mem' = queuedTxs C mem @ map fst (filter snd (zip txs oks))"
proof (induction txs arbitrary: mem oks)
  case (Cons tx txs)
  have u: "fst (unmarshal (fst (hexDecode (hexEncode (marshal tx)))) NewTx) = tx" using Cons.prems(1) by simp
  obtain mem1 r where r: "BroadcastTxAsync e sha C unmarshal (hexEncode (marshal tx)) mem = (mem1, r)"
    "queuedTxs C mem1 = queuedTxs C mem @ (if isl r then [] else [tx])"
    by (rule BroadcastTxAsync_checks [of C unmarshal "hexEncode (marshal tx)" tx e sha mem, OF assms u]) auto
  obtain rs where "receiveAll e sha C unmarshal (map (\<lambda>tx. hexEncode (marshal tx)) txs) mem1 = (mem', rs)" "oks = (\<not> isl r) # rs"
    using Cons.prems(2) r(1) by (auto split: prod.splits)
  with Cons.IH Cons.prems(1) r(2) show ?case by auto
qed simp

section \<open>Properties\<close>

text \<open>
  (C33) What the benchmark sends is what the node queues: of the transactions generated for a second, the first ones are written, as many as the client
  reports; and the node queues, in their order, exactly those of them for which it answers with a hash.
\<close>

theorem bench_txs_arrive:
  assumes "clist_laws C" "\<forall>i < rate. unmarshal (marshal (gen i)) NewTx = (gen i, None)"
    and "burst gen marshal writeOK late rate = (out, Some n)" "receiveAll e sha C unmarshal out mem = (mem', oks)"
  shows "n \<le> rate \<and> length oks = n
    \<and> queuedTxs C mem' = queuedTxs C mem @ map fst (filter snd (zip (map gen [0..<n]) oks))"
proof -
  note cnt = burst_count [OF assms(3)]
  obtain k where k: "k \<le> rate" "out = map (\<lambda>i. hexEncode (marshal (gen i))) (take k [0..<rate])"
    using burst_loop_writes [of gen marshal writeOK late rate "[0..<rate]" "[]" out] assms(3) by (auto simp: burst_def)
  then have "k = n" using cnt by simp
  then have "out = map (\<lambda>tx. hexEncode (marshal tx)) (map gen [0..<n])" using k by (simp add: take_upt)
  with assms(4) have "receiveAll e sha C unmarshal (map (\<lambda>tx. hexEncode (marshal tx)) (map gen [0..<n])) mem = (mem', oks)" by simp
  moreover have "\<forall>tx \<in> set (map gen [0..<n]). unmarshal (marshal tx) NewTx = (tx, None)" using assms(2) cnt by auto
  ultimately have "length oks = n \<and> queuedTxs C mem' = queuedTxs C mem @ map fst (filter snd (zip (map gen [0..<n]) oks))"
    using receiveAll_queue [OF assms(1), of "map gen [0..<n]" unmarshal marshal e sha mem mem' oks] by simp
  then show ?thesis using cnt by blast
qed

theorem bench_txs_arrive_witness:
  "\<exists>mem' oks. receiveAll plainCrypto (\<lambda>b. b) listCL (\<lambda>b t. (bench_generateTx 3 0 5, None))
       (fst (burst (\<lambda>i. bench_generateTx 3 0 5) (\<lambda>tx. ''{}'') (\<lambda>_. True) (\<lambda>i. True) 7)) roomyMem = (mem', oks) \<and> length oks = 1
     \<and> queuedTxs listCL mem' = queuedTxs listCL roomyMem @ map fst (filter snd (zip [bench_generateTx 3 0 5] oks))"
proof -
  let ?tx = "bench_generateTx 3 0 5" and ?un = "\<lambda>b t. (bench_generateTx 3 0 5, None :: string option)"
  have b: "burst (\<lambda>i. ?tx) (\<lambda>tx. ''{}'') (\<lambda>_. True) (\<lambda>i. True) 7 = ([hexEncode ''{}''], Some 1)"
    by (simp add: burst_def upt_conv_Cons)
  obtain mem' oks where r: "receiveAll plainCrypto (\<lambda>b. b) listCL ?un [hexEncode ''{}''] roomyMem = (mem', oks)"
    by (cases "receiveAll plainCrypto (\<lambda>b. b) listCL ?un [hexEncode ''{}''] roomyMem")
  from bench_txs_arrive [OF listCL_laws _ b r] show ?thesis using r b by simp
qed

text \<open>
  The benchmark reports nothing: as the request for the blocks is commented out, the statistics of every run are zero in each second,
  whatever the node did; and for a negative height the collection of the blocks never ends.
\<close>

theorem bench_reports_zero:
  "(0 \<le> sint minHeight \<longrightarrow> calculateStatistics (Suc fuel) minHeight timeStart duration =
      Inr \<lparr>TxsThroughput = replicate duration 0, BlocksThroughput = replicate duration 0\<rparr>)
   \<and> (sint minHeight < 0 \<and> sint minHeight \<noteq> - (2 ^ 63) \<longrightarrow> calculateStatistics fuel minHeight timeStart duration = Inl NoFuel)"
proof -
  have diff: "sint (0 - minHeight) = - sint minHeight" if "sint minHeight \<noteq> - (2 ^ 63)"
    using that sint_ge [of minHeight] sint_lt [of minHeight] by (simp add: sint_word_ariths signed_take_bit_int_eq_self)
  have loop: "0 < sint d \<Longrightarrow> getBlockMetas_loop [] d f [] = Inl NoFuel" for d f by (induction f) simp_all
  have zero: "map (\<lambda>i. 0) [0..<duration] = replicate duration (0 :: int64)" by (simp add: map_replicate_const)
  have "0 \<le> sint minHeight \<Longrightarrow> getBlockMetas (Suc fuel) minHeight = Inr []" using diff by (simp add: getBlockMetas_def)
  moreover have "sint minHeight < 0 \<Longrightarrow> sint minHeight \<noteq> - (2 ^ 63) \<Longrightarrow> getBlockMetas fuel minHeight = Inl NoFuel"
    using diff loop [of "0 - minHeight" fuel] by (simp add: getBlockMetas_def)
  ultimately show ?thesis using zero by (auto simp: calculateStatistics_def Let_def)
qed

theorem bench_reports_zero_witness:
  "calculateStatistics 1 1 0 10 = Inr \<lparr>TxsThroughput = replicate 10 0, BlocksThroughput = replicate 10 0\<rparr>"
  using bench_reports_zero [of 1 0 0 10] by simp

end
