(* ===== verification/BenchLoops.thy ===== *)
theory BenchLoops
  imports Bench
begin

text \<open>
  The goroutines of the benchmark client (tools/tm-bench/transacter.go and main.go): every connection has a loop that sends and a loop that
  receives; two wait groups let the main goroutine wait until all have started and until all have ended. The web socket is a library: what a
  write or a read gives is an argument.
\<close>

section \<open>Model\<close>

record Conn =
  c_open :: bool
  c_started :: bool
  c_sending :: bool
  c_receiving :: bool
  c_broken :: bool

record transacter =
  Target :: string
  Rate :: int64
  Connections :: int64
  BroadcastTxMethod :: string
  bench_Accounts :: int64
  conns :: "Conn list"
  startingWg :: int
  endingWg :: int
  bench_stopped :: bool

definition newTransacter :: "string \<Rightarrow> int64 \<Rightarrow> int64 \<Rightarrow> int64 \<Rightarrow> string \<Rightarrow> transacter res" where
  "newTransacter target connections rate accounts broadcastTxMethod =
     (if sint connections < 0 then Inl (Panic ''makeslice: len out of range'')
      else Inr \<lparr>Target = target, Rate = rate, Connections = connections, BroadcastTxMethod = broadcastTxMethod, bench_Accounts = accounts,
         conns = replicate (nat (sint connections)) \<lparr>c_open = False, c_started = False, c_sending = False, c_receiving = False, c_broken = False\<rparr>,
         startingWg = 0, endingWg = 0, bench_stopped = False\<rparr>)"

definition updConn :: "nat \<Rightarrow> (Conn \<Rightarrow> Conn) \<Rightarrow> transacter \<Rightarrow> transacter" where
  "updConn i f t = t\<lparr>conns := (conns t)[i := f (conns t ! i)]\<rparr>"

text \<open>\<open>Done\<close> of a wait group panics below zero.\<close>

definition wg_Done :: "int \<Rightarrow> int res" where
  "wg_Done n = (if n \<le> 0 then Inl (Panic ''sync: negative WaitGroup counter'') else Inr (n - 1))"

text \<open>\<open>Start\<close>: the connections are opened one by one, the first error is returned; then the loops start.\<close>

fun connect_loop :: "(nat \<Rightarrow> string option) \<Rightarrow> nat list \<Rightarrow> transacter \<Rightarrow> transacter \<times> string option" where
  "connect_loop connect [] t = (t, None)"
| "connect_loop connect (i # is) t = (case connect i of
      Some err \<Rightarrow> (t, Some err)
    | None \<Rightarrow> connect_loop connect is (updConn i (\<lambda>c. c\<lparr>c_open := True\<rparr>) t))"

definition transacter_Start :: "(nat \<Rightarrow> string option) \<Rightarrow> transacter \<Rightarrow> transacter \<times> string option" where
  "transacter_Start connect t =
     (case connect_loop connect [0..<nat (sint (Connections t))] (t\<lparr>bench_stopped := False\<rparr>) of
        (t1, Some err) \<Rightarrow> (t1, Some err)
      | (t1, None) \<Rightarrow> (t1\<lparr>startingWg := startingWg t1 + sint (Connections t), endingWg := endingWg t1 + 2 * sint (Connections t),
            conns := map (\<lambda>c. c\<lparr>c_sending := True, c_receiving := True\<rparr>) (conns t1)\<rparr>, None))"

text \<open>What happens to a loop that sends: a tick of one of its two timers, with the outcome of the writes.\<close>

datatype SendEvent = TxTick bool | PingTick bool

text \<open>The two deferred functions of the loop that sends; they run in reverse order when it returns.\<close>

definition sendLoop_unstarted :: "nat \<Rightarrow> transacter \<Rightarrow> transacter res" where
  "sendLoop_unstarted i t =
     (if c_started (conns t ! i) then Inr t else rbind (wg_Done (startingWg t)) (\<lambda>s. Inr (t\<lparr>startingWg := s\<rparr>)))"

definition sendLoop_ended :: "transacter \<Rightarrow> transacter res" where
  "sendLoop_ended t = rbind (wg_Done (endingWg t)) (\<lambda>e. Inr (t\<lparr>endingWg := e\<rparr>))"

definition sendLoop_exit :: "nat \<Rightarrow> transacter \<Rightarrow> transacter res" where
  "sendLoop_exit i t =
     rbind (sendLoop_ended t) (\<lambda>t1. rbind (sendLoop_unstarted i t1) (\<lambda>t2. Inr (updConn i (\<lambda>c. c\<lparr>c_sending := False\<rparr>) t2)))"

text \<open>The end of a round: when the client has stopped, a close message is written and the loop ends.\<close>

definition sendLoop_close :: "nat \<Rightarrow> bool \<Rightarrow> transacter \<Rightarrow> transacter res" where
  "sendLoop_close i closeOK t =
     (if bench_stopped t then sendLoop_exit i (if closeOK then t else updConn i (\<lambda>c. c\<lparr>c_broken := True\<rparr>) t) else Inr t)"

text \<open>The first burst of a connection reports that it has started, before anything is written.\<close>

definition sendLoop_start :: "nat \<Rightarrow> transacter \<Rightarrow> transacter res" where
  "sendLoop_start i t =
     (if c_started (conns t ! i) then Inr t
      else rbind (wg_Done (startingWg t)) (\<lambda>s. Inr (updConn i (\<lambda>c. c\<lparr>c_started := True\<rparr>) (t\<lparr>startingWg := s\<rparr>))))"

definition sendLoop_round :: "nat \<Rightarrow> SendEvent \<Rightarrow> bool \<Rightarrow> transacter \<Rightarrow> transacter res" where
  "sendLoop_round i ev closeOK t = (case ev of
      TxTick written \<Rightarrow>
        rbind (sendLoop_start i t) (\<lambda>t1.
        if \<not> written then sendLoop_exit i (updConn i (\<lambda>c. c\<lparr>c_broken := True\<rparr>) t1)
        else sendLoop_close i closeOK t1)
    | PingTick written \<Rightarrow> sendLoop_close i closeOK (if written then t else updConn i (\<lambda>c. c\<lparr>c_broken := True\<rparr>) t))"

text \<open>One \<open>ReadMessage\<close> of the loop that receives: a message or an error.\<close>

definition receiveLoop_round :: "nat \<Rightarrow> bool \<Rightarrow> transacter \<Rightarrow> transacter res" where
  "receiveLoop_round i message t =
     (if message \<and> \<not> (bench_stopped t \<or> c_broken (conns t ! i)) then Inr t
      else rbind (wg_Done (endingWg t)) (\<lambda>e. Inr (updConn i (\<lambda>c. c\<lparr>c_receiving := False\<rparr>) (t\<lparr>endingWg := e\<rparr>))))"

text \<open>\<open>Stop\<close> is called once \<open>Start\<close> has returned; when the second wait group is empty it closes the connections.\<close>

definition transacter_Stop :: "transacter \<Rightarrow> transacter" where
  "transacter_Stop t = t\<lparr>bench_stopped := True\<rparr>"

definition Stop_closes :: "transacter \<Rightarrow> transacter" where
  "Stop_closes t = t\<lparr>conns := map (\<lambda>c. c\<lparr>c_open := False\<rparr>) (conns t)\<rparr>"

text \<open>A burst takes time: the client may be stopped between its start and the end of the round.\<close>

inductive bench_step :: "transacter \<Rightarrow> transacter \<Rightarrow> bool" where
  tick: "i < length (conns t) \<Longrightarrow> c_sending (conns t ! i) \<Longrightarrow> sendLoop_start i t = Inr t' \<Longrightarrow> bench_step t t'"
| send: "i < length (conns t) \<Longrightarrow> c_sending (conns t ! i) \<Longrightarrow> sendLoop_round i ev ok t = Inr t' \<Longrightarrow> bench_step t t'"
| receive: "i < length (conns t) \<Longrightarrow> c_receiving (conns t ! i) \<Longrightarrow> receiveLoop_round i m t = Inr t' \<Longrightarrow> bench_step t t'"
| stop: "startingWg t = 0 \<Longrightarrow> bench_step t (transacter_Stop t)"

inductive bench_reach :: "transacter \<Rightarrow> transacter \<Rightarrow> bool" for t0 where
  init: "bench_reach t0 t0"
| step: "bench_reach t0 t \<Longrightarrow> bench_step t t' \<Longrightarrow> bench_reach t0 t'"

interpretation loops: transition_system bench_step bench_reach
proof
  show "bench_reach s t \<Longrightarrow> P s \<Longrightarrow> (\<And>t u. P t \<Longrightarrow> bench_step t u \<Longrightarrow> P u) \<Longrightarrow> P t" for s t P
    by (induction rule: bench_reach.induct) blast+
qed (auto intro: bench_reach.intros)

section \<open>The wait groups\<close>

definition how_many :: "(Conn \<Rightarrow> bool) \<Rightarrow> transacter \<Rightarrow> int" where
  "how_many P t = int (length (filter P (conns t)))"

definition waits_to_start :: "Conn \<Rightarrow> bool" where
  "waits_to_start c \<longleftrightarrow> c_sending c \<and> \<not> c_started c"

text \<open>The first wait group counts the loops that have not sent yet, the second one the loops that run.\<close>

definition wg_invar :: "transacter \<Rightarrow> bool" where
  "wg_invar t \<longleftrightarrow> startingWg t = how_many waits_to_start t \<and> endingWg t = how_many c_sending t + how_many c_receiving t"

lemma length_filter_update:
  assumes "i < length xs"
  shows "int (length (filter P (xs[i := y]))) = int (length (filter P xs)) - of_bool (P (xs ! i)) + of_bool (P y)"
proof -
  have "filter P xs = filter P (take i xs) @ filter P [xs ! i] @ filter P (drop (Suc i) xs)"
    using arg_cong [OF id_take_nth_drop [OF assms], of "filter P"] by simp
  then show ?thesis by (simp add: upd_conv_take_nth_drop [OF assms])
qed

lemma how_many_updConn:
  "i < length (conns t) \<Longrightarrow> how_many P (updConn i f t) = how_many P t - of_bool (P (conns t ! i)) + of_bool (P (f (conns t ! i)))"
  by (simp add: how_many_def updConn_def length_filter_update)

lemma how_many_wg [simp]: "how_many P (t\<lparr>startingWg := s\<rparr>) = how_many P t" "how_many P (t\<lparr>endingWg := e\<rparr>) = how_many P t"
  "how_many P (t\<lparr>bench_stopped := b\<rparr>) = how_many P t"
  by (simp_all add: how_many_def)

lemma updConn_simps [simp]:
  "startingWg (updConn i f t) = startingWg t" "endingWg (updConn i f t) = endingWg t" "bench_stopped (updConn i f t) = bench_stopped t"
  "length (conns (updConn i f t)) = length (conns t)" "i < length (conns t) \<Longrightarrow> conns (updConn i f t) ! i = f (conns t ! i)"
  "j \<noteq> i \<Longrightarrow> conns (updConn i f t) ! j = conns t ! j"
  by (simp_all add: updConn_def)

lemma how_many_pos: "i < length (conns t) \<Longrightarrow> P (conns t ! i) \<Longrightarrow> 0 < how_many P t"
  by (auto simp: how_many_def length_greater_0_conv filter_empty_conv intro: nth_mem)

lemma how_many_nonneg [simp]: "0 \<le> how_many P t"
  by (simp add: how_many_def)

lemma wg_invarD: "wg_invar t \<Longrightarrow> startingWg t = how_many waits_to_start t" "wg_invar t \<Longrightarrow> endingWg t = how_many c_sending t + how_many c_receiving t"
  by (simp_all add: wg_invar_def)

text \<open>Marking a connection broken changes no count.\<close>

lemma wg_invar_broken [simp]: "i < length (conns t) \<Longrightarrow> wg_invar (updConn i (\<lambda>c. c\<lparr>c_broken := True\<rparr>) t) = wg_invar t"
  by (simp add: wg_invar_def how_many_updConn waits_to_start_def)

lemma sendLoop_exit_total:
  assumes "wg_invar t" "i < length (conns t)" "c_sending (conns t ! i)"
  shows "\<exists>t'. sendLoop_exit i t = Inr t' \<and> wg_invar t' \<and> length (conns t') = length (conns t) \<and> \<not> c_sending (conns t' ! i)
    \<and> bench_stopped t' = bench_stopped t \<and> c_receiving (conns t' ! i) = c_receiving (conns t ! i) \<and> (\<forall>j. j \<noteq> i \<longrightarrow> conns t' ! j = conns t ! j)"
proof -
  have "0 < how_many c_sending t" "c_started (conns t ! i) \<or> 0 < how_many waits_to_start t"
    using how_many_pos [of i t c_sending] how_many_pos [of i t waits_to_start] assms(2,3) by (auto simp: waits_to_start_def)
  then have "\<not> endingWg t \<le> 0" "c_started (conns t ! i) \<or> \<not> startingWg t \<le> 0"
    using wg_invarD [OF assms(1)] how_many_nonneg [of c_receiving t] by linarith+
  then show ?thesis using assms
    by (auto simp: sendLoop_exit_def sendLoop_ended_def sendLoop_unstarted_def wg_Done_def wg_invar_def waits_to_start_def updConn_def how_many_def length_filter_update)
qed

text \<open>A round of either loop never drives a wait group below zero and keeps what they count.\<close>

lemma sendLoop_close_total:
  assumes "wg_invar t" "i < length (conns t)" "c_sending (conns t ! i)"
  shows "\<exists>t'. sendLoop_close i closeOK t = Inr t' \<and> wg_invar t' \<and> length (conns t') = length (conns t) \<and> (bench_stopped t \<longrightarrow> \<not> c_sending (conns t' ! i))
    \<and> bench_stopped t' = bench_stopped t \<and> c_receiving (conns t' ! i) = c_receiving (conns t ! i) \<and> (\<forall>j. j \<noteq> i \<longrightarrow> conns t' ! j = conns t ! j)"
  using assms sendLoop_exit_total [of t i] sendLoop_exit_total [of "updConn i (\<lambda>c. c\<lparr>c_broken := True\<rparr>) t" i]
  by (cases closeOK) (auto simp: sendLoop_close_def)

lemma sendLoop_start_total:
  assumes "wg_invar t" "i < length (conns t)" "c_sending (conns t ! i)"
  shows "\<exists>t'. sendLoop_start i t = Inr t' \<and> wg_invar t' \<and> length (conns t') = length (conns t) \<and> c_sending (conns t' ! i)
    \<and> bench_stopped t' = bench_stopped t \<and> c_receiving (conns t' ! i) = c_receiving (conns t ! i) \<and> (\<forall>j. j \<noteq> i \<longrightarrow> conns t' ! j = conns t ! j)"
proof -
  have "c_started (conns t ! i) \<or> 0 < startingWg t"
    using how_many_pos [of i t waits_to_start] assms(2,3) wg_invarD(1) [OF assms(1)] by (auto simp: waits_to_start_def)
  then show ?thesis using assms wg_invarD [OF assms(1)] by (cases "c_started (conns t ! i)")
      (auto simp: sendLoop_start_def wg_Done_def wg_invar_def waits_to_start_def updConn_def how_many_def length_filter_update)
qed

lemma sendLoop_round_total:
  assumes inv: "wg_invar t" and i: "i < length (conns t)" "c_sending (conns t ! i)"
  shows "\<exists>t'. sendLoop_round i ev closeOK t = Inr t' \<and> wg_invar t' \<and> length (conns t') = length (conns t) \<and> (bench_stopped t \<longrightarrow> \<not> c_sending (conns t' ! i))
    \<and> bench_stopped t' = bench_stopped t \<and> c_receiving (conns t' ! i) = c_receiving (conns t ! i) \<and> (\<forall>j. j \<noteq> i \<longrightarrow> conns t' ! j = conns t ! j)"
proof (cases ev)
  case (PingTick written)
  then show ?thesis using sendLoop_close_total [of "if written then t else updConn i (\<lambda>c. c\<lparr>c_broken := True\<rparr>) t" i closeOK] inv i
    by (auto simp: sendLoop_round_def)
next
  case (TxTick written)
  obtain t1 where t1: "sendLoop_start i t = Inr t1"
    "wg_invar t1" "length (conns t1) = length (conns t)" "c_sending (conns t1 ! i)" "bench_stopped t1 = bench_stopped t"
    "c_receiving (conns t1 ! i) = c_receiving (conns t ! i)" "\<forall>j. j \<noteq> i \<longrightarrow> conns t1 ! j = conns t ! j"
    using sendLoop_start_total [OF inv i] by blast
  have i1: "i < length (conns t1)" using t1(3) i(1) by simp
  show ?thesis
  proof (cases written)
    case True
    then show ?thesis using sendLoop_close_total [OF t1(2) i1 t1(4), of closeOK] t1 TxTick by (auto simp: sendLoop_round_def)
  next
    case False
    let ?t = "updConn i (\<lambda>c. c\<lparr>c_broken := True\<rparr>) t1"
    show ?thesis using sendLoop_exit_total [of ?t i] False t1 i1 TxTick by (auto simp: sendLoop_round_def)
  qed
qed

lemma receiveLoop_round_total:
  assumes inv: "wg_invar t" and i: "i < length (conns t)" "c_receiving (conns t ! i)"
  shows "\<exists>t'. receiveLoop_round i m t = Inr t' \<and> wg_invar t' \<and> length (conns t') = length (conns t) \<and> (bench_stopped t \<longrightarrow> \<not> c_receiving (conns t' ! i))
    \<and> bench_stopped t' = bench_stopped t \<and> c_sending (conns t' ! i) = c_sending (conns t ! i) \<and> (\<forall>j. j \<noteq> i \<longrightarrow> conns t' ! j = conns t ! j)"
proof -
  have "0 < endingWg t" using how_many_pos [of i t c_receiving] i wg_invarD(2) [OF inv] how_many_nonneg [of c_sending t] by linarith
  then show ?thesis using assms by (auto simp: receiveLoop_round_def wg_Done_def wg_invar_def updConn_def how_many_def length_filter_update waits_to_start_def)
qed

lemma bench_step_invar:
  assumes "bench_step t t'" "wg_invar t"
  shows "wg_invar t' \<and> length (conns t') = length (conns t)"
  using assms(1)
proof cases
  case (tick i)
  then show ?thesis using sendLoop_start_total [OF assms(2), of i] by auto
next
  case (send i ev ok)
  then show ?thesis using sendLoop_round_total [OF assms(2), of i ev ok] by auto
next
  case (receive i m)
  then show ?thesis using receiveLoop_round_total [OF assms(2), of i m] by auto
next
  case stop
  then show ?thesis using assms(2) by (simp add: wg_invar_def transacter_Stop_def how_many_def)
qed

section \<open>Starting and stopping\<close>

lemma connect_loop_conns:
  "connect_loop connect is t = (t', err) \<Longrightarrow> map (\<lambda>c. (c_started c, c_sending c, c_receiving c)) (conns t') = map (\<lambda>c. (c_started c, c_sending c, c_receiving c)) (conns t)
    \<and> startingWg t' = startingWg t \<and> endingWg t' = endingWg t \<and> bench_stopped t' = bench_stopped t"
proof (induction "is" arbitrary: t)
  case (Cons i "is")
  have "map (\<lambda>c. (c_started c, c_sending c, c_receiving c)) (conns (updConn i (\<lambda>c. c\<lparr>c_open := True\<rparr>) t)) = map (\<lambda>c. (c_started c, c_sending c, c_receiving c)) (conns t)"
    by (cases "i < length (conns t)") (simp_all add: updConn_def map_update list_update_same_conv list_update_beyond)
  with Cons show ?case by (auto split: option.splits)
qed simp

lemma filter_all: "\<forall>x \<in> set xs. P x \<Longrightarrow> length (filter P xs) = length xs"
  by (simp add: filter_True)

lemma Start_invar:
  assumes "newTransacter target connections rate accounts method = Inr t" "transacter_Start connect t = (t', None)"
  shows "wg_invar t' \<and> length (conns t') = nat (sint connections) \<and> startingWg t' = sint connections \<and> \<not> bench_stopped t'"
proof -
  have n: "0 \<le> sint connections" and t: "startingWg t = 0" "endingWg t = 0" "Connections t = connections"
    "conns t = replicate (nat (sint connections)) \<lparr>c_open = False, c_started = False, c_sending = False, c_receiving = False, c_broken = False\<rparr>"
    using assms(1) by (auto simp: newTransacter_def split: if_splits)
  obtain t1 where t1: "connect_loop connect [0..<nat (sint connections)] (t\<lparr>bench_stopped := False\<rparr>) = (t1, None)"
    and t': "t' = t1\<lparr>startingWg := startingWg t1 + sint connections, endingWg := endingWg t1 + 2 * sint connections,
      conns := map (\<lambda>c. c\<lparr>c_sending := True, c_receiving := True\<rparr>) (conns t1)\<rparr>"
    using assms(2) t(3) by (auto simp: transacter_Start_def split: prod.splits option.splits)
  note c = connect_loop_conns [OF t1]
  have len: "length (conns t1) = nat (sint connections)" using arg_cong [OF conjunct1 [OF c], of length] t(4) by simp
  have "\<not> c_started x" if "x \<in> set (conns t1)" for x
  proof -
    have "(c_started x, c_sending x, c_receiving x) \<in> set (map (\<lambda>c. (c_started c, c_sending c, c_receiving c)) (conns t1))" using that by auto
    then show ?thesis using c t(4) by auto
  qed
  then show ?thesis using n len c t(1,2) unfolding t'
    by (auto simp: wg_invar_def how_many_def waits_to_start_def filter_map comp_def filter_all)
qed

lemma how_many_other:
  assumes "i < length (conns t)" "length (conns t') = length (conns t)" "\<forall>j. j \<noteq> i \<longrightarrow> conns t' ! j = conns t ! j"
  shows "how_many P t' = how_many P t - of_bool (P (conns t ! i)) + of_bool (P (conns t' ! i))"
proof -
  have "conns t' = (conns t)[i := conns t' ! i]" using assms by (intro nth_equalityI) (auto simp: nth_list_update)
  then show ?thesis using length_filter_update [OF assms(1), of P "conns t' ! i"] by (simp add: how_many_def)
qed

text \<open>Once the client has stopped, one more round of each running loop ends it.\<close>

lemma stop_ends: "wg_invar t \<Longrightarrow> bench_stopped t \<Longrightarrow> \<exists>t'. bench_reach t t' \<and> endingWg t' = 0"
proof (induction "nat (endingWg t)" arbitrary: t rule: less_induct)
  case less
  note e = wg_invarD(2) [OF less.prems(1)]
  show ?case
  proof (cases "\<exists>i < length (conns t). c_sending (conns t ! i) \<or> c_receiving (conns t ! i)")
    case False
    then have "how_many c_sending t = 0" "how_many c_receiving t = 0" by (auto simp: how_many_def filter_empty_conv in_set_conv_nth)
    then show ?thesis using e loops.run_refl by auto
  next
    case True
    then obtain i where i: "i < length (conns t)" "c_sending (conns t ! i) \<or> c_receiving (conns t ! i)" by blast
    have "\<exists>t'. bench_step t t' \<and> wg_invar t' \<and> bench_stopped t' \<and> endingWg t' = endingWg t - 1"
    proof (cases "c_sending (conns t ! i)")
      case True
      from sendLoop_round_total [OF less.prems(1) i(1) True, of "PingTick True" True] less.prems(2)
      obtain t' where t': "sendLoop_round i (PingTick True) True t = Inr t'" "wg_invar t'" "length (conns t') = length (conns t)" "\<not> c_sending (conns t' ! i)"
        "bench_stopped t'" "c_receiving (conns t' ! i) = c_receiving (conns t ! i)" "\<forall>j. j \<noteq> i \<longrightarrow> conns t' ! j = conns t ! j" by auto
      have "endingWg t' = endingWg t - 1"
        using how_many_other [OF i(1) t'(3,7), of c_sending] how_many_other [OF i(1) t'(3,7), of c_receiving] e wg_invarD(2) [OF t'(2)] t'(4,6) True by simp
      then show ?thesis using bench_step.send [OF i(1) True t'(1)] t'(2,5) by blast
    next
      case False
      then have r: "c_receiving (conns t ! i)" using i(2) by blast
      from receiveLoop_round_total [OF less.prems(1) i(1) r, of True] less.prems(2)
      obtain t' where t': "receiveLoop_round i True t = Inr t'" "wg_invar t'" "length (conns t') = length (conns t)" "\<not> c_receiving (conns t' ! i)"
        "bench_stopped t'" "c_sending (conns t' ! i) = c_sending (conns t ! i)" "\<forall>j. j \<noteq> i \<longrightarrow> conns t' ! j = conns t ! j" by auto
      have "endingWg t' = endingWg t - 1"
        using how_many_other [OF i(1) t'(3,7), of c_sending] how_many_other [OF i(1) t'(3,7), of c_receiving] e wg_invarD(2) [OF t'(2)] t'(4,6) r by simp
      then show ?thesis using bench_step.receive [OF i(1) r t'(1)] t'(2,5) by blast
    qed
    then obtain t' where t': "bench_step t t'" "wg_invar t'" "bench_stopped t'" "endingWg t' = endingWg t - 1" by blast
    have "0 < endingWg t" using i how_many_pos [of i t c_sending] how_many_pos [of i t c_receiving] e
      how_many_nonneg [of c_sending t] how_many_nonneg [of c_receiving t] by linarith
    then have "\<exists>u. bench_reach t' u \<and> endingWg u = 0" using less.hyps [OF _ t'(2,3)] t'(4) by simp
    with t'(1) show ?thesis by (rule loops.run_ahead)
  qed
qed

text \<open>
  (C34) The goroutines of the benchmark: after a start that opened its connections, in every interleaving of the loops the first wait group counts
  the connections that have not sent yet and the second one the loops that run; no \<open>Done\<close> makes a wait group negative, so no round of a loop
  panics; and once the client is stopped, the second wait group can reach zero, so that \<open>Stop\<close> returns.
\<close>

theorem bench_wait_groups:
  assumes "newTransacter target connections rate accounts method = Inr t0" "transacter_Start connect t0 = (t1, None)" "bench_reach t1 t"
  shows "startingWg t = how_many waits_to_start t \<and> endingWg t = how_many c_sending t + how_many c_receiving t
    \<and> (\<forall>i < length (conns t). (c_sending (conns t ! i) \<longrightarrow> (\<forall>ev ok. \<not> isl (sendLoop_round i ev ok t)))
        \<and> (c_receiving (conns t ! i) \<longrightarrow> (\<forall>m. \<not> isl (receiveLoop_round i m t))))
    \<and> (bench_stopped t \<longrightarrow> (\<exists>t'. bench_reach t t' \<and> endingWg t' = 0))"
proof -
  have inv: "wg_invar t" using loops.run_invar [OF assms(3), of wg_invar] Start_invar [OF assms(1,2)] bench_step_invar by blast
  show ?thesis using wg_invarD [OF inv] stop_ends [OF inv] sendLoop_round_total [OF inv] receiveLoop_round_total [OF inv]
    by (metis sum.disc(2))
qed

theorem bench_wait_groups_witness:
  "\<exists>t0 t1. newTransacter ''localhost'' 2 1000 1000 ''broadcast_tx'' = Inr t0 \<and> transacter_Start (\<lambda>_. None) t0 = (t1, None) \<and> startingWg t1 = how_many waits_to_start t1"
proof -
  obtain t0 where t0: "newTransacter ''localhost'' 2 1000 1000 ''broadcast_tx'' = Inr t0" "Connections t0 = 2" by (simp add: newTransacter_def)
  obtain t1 where t1: "transacter_Start (\<lambda>_. None) t0 = (t1, None)"
    using t0(2) by (simp add: transacter_Start_def upt_conv_Cons)
  show ?thesis using bench_wait_groups [OF t0(1) t1 loops.run_refl] t0(1) t1 by blast
qed

text \<open>
  The client may also wait forever: a loop whose write failed ends without a close message, and as long as the node sends nothing on that
  connection the loop that receives does not end.
\<close>

lemma silent_connection_waits:
  assumes "wg_invar t" "i < length (conns t)" "c_receiving (conns t ! i)" "sendLoop_round j ev ok t = Inr t'" "j < length (conns t)" "c_sending (conns t ! j)"
  shows "c_receiving (conns t' ! i) \<and> 0 < endingWg t'"
proof -
  from sendLoop_round_total [OF assms(1,5,6), of ev ok] assms(4)
  have t': "wg_invar t'" "length (conns t') = length (conns t)" "c_receiving (conns t' ! j) = c_receiving (conns t ! j)" "\<forall>k. k \<noteq> j \<longrightarrow> conns t' ! k = conns t ! k" by auto
  then have "c_receiving (conns t' ! i)" using assms(3) by metis
  moreover from this have "0 < how_many c_receiving t'" using how_many_pos assms(2) t'(2) by metis
  ultimately show ?thesis using wg_invarD(2) [OF t'(1)] how_many_nonneg [of c_sending t'] by linarith
qed

section \<open>Several endpoints\<close>

text \<open>
  \<open>startTransacters\<close> of main.go: one client for each endpoint. The clients start in goroutines of their own and touch no common state; an error of
  any of them ends the program, and which one is printed when there are several is left to the scheduler.
\<close>

fun startTransacters :: "(string \<Rightarrow> nat \<Rightarrow> string option) \<Rightarrow> string list \<Rightarrow> int64 \<Rightarrow> int64 \<Rightarrow> int64 \<Rightarrow> string \<Rightarrow> (string + transacter list) res" where
  "startTransacters connect [] connections txsRate accounts broadcastTxMethod = Inr (Inr [])"
| "startTransacters connect (e # es) connections txsRate accounts broadcastTxMethod =
     rbind (newTransacter e connections txsRate accounts broadcastTxMethod) (\<lambda>t.
     case transacter_Start (connect e) t of
       (t', Some err) \<Rightarrow> Inr (Inl err)
     | (t', None) \<Rightarrow> rbind (startTransacters connect es connections txsRate accounts broadcastTxMethod) (\<lambda>r.
         Inr (case r of Inl err \<Rightarrow> Inl err | Inr ts \<Rightarrow> Inr (t' # ts))))"

lemma connect_loop_err: "snd (connect_loop connect is t) = None \<longleftrightarrow> (\<forall>i \<in> set is. connect i = None)"
  by (induction "is" arbitrary: t) (auto split: option.splits)

lemma connect_loop_Target: "Target (fst (connect_loop connect is t)) = Target t"
  by (induction "is" arbitrary: t) (auto simp: updConn_def split: option.splits)

lemma Start_err:
  assumes "newTransacter target connections rate accounts method = Inr t"
  shows "snd (transacter_Start connect t) = None \<longleftrightarrow> (\<forall>i < nat (sint connections). connect i = None)"
    and "Target (fst (transacter_Start connect t)) = target"
proof -
  have t: "Connections t = connections" "Target t = target" using assms by (auto simp: newTransacter_def split: if_splits)
  obtain t1 err where c: "connect_loop connect [0..<nat (sint connections)] (t\<lparr>bench_stopped := False\<rparr>) = (t1, err)" by fastforce
  show "snd (transacter_Start connect t) = None \<longleftrightarrow> (\<forall>i < nat (sint connections). connect i = None)"
    using connect_loop_err [of connect "[0..<nat (sint connections)]" "t\<lparr>bench_stopped := False\<rparr>"] c t(1)
    by (auto simp: transacter_Start_def split: option.splits)
  show "Target (fst (transacter_Start connect t)) = target"
    using connect_loop_Target [of connect "[0..<nat (sint connections)]" "t\<lparr>bench_stopped := False\<rparr>"] c t
    by (auto simp: transacter_Start_def split: option.splits)
qed

text \<open>The program goes on exactly when every connection to every endpoint opens; then there is a running client for each endpoint, in order.\<close>

lemma startTransacters_outcome:
  assumes "0 \<le> sint connections"
  shows "(\<exists>ts. startTransacters connect es connections rate accounts method = Inr (Inr ts) \<and> map Target ts = es \<and> (\<forall>t \<in> set ts. wg_invar t))
           \<longleftrightarrow> (\<forall>e \<in> set es. \<forall>i < nat (sint connections). connect e i = None)"
    and "\<not> isl (startTransacters connect es connections rate accounts method)"
proof (induction es)
  case (Cons e es)
  obtain t where t: "newTransacter e connections rate accounts method = Inr t" using assms by (simp add: newTransacter_def)
  obtain t1 err where s: "transacter_Start (connect e) t = (t1, err)" by fastforce
  obtain r where r: "startTransacters connect es connections rate accounts method = Inr r"
    using Cons(2) by (cases "startTransacters connect es connections rate accounts method") auto
  note q = Start_err [OF t, of "connect e"] Start_invar [OF t, of "connect e" t1]
  { case 1 show ?case using Cons(1) t s r q by (cases r; cases err) auto }
  { case 2 show ?case using t s r by (cases err) auto }
qed simp_all

end
