(* ===== verification/Metrics.thy ===== *)
theory Metrics
  imports Mempool Blocks
begin

text \<open>
  The metrics of a node: the registry of libs/metric/metric\_set.go, the item of the consensus state (consensus/metric.go), the options
  that register the two items of a node (consensus/state.go, mempool/list\_mempool.go, wired in node/node.go) and the query of rpc/metric.go.
  The registry holds pointers, so an item is rendered when it is asked for and not when it is registered. The JSON of a value is the work
  of a library and a parameter.
\<close>

section \<open>Model\<close>

subsection \<open>The registry\<close>

text \<open>The type variable \<open>'i\<close> is the pointer to an item.\<close>

type_synonym 'i MetricSet = "string \<rightharpoonup> 'i"

definition NewMetricSet :: "'i MetricSet" where
  "NewMetricSet = Map.empty"

definition HasMetrics :: "string \<Rightarrow> 'i MetricSet \<Rightarrow> bool" where
  "HasMetrics label ms \<longleftrightarrow> ms label \<noteq> None"

definition SetMetrics :: "string \<Rightarrow> 'i \<Rightarrow> 'i MetricSet \<Rightarrow> 'i MetricSet \<times> string option" where
  "SetMetrics label item ms = (if HasMetrics label ms then (ms, Some ''metric label already exist'') else (ms(label \<mapsto> item), None))"

definition GetMetrics :: "string \<Rightarrow> 'i MetricSet \<Rightarrow> 'i option" where
  "GetMetrics label ms = (if \<not> HasMetrics label ms then None else ms label)"

text \<open>\<open>order\<close> is the order in which the iteration over the map meets the labels.\<close>

definition GetAlllabels :: "string list \<Rightarrow> string list" where
  "GetAlllabels order = foldl (\<lambda>keys k. keys @ [k]) [] order"

definition GetAllMetrics :: "string list \<Rightarrow> 'i MetricSet \<Rightarrow> 'i list" where
  "GetAllMetrics order ms = foldl (\<lambda>vals k. case ms k of None \<Rightarrow> vals | Some v \<Rightarrow> vals @ [v]) [] order"

text \<open>\<open>JSONString\<close> reads an item at the time of the query.\<close>

definition JSONMetrics :: "('i \<Rightarrow> string) \<Rightarrow> string list \<Rightarrow> string \<Rightarrow> 'i MetricSet \<Rightarrow> (string \<rightharpoonup> string)" where
  "JSONMetrics JSONString order label ms =
     (let labels = (if label \<noteq> [] then [label] else GetAlllabels order)
      in foldl (\<lambda>result l. case GetMetrics l ms of None \<Rightarrow> result | Some item \<Rightarrow> result(l \<mapsto> JSONString item)) Map.empty labels)"

subsection \<open>The item of the consensus state\<close>

record consensusMetric =
  cm_Slot :: int64
  cm_SlotStartTime :: Time
  LastRevisedSlot :: int64
  IsWorking :: bool
  RecieveProposal :: bool
  CommittedInCurrentSlot :: bool
  RoundStatus :: string
  cm_IsProposer :: bool
  ProposerAddress :: string

definition newConsensusMetric :: consensusMetric where
  "newConsensusMetric = \<lparr>cm_Slot = 0, cm_SlotStartTime = zeroTime, LastRevisedSlot = -1, IsWorking = False, RecieveProposal = False,
     CommittedInCurrentSlot = False, RoundStatus = '''', cm_IsProposer = False, ProposerAddress = ''''\<rparr>"

definition MarkSlot :: "LTime \<Rightarrow> consensusMetric \<Rightarrow> consensusMetric" where
  "MarkSlot slot cm = cm\<lparr>cm_Slot := Int64 slot\<rparr>"

definition MarkSlotStartTime :: "Time \<Rightarrow> consensusMetric \<Rightarrow> consensusMetric" where
  "MarkSlotStartTime t cm = cm\<lparr>cm_SlotStartTime := t\<rparr>"

definition MarkRevisedSlot :: "LTime \<Rightarrow> consensusMetric \<Rightarrow> consensusMetric" where
  "MarkRevisedSlot slot cm = cm\<lparr>LastRevisedSlot := Int64 slot\<rparr>"

definition MarkIsWorking :: "bool \<Rightarrow> consensusMetric \<Rightarrow> consensusMetric" where
  "MarkIsWorking v cm = cm\<lparr>IsWorking := v\<rparr>"

definition MarkRecieveProposal :: "bool \<Rightarrow> consensusMetric \<Rightarrow> consensusMetric" where
  "MarkRecieveProposal v cm = cm\<lparr>RecieveProposal := v\<rparr>"

definition MarkBlockStatus :: "string \<Rightarrow> consensusMetric \<Rightarrow> consensusMetric" where
  "MarkBlockStatus v cm = cm\<lparr>RoundStatus := v\<rparr>"

definition MarkIsProposer :: "bool \<Rightarrow> consensusMetric \<Rightarrow> consensusMetric" where
  "MarkIsProposer v cm = cm\<lparr>cm_IsProposer := v\<rparr>"

definition MarkProposerAddr :: "string \<Rightarrow> consensusMetric \<Rightarrow> consensusMetric" where
  "MarkProposerAddr v cm = cm\<lparr>ProposerAddress := v\<rparr>"

subsection \<open>The metrics of a node\<close>

text \<open>
  A node has one mempool and one consensus state; the constructors are the pointers to their metrics. No handler of the consensus state
  calls one of the functions above, so its metric is the one it was made with.
\<close>

datatype MetricItem = MemMetric | ConsensusMetric

definition RegisteryMetric :: "MetricItem \<Rightarrow> MetricItem MetricSet \<Rightarrow> MetricItem MetricSet" where
  "RegisteryMetric metric metricSet = fst (SetMetrics ''MEMPOOL'' metric metricSet)"

definition RegisterMetric :: "MetricItem \<Rightarrow> MetricItem MetricSet \<Rightarrow> MetricItem MetricSet" where
  "RegisterMetric metric metricSet = fst (SetMetrics ''CONSENSUS'' metric metricSet)"

definition createMetricSet :: "MetricItem MetricSet" where
  "createMetricSet = NewMetricSet"

text \<open>The registry \<open>NewNode\<close> leaves: the mempool registers first, then the consensus state.\<close>

definition NewNode_metricSet :: "MetricItem MetricSet" where
  "NewNode_metricSet = RegisterMetric ConsensusMetric (RegisteryMetric MemMetric createMetricSet)"

definition item_JSONString :: "(memMetric \<Rightarrow> string) \<Rightarrow> (consensusMetric \<Rightarrow> string) \<Rightarrow> 'c ListMempool \<Rightarrow> MetricItem \<Rightarrow> string" where
  "item_JSONString memJSON consJSON mem item = (case item of MemMetric \<Rightarrow> memJSON (mem_metric mem) | ConsensusMetric \<Rightarrow> consJSON newConsensusMetric)"

section \<open>Facts\<close>

lemma GetAlllabels_id [simp]: "GetAlllabels order = order"
proof -
  have "foldl (\<lambda>keys k. keys @ [k]) acc order = acc @ order" for acc by (induction order arbitrary: acc) simp_all
  then show ?thesis by (simp add: GetAlllabels_def)
qed

lemma GetMetrics_lookup [simp]: "GetMetrics l ms = ms l"
  by (simp add: GetMetrics_def HasMetrics_def)

lemma JSONMetrics_foldl:
  "foldl (\<lambda>r l. case ms l of None \<Rightarrow> r | Some item \<Rightarrow> r(l \<mapsto> json item)) r ls k
   = (if k \<in> set ls \<and> ms k \<noteq> None then map_option json (ms k) else r k)"
  by (induction ls arbitrary: r) (auto split: option.split)

text \<open>The query without a label answers with exactly what is registered, with a label with that item only.\<close>

lemma JSONMetrics_all: "set order = dom ms \<Longrightarrow> JSONMetrics json order [] ms = map_option json \<circ> ms"
  by (intro ext) (auto simp: JSONMetrics_def JSONMetrics_foldl)

lemma JSONMetrics_one: "l \<noteq> [] \<Longrightarrow> JSONMetrics json order l ms = (map_option json \<circ> ms) |` {l}"
  by (intro ext) (auto simp: JSONMetrics_def restrict_map_def split: option.split)

text \<open>A label is set once.\<close>

lemma metrics_set_once:
  assumes "SetMetrics label item ms = (ms', err)"
  shows "(err = None \<longleftrightarrow> ms label = None) \<and> ms' = (if ms label = None then ms(label \<mapsto> item) else ms)"
  using assms by (auto simp: SetMetrics_def HasMetrics_def split: if_splits)

lemma NewNode_metricSet_eq: "NewNode_metricSet = [''MEMPOOL'' \<mapsto> MemMetric, ''CONSENSUS'' \<mapsto> ConsensusMetric]"
  by (simp add: NewNode_metricSet_def RegisterMetric_def RegisteryMetric_def SetMetrics_def HasMetrics_def createMetricSet_def NewMetricSet_def)

text \<open>
  The numbers of pending and of locked transactions are never set. A transaction that enters sets the number of bytes and leaves the
  number of transactions, one that is removed the other way round.
\<close>

lemma metric_Update_loop:
  "mm_PendingTxsNum (mem_metric (Update_loop e sha C txs mem)) = mm_PendingTxsNum (mem_metric mem)
   \<and> mm_LockedTxsNum (mem_metric (Update_loop e sha C txs mem)) = mm_LockedTxsNum (mem_metric mem)
   \<and> mm_TotalTxsNum (mem_metric (Update_loop e sha C txs mem)) = mm_TotalTxsNum (mem_metric mem)"
  by (induction txs arbitrary: mem) (simp_all add: removeTx_def MarkTxsNum_def Let_def split: option.split)

lemma metric_CheckTx:
  assumes "CheckTx e sha C tx sender mem = (mem', err)"
  shows "mem_metric mem' = (if err = None then MarkTotalTxsBytes (TxsBytes mem') (mem_metric mem) else mem_metric mem)"
  using assms by (auto simp: CheckTx_def addTx_def TxsBytes_def nop_Push_def Let_def split: option.splits if_splits prod.splits)

lemma metric_removed:
  assumes "txsMap mem (TxKey e sha tx) = Some el"
  shows "mm_TxsNum (mem_metric (Update_loop e sha C [tx] mem)) = Mempool_Size C (Update_loop e sha C [tx] mem)"
  using assms by (simp add: removeTx_def MarkTxsNum_def Mempool_Size_def Let_def)

lemma metric_reach:
  "mem_reach e sha C config mem \<Longrightarrow> mm_PendingTxsNum (mem_metric mem) = 0 \<and> mm_LockedTxsNum (mem_metric mem) = 0"
proof (induction rule: mem_reach.induct)
  case (check mem tx sender)
  then show ?case using metric_CheckTx [of e sha C tx sender mem] by (cases "CheckTx e sha C tx sender mem") (simp add: MarkTotalTxsBytes_def)
qed (simp_all add: NewListMempool_def newMemMetric_def Mempool_Update_def metric_Update_loop LockTxs_def ReleaseTxs_def Flush_def)

section \<open>What the operator sees\<close>

text \<open>
  The query for all metrics of a node answers for the two labels the node registers. The mempool's item has no pending and no locked
  transaction whatever the mempool did, and the consensus state's item is the one the node started with.
\<close>

theorem metrics_answer:
  assumes "mem_reach e sha C config mem" "set order = {''MEMPOOL'', ''CONSENSUS''}"
  shows "\<exists>n b. JSONMetrics (item_JSONString memJSON consJSON mem) order [] NewNode_metricSet
    = [''MEMPOOL'' \<mapsto> memJSON \<lparr>mm_TxsNum = n, mm_PendingTxsNum = 0, mm_LockedTxsNum = 0, mm_TotalTxsNum = b\<rparr>,
       ''CONSENSUS'' \<mapsto> consJSON newConsensusMetric]"
proof -
  obtain n b where "mem_metric mem = \<lparr>mm_TxsNum = n, mm_PendingTxsNum = 0, mm_LockedTxsNum = 0, mm_TotalTxsNum = b\<rparr>"
    using metric_reach [OF assms(1)] by (cases "mem_metric mem") simp
  moreover have "set order = dom NewNode_metricSet" using assms(2) by (auto simp: NewNode_metricSet_eq)
  ultimately have "JSONMetrics (item_JSONString memJSON consJSON mem) order [] NewNode_metricSet
    = [''MEMPOOL'' \<mapsto> memJSON \<lparr>mm_TxsNum = n, mm_PendingTxsNum = 0, mm_LockedTxsNum = 0, mm_TotalTxsNum = b\<rparr>,
       ''CONSENSUS'' \<mapsto> consJSON newConsensusMetric]"
    by (simp add: JSONMetrics_all NewNode_metricSet_eq item_JSONString_def fun_eq_iff)
  then show ?thesis by blast
qed

text \<open>
  The counters of the mempool are stale: after a transaction was accepted by an empty mempool the number of transactions is still
  reported as 0, and after it was removed again its bytes still are.
\<close>

theorem mempool_metric_stale:
  assumes "CheckTx e sha C tx sender (NewListMempool C config) = (mem, None)" "clist_laws C"
  shows "Mempool_Size C mem = 1 \<and> mm_TxsNum (mem_metric mem) = 0 \<and> mm_TotalTxsNum (mem_metric mem) = ComputeSize tx
    \<and> TxsBytes (Mempool_Update e sha C slot [tx] mem) = 0
    \<and> mm_TotalTxsNum (mem_metric (Mempool_Update e sha C slot [tx] mem)) = ComputeSize tx"
proof -
  obtain el l where p: "clPushBack C \<lparr>mt_slot = LtimeZero, mt_tx = tx\<rparr> (clNew C) = (el, l)" by fastforce
  have m: "mem = addTx e sha C \<lparr>mt_slot = LtimeZero, mt_tx = tx\<rparr> {sender} (NewListMempool C config)"
    using assms(1) by (auto simp: CheckTx_def nop_Push_def NewListMempool_def Let_def split: option.splits if_splits)
  have "length (clItems C l) = 1" using clist_lawsD(1) [OF assms(2)] clist_lawsD(2) [OF assms(2) p] by simp
  then show ?thesis unfolding m using p
    by (simp add: addTx_def NewListMempool_def newMemMetric_def MarkTotalTxsBytes_def Mempool_Size_def TxsBytes_def Mempool_Update_def removeTx_def
        MarkTxsNum_def Let_def)
qed

end
