(* ===== verification/Spec2Isabelle.thy ===== *)
theory Spec2Isabelle
  imports ValidatorLists NodeProps Forks Commands NodeService MempoolSpec BenchLoops Metrics
begin

text \<open>
  \<^bold>\<open>Verification of the ChainBFT node.\<close>

  \<^bold>\<open>The program.\<close> A node of a small Byzantine fault tolerant block chain. Time is cut into slots of \<open>SlotTimeOut\<close>. The slot clock
  (consensus/slot.go) posts a timeout, the consensus state machine (consensus/state.go) turns it into the events of a slot: enter the slot, apply the
  proposal of the last one, propose when the node is the leader. Votes and proposals of peers come through the reactor (consensus/reactor.go).
  Accepted proposals become blocks of a tree (types/block\_tree.go); quorums of votes (consensus/types/slot\_vote\_set.go), joined into one threshold
  signature (crypto/threshold, crypto/bls), pre-commit a block, and the block executor (state/executor.go) commits a path of the tree
  (state/state.go) to the SmallBank store (store/kv\_store.go). The mempool (mempool/) hands transactions to proposals; the RPC queries (rpc/) read the chain.

  \<^bold>\<open>The theories.\<close>
  \<^item> \<open>Prelude\<close>: results that may fail (\<open>res\<close>, with nil dereference, index, panic and exhausted fuel as faults), \<open>rbind\<close>, words of 32 and 64
    bits, and the locales \<open>cell_store\<close> of a memory of cells, \<open>transition_system\<close> of a step relation with its runs, which is interpreted on the
    node, on the gossip and on the benchmark client, and \<open>simulation\<close> of operations that implement a specification, interpreted on the mempool. \<open>Strconv\<close>, \<open>GoStrings\<close>: Go's decimal conversions, strings and hexadecimal. \<open>LogicTime\<close>: types/logic\_time.go.
  \<^item> \<open>Env\<close>: the third-party functions the program calls (hashes, Merkle roots, JSON, ed25519, the validator keys) as one record \<open>Crypto\<close>, with their
    documented behaviour as \<open>ed25519_laws\<close> and \<open>sign_laws\<close>; \<open>PlainEnv\<close>: a concrete instance on which these laws hold.
  \<^item> \<open>Transactions\<close>, \<open>Blocks\<close>, \<open>Validators\<close>: types/tx.go; types/block.go, quorum.go, vote.go, commit.go, utils.go, proposal.go with the heap
    of blocks, quorums, trees and sets that the program shares by pointer; types/validator.go and validator\_set.go.
  \<^item> \<open>BlockTrees\<close>, \<open>BlockTreeFacts\<close>: types/block\_tree.go and block\_set.go; the locale \<open>block_index\<close> is the contract of the tree as an index of
    blocks by hash, interpreted on the tree.
  \<^item> \<open>ChainState\<close>, \<open>Executor\<close>, \<open>ExecutorFacts\<close>, \<open>ChainProps\<close>: state/state.go and state/executor.go; the locale \<open>block_store\<close> is what the
    executor relies on of a store, interpreted on the stores of the program.
  \<^item> \<open>Lagrange\<close>, \<open>Bls\<close>, \<open>Threshold\<close>: interpolation over a field, crypto/bls/bls.go, crypto/threshold/threshol\_signature.go. \<open>Privval\<close>:
    privval/file.go and types/priv\_validator.go. \<open>ValidatorLists\<close>: copies, iteration and random sets of validators. \<open>Genesis\<close>, \<open>GenesisProps\<close>: types/genesis.go and cmd/commands/gen\_genesis.go.
  \<^item> \<open>VoteSets\<close>: consensus/types. \<open>SlotClocks\<close>: consensus/slot.go. \<open>Consensus\<close>, \<open>ConsensusFacts\<close>: consensus/state.go, one definition per
    handler, over the record \<open>World\<close> of the consensus state, the heap, the database and the queues.
  \<^item> \<open>Machine\<close>: the node as a transition system \<open>step\<close> whose steps are the deliveries of the timer, of timeouts, events and messages, in any order, and the
    invariant of the slot machine; \<open>NodeVotes\<close>: the invariant of the votes; \<open>Evidence\<close>: the search for evidence.
  \<^item> \<open>Node\<close>, \<open>NodeFacts\<close>, \<open>NodeProps\<close>, \<open>Demo\<close>: node/node.go and consensus/reactor.go; the start of a node, the messages from the network, the
    properties of reachable worlds, and a concrete run on which they are applied. \<open>NodeChain\<close>, \<open>NodeCommits\<close>: the invariant of the block tree and
    of the proposals that are still in the queues, kept by every step. \<open>Forks\<close>: when the committed blocks are one chain, what the signature of a
    proposal covers, and how the votes of a slot are counted.
  \<^item> \<open>SmallBank\<close>: store/kv\_store.go over an abstract database. \<open>Mempool\<close>, \<open>PeerIDs\<close>, \<open>Gossip\<close>: mempool/, the gossip goroutine of a peer being
    a machine whose steps interleave with the operations of the mempool. \<open>MempoolSpec\<close>: the abstract pool that the list mempool implements, the
    locale \<open>reaping\<close> of a mempool whose packed transactions are locked, interpreted on the list mempool and on the one of mempool/mock. \<open>RpcStats\<close>, \<open>RpcHandlers\<close>: libs/utils/math.go, rpc/, and the
    address lists of node/. \<open>Metrics\<close>: libs/metric, consensus/metric.go and rpc/metric.go; what an operator sees of the mempool and of the consensus state.
  \<^item> \<open>Commands\<close>: the files of a node (privval/file.go, types/genesis.go) and the commands of cmd/commands, over a file system that maps paths to
    contents. \<open>NodeService\<close>: channels, node information, start and stop of node/node.go. \<open>Bench\<close>, \<open>BenchLoops\<close>: tools/tm-bench,
    its transactions and statistics, and the goroutines of its connections with their wait groups.

  \<^bold>\<open>What is shown.\<close> The slot machine never meets an event in the wrong step and never loses its timer; quorums are backed by authentic
  votes of different validators; signed votes are accepted and wrong proposals have no effect; applying a block keeps the tree a hash
  chain and the committed blocks closed under parents, and over every run of a started node the tree only grows and what is committed stays
  committed, for every store that reports no error, as the SmallBank store does not; the blocks that commit are a path and are executed in its order; traversals and searches end, and where the search for evidence
  need not end this is shown too. Threshold signatures recover the signature of the cluster key from enough shares. The mempool answers as
  an abstract pool does and keeps its books, peers have different ids, SmallBank transactions do what they say on one transaction per account and block;
  gossip sends every transaction once, in order and never back; what a client sends is what is queued; and the files that the commands generate
  for a cluster fit together, so that a node with them starts in its place among the validators.
  What the protocol does not protect is shown as well: committed blocks stay one chain exactly when the chosen path lies on the branch of the
  tip, evidence that nobody signed makes them fork, the signature of a proposal does not cover its contents, and votes for different blocks are
  counted together. Where the code does something else than
  it means to, the theorem says what it does.

  \<^bold>\<open>Bounds and idealisations.\<close> Machine integers keep their width. Loops over the tree carry as many rounds as the tree has nodes, shown to be
  enough; the search for evidence has its fuel as an input, because it may run for ever. Times are integers in nanoseconds; floating-point
  numbers are exact rationals. \<open>SlotTimeOut\<close> and \<open>Threshold\<close> have the values of their declarations, two seconds and 3; flags of the
  command that starts a node can change them (and set three seconds by default). The slot number does not reach the end of its 64
  bits. A handler runs under the mutex and is one step. Every reading of a clock and every random draw is an argument.

  \<^bold>\<open>Not modelled.\<close> The JSON codecs, the file system, the peer-to-peer switch and transport, the web server and the concurrent list are libraries: parameters with
  their documented behaviour as hypotheses. Left out are logging and printing, the parsing of flags and of the configuration,
  the construction of the transport and the switch, which only calls their library, the program tools/rpc\_test, and helpers of tests.
\<close>

end
